(* ===== verification/Acad_Prelude.thy ===== *)
theory Acad_Prelude
  imports Main "HOL-Library.Char_ord" "HOL-Library.List_Lexorder"
begin

text \<open>
  What every component shares: C++ exceptions as values, operations that pass a state and
  may throw, the fixed width integers and NUL-terminated strings that cross the SQLite
  interface, and the list lemmas behind the table statements (UPDATE as a conditional map,
  DELETE as a filter, COUNT as the length of a filter).

  Collections: \<open>op_simps\<close> unfolds the exception and state combinators, \<open>wf_rules\<close>
  collects the facts "this statement keeps this invariant".
\<close>

named_theorems op_simps "combinators of throwing, state passing operations"
named_theorems wf_rules "statements and operations that keep an invariant"

section \<open>Exceptions and operations\<close>

text \<open>The exceptions the sources throw or let through, all below \<open>std::exception\<close>.\<close>

datatype exn =
    Runtime_Error string      \<comment> \<open>\<open>std::runtime_error\<close>\<close>
  | Invalid_Argument string   \<comment> \<open>\<open>std::invalid_argument\<close>\<close>
  | Json_Error string         \<comment> \<open>\<open>nlohmann::json::exception\<close>\<close>

text \<open>\<open>e.what()\<close>.\<close>

fun what :: "exn \<Rightarrow> string" where
  "what (Runtime_Error m) = m"
| "what (Invalid_Argument m) = m"
| "what (Json_Error m) = m"

type_synonym 'a exc = "exn + 'a"
type_synonym ('s, 'a) op = "'s \<Rightarrow> 'a exc \<times> 's"

definition ebind :: "'a exc \<Rightarrow> ('a \<Rightarrow> 'b exc) \<Rightarrow> 'b exc" where
  "ebind m f = (case m of Inl e \<Rightarrow> Inl e | Inr a \<Rightarrow> f a)"

definition emap :: "('a \<Rightarrow> 'b) \<Rightarrow> 'a exc \<Rightarrow> 'b exc" where
  "emap f m = (case m of Inl e \<Rightarrow> Inl e | Inr a \<Rightarrow> Inr (f a))"

text \<open>A C++ loop that pushes \<open>f x\<close> for every \<open>x\<close> and stops at the first throw.\<close>

fun traverse :: "('a \<Rightarrow> 'b exc) \<Rightarrow> 'a list \<Rightarrow> 'b list exc" where
  "traverse f [] = Inr []"
| "traverse f (x # xs) = ebind (f x) (\<lambda>y. emap ((#) y) (traverse f xs))"

definition xret :: "'a \<Rightarrow> ('s, 'a) op" where
  "xret a s = (Inr a, s)"

definition xthrow :: "exn \<Rightarrow> ('s, 'a) op" where
  "xthrow e s = (Inl e, s)"

definition xbind :: "('s, 'a) op \<Rightarrow> ('a \<Rightarrow> ('s, 'b) op) \<Rightarrow> ('s, 'b) op" where
  "xbind m f s = (case m s of (Inl e, s') \<Rightarrow> (Inl e, s') | (Inr a, s') \<Rightarrow> f a s')"

definition xget :: "('s \<Rightarrow> 'a exc) \<Rightarrow> ('s, 'a) op" where
  "xget f s = (f s, s)"

lemma ebind_simps [simp]:
  "ebind (Inl e) f = Inl e"
  "ebind (Inr a) f = f a"
  by (simp_all add: ebind_def)

lemma emap_simps [simp]:
  "emap g (Inl e) = Inl e"
  "emap g (Inr a) = Inr (g a)"
  by (simp_all add: emap_def)

lemma ebind_Inr_iff: "ebind m f = Inr b \<longleftrightarrow> (\<exists>a. m = Inr a \<and> f a = Inr b)"
  by (cases m) simp_all

lemma emap_Inr_iff: "emap g m = Inr b \<longleftrightarrow> (\<exists>a. m = Inr a \<and> b = g a)"
  by (cases m) auto

lemma traverse_Inr: "(\<And>x. x \<in> set xs \<Longrightarrow> f x = Inr (g x)) \<Longrightarrow> traverse f xs = Inr (map g xs)"
  by (induction xs) simp_all

lemma traverse_length: "traverse f xs = Inr ys \<Longrightarrow> length ys = length xs"
  by (induction xs arbitrary: ys) (auto simp: ebind_Inr_iff emap_Inr_iff)

lemma xbind_app [op_simps]:
  "xbind m f s = (case m s of (Inl e, s') \<Rightarrow> (Inl e, s') | (Inr a, s') \<Rightarrow> f a s')"
  by (simp add: xbind_def)

lemmas op_unfold [op_simps] = xret_def xthrow_def xget_def

section \<open>Fixed width integers and C strings\<close>

definition i32_max :: int where "i32_max = 2147483647"
definition i64_max :: int where "i64_max = 9223372036854775807"

text \<open>
  The value a C++ \<open>int\<close> holds after a conversion from a wider integer: what
  \<open>sqlite3_column_int\<close> and a narrowing \<open>static_cast\<close> do.
\<close>

definition to_i32 :: "int \<Rightarrow> int" where
  "to_i32 v = (v + 2147483648) mod 4294967296 - 2147483648"

lemma to_i32_id: "- 2147483648 \<le> v \<Longrightarrow> v \<le> i32_max \<Longrightarrow> to_i32 v = v"
  by (simp add: to_i32_def i32_max_def)

lemma to_i32_range: "- 2147483648 \<le> to_i32 v" "to_i32 v \<le> i32_max"
proof -
  have "0 \<le> (v + 2147483648) mod 4294967296" by simp
  then show "- 2147483648 \<le> to_i32 v" unfolding to_i32_def by linarith
  have "(v + 2147483648) mod 4294967296 < 4294967296" by simp
  then show "to_i32 v \<le> i32_max" unfolding to_i32_def i32_max_def by linarith
qed

lemma to_i32_idem [simp]: "to_i32 (to_i32 v) = to_i32 v"
  by (rule to_i32_id) (rule to_i32_range)+

text \<open>\<open>value.c_str()\<close> read with length -1: the text up to the first NUL byte.\<close>

definition c_str :: "string \<Rightarrow> string" where
  "c_str s = takeWhile (\<lambda>c. c \<noteq> CHR 0x00) s"

lemma c_str_idem [simp]: "c_str (c_str s) = c_str s"
  unfolding c_str_def by (rule takeWhile_idem)

lemma c_str_id: "CHR 0x00 \<notin> set s \<Longrightarrow> c_str s = s"
  unfolding c_str_def by (induction s) auto

text \<open>\<open>std::to_string\<close> of an integer.\<close>

definition digit_char :: "nat \<Rightarrow> char" where
  "digit_char d = char_of (48 + d)"

fun dec_nat :: "nat \<Rightarrow> string" where
  "dec_nat n = (if n < 10 then [digit_char n] else dec_nat (n div 10) @ [digit_char (n mod 10)])"

declare dec_nat.simps [simp del]

definition to_string :: "int \<Rightarrow> string" where
  "to_string i = (if i < 0 then ''-'' @ dec_nat (nat (- i)) else dec_nat (nat i))"

text \<open>\<open>s.find(p) != std::string::npos\<close>.\<close>

fun has_sub :: "string \<Rightarrow> string \<Rightarrow> bool" where
  "has_sub p [] \<longleftrightarrow> p = []"
| "has_sub p (c # s) \<longleftrightarrow> take (length p) (c # s) = p \<or> has_sub p s"

lemma has_sub_iff: "has_sub p s \<longleftrightarrow> (\<exists>u v. s = u @ p @ v)"
proof (induction s)
  case Nil
  then show ?case by auto
next
  case (Cons c s)
  show ?case
  proof
    assume "has_sub p (c # s)"
    then consider "take (length p) (c # s) = p" | "has_sub p s" by auto
    then show "\<exists>u v. c # s = u @ p @ v"
    proof cases
      case 1
      then have "c # s = [] @ p @ drop (length p) (c # s)"
        by (metis append_Nil append_take_drop_id)
      then show ?thesis by blast
    next
      case 2
      then obtain u v where "s = u @ p @ v" using Cons.IH by blast
      then have "c # s = (c # u) @ p @ v" by simp
      then show ?thesis by blast
    qed
  next
    assume "\<exists>u v. c # s = u @ p @ v"
    then obtain u v where e: "c # s = u @ p @ v" by blast
    show "has_sub p (c # s)"
    proof (cases u)
      case Nil
      with e have "take (length p) (c # s) = p" by simp
      then show ?thesis by simp
    next
      case (Cons d u')
      with e have "s = u' @ p @ v" by simp
      with Cons.IH have "has_sub p s" by blast
      then show ?thesis by simp
    qed
  qed
qed

section \<open>Tables as lists of rows\<close>

definition sql_update :: "('r \<Rightarrow> bool) \<Rightarrow> ('r \<Rightarrow> 'r) \<Rightarrow> 'r list \<Rightarrow> 'r list" where
  "sql_update P f rs = map (\<lambda>r. if P r then f r else r) rs"

definition sql_delete :: "('r \<Rightarrow> bool) \<Rightarrow> 'r list \<Rightarrow> 'r list" where
  "sql_delete P rs = filter (\<lambda>r. \<not> P r) rs"

definition sql_count :: "('r \<Rightarrow> bool) \<Rightarrow> 'r list \<Rightarrow> int" where
  "sql_count P rs = int (length (filter P rs))"

lemma sql_count_Nil [simp]: "sql_count P [] = 0"
  by (simp add: sql_count_def)

lemma sql_count_Cons [simp]: "sql_count P (r # rs) = (if P r then 1 else 0) + sql_count P rs"
  by (simp add: sql_count_def)

lemma sql_count_append [simp]: "sql_count P (rs @ qs) = sql_count P rs + sql_count P qs"
  by (simp add: sql_count_def)

lemma sql_count_nonneg [simp]: "0 \<le> sql_count P rs"
  by (simp add: sql_count_def)

lemma sql_count_pos_iff: "0 < sql_count P rs \<longleftrightarrow> (\<exists>r \<in> set rs. P r)"
  by (induction rs) (auto simp: add_strict_increasing2 intro: add_pos_nonneg)

lemma sql_count_0_iff: "sql_count P rs = 0 \<longleftrightarrow> (\<forall>r \<in> set rs. \<not> P r)"
  using sql_count_pos_iff [of P rs] sql_count_nonneg [of P rs] by (metis less_le)

lemma sql_count_mono: "(\<And>r. r \<in> set rs \<Longrightarrow> P r \<Longrightarrow> Q r) \<Longrightarrow> sql_count P rs \<le> sql_count Q rs"
  by (induction rs) auto

lemma sql_count_cong: "(\<And>r. r \<in> set rs \<Longrightarrow> P r = Q r) \<Longrightarrow> sql_count P rs = sql_count Q rs"
  by (induction rs) auto

lemma sql_count_delete_le: "sql_count P (sql_delete Q rs) \<le> sql_count P rs"
  by (induction rs) (auto simp: sql_delete_def)

lemma sql_count_update:
  "sql_count P (sql_update Q f rs) = sql_count (\<lambda>r. if Q r then P (f r) else P r) rs"
  by (induction rs) (auto simp: sql_update_def)

lemma set_sql_delete [simp]: "set (sql_delete P rs) = {r \<in> set rs. \<not> P r}"
  by (auto simp: sql_delete_def)

lemma set_sql_update: "set (sql_update P f rs) = (\<lambda>r. if P r then f r else r) ` set rs"
  by (auto simp: sql_update_def)

lemma bex_sql_update:
  "(\<exists>q \<in> set (sql_update P f rs). Q q) \<longleftrightarrow> (\<exists>q \<in> set rs. if P q then Q (f q) else Q q)"
  unfolding set_sql_update by auto

lemma map_sql_update:
  "(\<And>r. r \<in> set rs \<Longrightarrow> P r \<Longrightarrow> g (f r) = g r) \<Longrightarrow> map g (sql_update P f rs) = map g rs"
  by (auto simp: sql_update_def)

lemma image_sql_update:
  "(\<And>r. r \<in> set rs \<Longrightarrow> P r \<Longrightarrow> g (f r) = g r) \<Longrightarrow> g ` set (sql_update P f rs) = g ` set rs"
  by (metis image_set map_sql_update)

lemma distinct_map_sql_delete [simp]: "distinct (map g rs) \<Longrightarrow> distinct (map g (sql_delete P rs))"
  by (simp add: sql_delete_def distinct_map_filter)

lemma list_all_sql_delete: "list_all P rs \<Longrightarrow> list_all P (sql_delete Q rs)"
  by (simp add: list_all_iff)

lemma list_all_sql_update:
  "list_all P rs \<Longrightarrow> (\<And>r. r \<in> set rs \<Longrightarrow> P r \<Longrightarrow> Q r \<Longrightarrow> P (f r)) \<Longrightarrow> list_all P (sql_update Q f rs)"
  by (auto simp: list_all_iff set_sql_update)

lemma sql_update_none: "(\<And>r. r \<in> set rs \<Longrightarrow> \<not> P r) \<Longrightarrow> sql_update P f rs = rs"
  by (simp add: sql_update_def map_idI)

text \<open>A key identifies one row of a table whose key column has no duplicates.\<close>

lemma distinct_map_eqD:
  "distinct (map g rs) \<Longrightarrow> r \<in> set rs \<Longrightarrow> q \<in> set rs \<Longrightarrow> g r = g q \<Longrightarrow> r = q"
  by (meson distinct_map inj_onD)

lemma find_key_Some:
  "distinct (map g rs) \<Longrightarrow> r \<in> set rs \<Longrightarrow> find (\<lambda>q. g q = g r) rs = Some r"
  by (induction rs) (auto simp: image_iff)

lemma find_key_iff:
  "distinct (map g rs) \<Longrightarrow> find (\<lambda>q. g q = k) rs = Some r \<longleftrightarrow> r \<in> set rs \<and> g r = k"
  using find_key_Some [of g rs r] by (auto simp: find_Some_iff)

lemma find_None_iff_key: "find (\<lambda>q. g q = k) rs = None \<longleftrightarrow> k \<notin> g ` set rs"
  by (auto simp: find_None_iff)

lemma sql_count_key_le1:
  "distinct (map g rs) \<Longrightarrow> sql_count (\<lambda>r. g r = k \<and> P r) rs \<le> 1"
proof (induction rs)
  case Nil
  then show ?case by simp
next
  case (Cons r rs)
  show ?case
  proof (cases "g r = k \<and> P r")
    case True
    with Cons.prems have "sql_count (\<lambda>r. g r = k \<and> P r) rs = 0"
      by (auto simp: sql_count_0_iff) (metis image_eqI)
    with True show ?thesis by simp
  next
    case False
    with Cons show ?thesis by auto
  qed
qed

end
