(* ===== verification/Models.thy ===== *)
theory Models
  imports Complex_Main Acad_Prelude
begin

text \<open>
  The domain models of \<^verbatim>\<open>backend/include/models\<close>: \<open>User\<close> with its \<open>Role\<close>,
  \<open>Course\<close> and \<open>Registration\<close>, and their conversions to and from JSON.

  The JSON library (nlohmann/json) is not part of the repository: it is the parameter
  \<open>'j json_api\<close> of every definition that builds or reads JSON, a record of the library's
  constructors (\<open>j_obj\<close> for the braced list of key and value pairs), queries and
  conversions. A conversion \<open>get<T>()\<close> on a value of another type throws
  \<open>json::type_error\<close>, so it returns an \<open>exc\<close>.
\<close>

record 'j json_api =
  j_null :: 'j
  j_bool :: "bool \<Rightarrow> 'j"
  j_int :: "int \<Rightarrow> 'j"
  j_real :: "real \<Rightarrow> 'j"
  j_str :: "string \<Rightarrow> 'j"
  j_arr :: "'j list \<Rightarrow> 'j"
  j_obj :: "(string \<times> 'j) list \<Rightarrow> 'j"
  j_contains :: "'j \<Rightarrow> string \<Rightarrow> bool"
  j_at :: "'j \<Rightarrow> string \<Rightarrow> 'j"
  j_is_null :: "'j \<Rightarrow> bool"
  as_int :: "'j \<Rightarrow> int exc"
  as_bool :: "'j \<Rightarrow> bool exc"
  as_string :: "'j \<Rightarrow> string exc"
  j_value_str :: "'j \<Rightarrow> string \<Rightarrow> string \<Rightarrow> string exc"
  j_parse :: "string \<Rightarrow> 'j exc"
  j_dump :: "'j \<Rightarrow> string"

section \<open>Roles\<close>

datatype Role = Admin | Faculty | Student

fun role_to_string :: "Role \<Rightarrow> string" where
  "role_to_string Admin = ''admin''"
| "role_to_string Faculty = ''faculty''"
| "role_to_string Student = ''student''"

definition string_to_role :: "string \<Rightarrow> Role exc" where
  "string_to_role s =
     (if s = ''admin'' then Inr Admin
      else if s = ''faculty'' then Inr Faculty
      else if s = ''student'' then Inr Student
      else Inl (Invalid_Argument (''Invalid role: '' @ s)))"

definition role_names :: "string list" where
  "role_names = [''admin'', ''faculty'', ''student'']"

lemma string_to_role_to_string [simp]: "string_to_role (role_to_string r) = Inr r"
  by (cases r) (simp_all add: string_to_role_def)

lemma string_to_role_Inr_iff: "string_to_role s = Inr r \<longleftrightarrow> s = role_to_string r"
  by (cases r) (auto simp: string_to_role_def)

lemma role_to_string_in_names [simp]: "role_to_string r \<in> set role_names"
  by (cases r) (simp_all add: role_names_def)

lemma role_names_iff: "s \<in> set role_names \<longleftrightarrow> (\<exists>r. s = role_to_string r)"
proof
  assume "s \<in> set role_names"
  then have "s = role_to_string Admin \<or> s = role_to_string Faculty \<or> s = role_to_string Student"
    by (simp add: role_names_def)
  then show "\<exists>r. s = role_to_string r" by blast
qed auto

lemma role_to_string_inj [simp]: "role_to_string r = role_to_string q \<longleftrightarrow> r = q"
  using string_to_role_to_string by (metis sum.inject(2))

section \<open>The structs\<close>

record User =
  u_id :: int
  u_username :: string
  u_password_hash :: string
  u_role :: Role
  u_name :: string
  u_email :: string
  u_active :: bool
  u_created_at :: string

definition User_default :: User where
  "User_default = \<lparr>u_id = 0, u_username = [], u_password_hash = [], u_role = Student,
     u_name = [], u_email = [], u_active = True, u_created_at = []\<rparr>"

record Course =
  c_id :: int
  c_course_code :: string
  c_course_name :: string
  c_credits :: int
  c_faculty_id :: int
  c_faculty_name :: string
  c_capacity :: int
  c_enrolled_count :: int
  c_schedule :: string
  c_created_at :: string

definition Course_default :: Course where
  "Course_default = \<lparr>c_id = 0, c_course_code = [], c_course_name = [], c_credits = 3,
     c_faculty_id = 0, c_faculty_name = [], c_capacity = 0, c_enrolled_count = 0,
     c_schedule = [], c_created_at = []\<rparr>"

record Registration =
  r_id :: int
  r_student_id :: int
  r_course_id :: int
  r_status :: string
  r_registered_at :: string
  r_student_name :: string
  r_course_code :: string
  r_course_name :: string

section \<open>Conversion to JSON\<close>

definition User_to_json :: "'j json_api \<Rightarrow> User \<Rightarrow> 'j" where
  "User_to_json api u = j_obj api
     [(''id'', j_int api (u_id u)),
      (''username'', j_str api (u_username u)),
      (''role'', j_str api (role_to_string (u_role u))),
      (''name'', j_str api (u_name u)),
      (''email'', j_str api (u_email u)),
      (''active'', j_bool api (u_active u)),
      (''created_at'', j_str api (u_created_at u))]"

definition Course_to_json :: "'j json_api \<Rightarrow> Course \<Rightarrow> 'j" where
  "Course_to_json api c = j_obj api
     [(''id'', j_int api (c_id c)),
      (''course_code'', j_str api (c_course_code c)),
      (''course_name'', j_str api (c_course_name c)),
      (''credits'', j_int api (c_credits c)),
      (''faculty_id'', j_int api (c_faculty_id c)),
      (''faculty_name'', j_str api (c_faculty_name c)),
      (''capacity'', j_int api (c_capacity c)),
      (''enrolled_count'', j_int api (c_enrolled_count c)),
      (''available_seats'', j_int api (c_capacity c - c_enrolled_count c)),
      (''schedule'', j_str api (c_schedule c)),
      (''created_at'', j_str api (c_created_at c))]"

definition Registration_to_json :: "'j json_api \<Rightarrow> Registration \<Rightarrow> 'j" where
  "Registration_to_json api r = j_obj api
     [(''id'', j_int api (r_id r)),
      (''student_id'', j_int api (r_student_id r)),
      (''course_id'', j_int api (r_course_id r)),
      (''status'', j_str api (r_status r)),
      (''registered_at'', j_str api (r_registered_at r)),
      (''student_name'', j_str api (r_student_name r)),
      (''course_code'', j_str api (r_course_code r)),
      (''course_name'', j_str api (r_course_name r))]"

section \<open>Conversion from JSON\<close>

text \<open>
  One line \<open>if (j.contains(k)) x.f = j[k].get<T>();\<close> of a \<open>from_json\<close>: \<open>get\<close> is
  the conversion, \<open>upd\<close> the field update. \<open>get<int>()\<close> yields a C++ \<open>int\<close>, hence
  \<open>to_i32\<close>.
\<close>

definition read_field ::
  "'j json_api \<Rightarrow> 'j \<Rightarrow> string \<Rightarrow> ('j \<Rightarrow> 'a exc) \<Rightarrow> ('a \<Rightarrow> 'r \<Rightarrow> 'r) \<Rightarrow> 'r \<Rightarrow> 'r exc" where
  "read_field api j k get upd x =
     (if j_contains api j k then emap (\<lambda>v. upd v x) (get (j_at api j k)) else Inr x)"

definition get_i32 :: "'j json_api \<Rightarrow> 'j \<Rightarrow> int exc" where
  "get_i32 api v = emap to_i32 (as_int api v)"

definition get_role :: "'j json_api \<Rightarrow> 'j \<Rightarrow> Role exc" where
  "get_role api v = ebind (as_string api v) string_to_role"

definition User_from_json :: "'j json_api \<Rightarrow> 'j \<Rightarrow> User exc" where
  "User_from_json api j =
     ebind (read_field api j ''id'' (as_int api) (\<lambda>v u. u\<lparr>u_id := v\<rparr>) User_default) (\<lambda>u.
     ebind (read_field api j ''username'' (as_string api) (\<lambda>v u. u\<lparr>u_username := v\<rparr>) u) (\<lambda>u.
     ebind (read_field api j ''role'' (get_role api) (\<lambda>v u. u\<lparr>u_role := v\<rparr>) u) (\<lambda>u.
     ebind (read_field api j ''name'' (as_string api) (\<lambda>v u. u\<lparr>u_name := v\<rparr>) u) (\<lambda>u.
     ebind (read_field api j ''email'' (as_string api) (\<lambda>v u. u\<lparr>u_email := v\<rparr>) u) (\<lambda>u.
     ebind (read_field api j ''active'' (as_bool api) (\<lambda>v u. u\<lparr>u_active := v\<rparr>) u) (\<lambda>u.
     read_field api j ''password'' (as_string api) (\<lambda>v u. u\<lparr>u_password_hash := v\<rparr>) u))))))"

definition Course_from_json :: "'j json_api \<Rightarrow> 'j \<Rightarrow> Course exc" where
  "Course_from_json api j =
     ebind (read_field api j ''id'' (as_int api) (\<lambda>v c. c\<lparr>c_id := v\<rparr>) Course_default) (\<lambda>c.
     ebind (read_field api j ''course_code'' (as_string api) (\<lambda>v c. c\<lparr>c_course_code := v\<rparr>) c) (\<lambda>c.
     ebind (read_field api j ''course_name'' (as_string api) (\<lambda>v c. c\<lparr>c_course_name := v\<rparr>) c) (\<lambda>c.
     ebind (read_field api j ''credits'' (get_i32 api) (\<lambda>v c. c\<lparr>c_credits := v\<rparr>) c) (\<lambda>c.
     ebind (read_field api j ''faculty_id'' (as_int api) (\<lambda>v c. c\<lparr>c_faculty_id := v\<rparr>) c) (\<lambda>c.
     ebind (read_field api j ''capacity'' (get_i32 api) (\<lambda>v c. c\<lparr>c_capacity := v\<rparr>) c) (\<lambda>c.
     read_field api j ''schedule'' (as_string api) (\<lambda>v c. c\<lparr>c_schedule := v\<rparr>) c))))))"

text \<open>
  The documented laws of the library that the round trips rely on: an object answers for
  the keys it was built with, and a value converts back to what it was built from.
\<close>

definition json_object_laws :: "'j json_api \<Rightarrow> bool" where
  "json_object_laws api \<longleftrightarrow>
     (\<forall>kvs k. j_contains api (j_obj api kvs) k = (k \<in> fst ` set kvs)) \<and>
     (\<forall>kvs k v. map_of kvs k = Some v \<longrightarrow> j_at api (j_obj api kvs) k = v) \<and>
     (\<forall>i. as_int api (j_int api i) = Inr i) \<and>
     (\<forall>b. as_bool api (j_bool api b) = Inr b) \<and>
     (\<forall>s. as_string api (j_str api s) = Inr s)"

lemma read_field_obj:
  assumes "json_object_laws api"
  shows "read_field api (j_obj api kvs) k get upd x =
    (case map_of kvs k of None \<Rightarrow> Inr x | Some v \<Rightarrow> emap (\<lambda>v. upd v x) (get v))"
proof (cases "map_of kvs k")
  case None
  then have "k \<notin> fst ` set kvs" by (simp add: map_of_eq_None_iff)
  with None assms show ?thesis by (simp add: read_field_def json_object_laws_def)
next
  case (Some v)
  then have "k \<in> fst ` set kvs" by (metis map_of_eq_None_iff option.distinct(1))
  with Some assms show ?thesis by (simp add: read_field_def json_object_laws_def)
qed

lemma json_conversions:
  assumes "json_object_laws api"
  shows "as_int api (j_int api i) = Inr i" "as_bool api (j_bool api b) = Inr b"
    "as_string api (j_str api s) = Inr s" "get_i32 api (j_int api i) = Inr (to_i32 i)"
    "get_role api (j_str api (role_to_string r)) = Inr r"
  using assms by (simp_all add: json_object_laws_def get_i32_def get_role_def)

lemma User_json_roundtrip:
  assumes "json_object_laws api"
  shows "User_from_json api (User_to_json api u) =
    Inr (u\<lparr>u_password_hash := [], u_created_at := []\<rparr>)"
  unfolding User_from_json_def User_to_json_def
  by (simp add: read_field_obj [OF assms] json_conversions [OF assms] User_default_def)

lemma Course_json_roundtrip:
  assumes "json_object_laws api"
  shows "Course_from_json api (Course_to_json api c) =
    Inr (c\<lparr>c_credits := to_i32 (c_credits c), c_capacity := to_i32 (c_capacity c),
           c_faculty_name := [], c_enrolled_count := 0, c_created_at := []\<rparr>)"
  unfolding Course_from_json_def Course_to_json_def
  by (simp add: read_field_obj [OF assms] json_conversions [OF assms] Course_default_def)

text \<open>A password hash never reaches the JSON of a user, whatever the library does.\<close>

lemma User_to_json_ignores_hash:
  "User_to_json api (u\<lparr>u_password_hash := h\<rparr>) = User_to_json api u"
  by (simp add: User_to_json_def)

section \<open>A concrete JSON value type\<close>

text \<open>
  An instance of the parameter, used by the closed examples: RFC 8259 values as a datatype,
  an object as its list of pairs. \<open>jv_api f\<close> parses with a given function \<open>f\<close>.
\<close>

datatype jv =
    JNull
  | JBool bool
  | JInt int
  | JReal real
  | JStr string
  | JArr "jv list"
  | JObj "(string \<times> jv) list"

fun jv_contains :: "jv \<Rightarrow> string \<Rightarrow> bool" where
  "jv_contains (JObj kvs) k = (map_of kvs k \<noteq> None)"
| "jv_contains v k = False"

fun jv_at :: "jv \<Rightarrow> string \<Rightarrow> jv" where
  "jv_at (JObj kvs) k = (case map_of kvs k of None \<Rightarrow> JNull | Some v \<Rightarrow> v)"
| "jv_at v k = JNull"

fun jv_int :: "jv \<Rightarrow> int exc" where
  "jv_int (JInt i) = Inr i"
| "jv_int v = Inl (Json_Error ''type must be number'')"

fun jv_bool :: "jv \<Rightarrow> bool exc" where
  "jv_bool (JBool b) = Inr b"
| "jv_bool v = Inl (Json_Error ''type must be boolean'')"

fun jv_string :: "jv \<Rightarrow> string exc" where
  "jv_string (JStr s) = Inr s"
| "jv_string v = Inl (Json_Error ''type must be string'')"

fun jv_value_str :: "jv \<Rightarrow> string \<Rightarrow> string \<Rightarrow> string exc" where
  "jv_value_str (JObj kvs) k d = (case map_of kvs k of None \<Rightarrow> Inr d | Some v \<Rightarrow> jv_string v)"
| "jv_value_str v k d = Inl (Json_Error ''cannot use value()'')"

definition jv_api :: "(string \<Rightarrow> jv exc) \<Rightarrow> (jv \<Rightarrow> string) \<Rightarrow> jv json_api" where
  "jv_api parse dump = \<lparr>j_null = JNull, j_bool = JBool, j_int = JInt, j_real = JReal, j_str = JStr,
     j_arr = JArr, j_obj = JObj, j_contains = jv_contains, j_at = jv_at,
     j_is_null = (\<lambda>v. v = JNull), as_int = jv_int, as_bool = jv_bool, as_string = jv_string,
     j_value_str = jv_value_str, j_parse = parse, j_dump = dump\<rparr>"

lemma jv_api_simps [simp]:
  "j_null (jv_api p d) = JNull" "j_bool (jv_api p d) = JBool" "j_int (jv_api p d) = JInt"
  "j_real (jv_api p d) = JReal" "j_str (jv_api p d) = JStr" "j_arr (jv_api p d) = JArr"
  "j_obj (jv_api p d) = JObj" "j_contains (jv_api p d) = jv_contains"
  "j_at (jv_api p d) = jv_at" "j_is_null (jv_api p d) v = (v = JNull)"
  "as_int (jv_api p d) = jv_int" "as_bool (jv_api p d) = jv_bool"
  "as_string (jv_api p d) = jv_string" "j_value_str (jv_api p d) = jv_value_str"
  "j_parse (jv_api p d) = p" "j_dump (jv_api p d) = d"
  by (simp_all add: jv_api_def)

lemma jv_object_laws: "json_object_laws (jv_api parse dump)"
proof -
  have "map_of kvs k \<noteq> None \<longleftrightarrow> k \<in> fst ` set kvs" for kvs :: "(string \<times> jv) list" and k
    using map_of_eq_None_iff [of kvs k] by simp
  then show ?thesis by (simp add: json_object_laws_def)
qed

end
