(* ===== verification/Database.thy ===== *)
theory Database
  imports Models
begin

text \<open>
  \<^verbatim>\<open>backend/include/database/Database.hpp\<close> and
  \<^verbatim>\<open>backend/src/database/Database.cpp\<close>: the tables of the schema with their
  constraints and cascades, the connection the whole server shares, and its transactions.

  A table is the list of its rows in insertion order. The INSERT, UPDATE and DELETE
  statements of the repositories are functions on \<open>tables\<close>; \<open>None\<close> is a statement that
  a constraint of the schema refuses (\<open>sqlite3_step\<close> returns something else than
  \<open>SQLITE_DONE\<close>). The connection holds, beside the tables, the snapshot of an open
  transaction and the two counters \<open>sqlite3_changes\<close> and \<open>sqlite3_last_insert_rowid\<close>.
  SQLite itself is a parameter where it decides more than the SQL says: \<open>db_datetime\<close>
  renders an instant as \<open>datetime(..)\<close> does, \<open>db_refuse\<close> is an error with which the engine
  may refuse a transaction command (a lock held by another process, a full disk).
\<close>

section \<open>Rows, tables and the connection\<close>

record user_row =
  ur_id :: int
  ur_username :: string
  ur_password_hash :: string
  ur_role :: string
  ur_name :: string
  ur_email :: string
  ur_active :: int
  ur_created_at :: string

record course_row =
  cr_id :: int
  cr_course_code :: string
  cr_course_name :: string
  cr_credits :: int
  cr_faculty_id :: "int option"
  cr_capacity :: int
  cr_schedule :: string
  cr_created_at :: string

record reg_row =
  rr_id :: int
  rr_student_id :: int
  rr_course_id :: int
  rr_status :: string
  rr_registered_at :: string

record session_row =
  sr_rowid :: int
  sr_token :: string
  sr_user_id :: int
  sr_created_at :: string
  sr_expires_at :: "string option"

text \<open>The last three fields are the rows of \<open>sqlite_sequence\<close> (AUTOINCREMENT).\<close>

record tables =
  t_users :: "user_row list"
  t_courses :: "course_row list"
  t_regs :: "reg_row list"
  t_sessions :: "session_row list"
  t_user_seq :: int
  t_course_seq :: int
  t_reg_seq :: int

datatype txn_cmd = Begin_Immediate | Commit | Rollback

record conn =
  db_tabs :: tables
  db_txn :: "tables option"
  db_changes :: int
  db_last_id :: int
  db_clock :: int
  db_datetime :: "int \<Rightarrow> string"
  db_refuse :: "txn_cmd \<Rightarrow> string option"

text \<open>\<open>datetime('now')\<close> and \<open>datetime('now', '+24 hours')\<close>.\<close>

definition db_now :: "conn \<Rightarrow> string" where
  "db_now s = db_datetime s (db_clock s)"

definition db_tomorrow :: "conn \<Rightarrow> string" where
  "db_tomorrow s = db_datetime s (db_clock s + 86400)"

text \<open>\<open>initialize_schema\<close> on a fresh database: \<open>CREATE TABLE IF NOT EXISTS\<close>.\<close>

definition initialize_schema :: tables where
  "initialize_schema = \<lparr>t_users = [], t_courses = [], t_regs = [], t_sessions = [],
     t_user_seq = 0, t_course_seq = 0, t_reg_seq = 0\<rparr>"

section \<open>Statements under the schema\<close>

definition user_ids :: "tables \<Rightarrow> int set" where
  "user_ids t = ur_id ` set (t_users t)"

definition course_ids :: "tables \<Rightarrow> int set" where
  "course_ids t = cr_id ` set (t_courses t)"

text \<open>\<open>SELECT COUNT(*) FROM registrations WHERE course_id = ? AND status = 'active'\<close>.\<close>

definition active_count :: "tables \<Rightarrow> int \<Rightarrow> int" where
  "active_count t cid =
     sql_count (\<lambda>r. rr_course_id r = cid \<and> rr_status r = ''active'') (t_regs t)"

definition faculty_ref_ok :: "tables \<Rightarrow> int option \<Rightarrow> bool" where
  "faculty_ref_ok t f = (case f of None \<Rightarrow> True | Some i \<Rightarrow> i \<in> user_ids t)"

definition insert_user_row :: "user_row \<Rightarrow> tables \<Rightarrow> (tables \<times> int) option" where
  "insert_user_row r t =
     (if i64_max \<le> t_user_seq t \<or> ur_username r \<in> ur_username ` set (t_users t)
         \<or> ur_role r \<notin> set role_names then None
      else let i = t_user_seq t + 1
           in Some (t\<lparr>t_users := t_users t @ [r\<lparr>ur_id := i\<rparr>], t_user_seq := i\<rparr>, i))"

definition insert_course_row :: "course_row \<Rightarrow> tables \<Rightarrow> (tables \<times> int) option" where
  "insert_course_row r t =
     (if i64_max \<le> t_course_seq t \<or> cr_course_code r \<in> cr_course_code ` set (t_courses t)
         \<or> \<not> 0 < cr_capacity r \<or> \<not> faculty_ref_ok t (cr_faculty_id r) then None
      else let i = t_course_seq t + 1
           in Some (t\<lparr>t_courses := t_courses t @ [r\<lparr>cr_id := i\<rparr>], t_course_seq := i\<rparr>, i))"

text \<open>\<open>CHECK(status IN ('active','dropped'))\<close>.\<close>

definition reg_statuses :: "string list" where
  "reg_statuses = [''active'', ''dropped'']"

definition insert_reg_row :: "reg_row \<Rightarrow> tables \<Rightarrow> (tables \<times> int) option" where
  "insert_reg_row r t =
     (if i64_max \<le> t_reg_seq t
         \<or> (rr_student_id r, rr_course_id r)
            \<in> (\<lambda>q. (rr_student_id q, rr_course_id q)) ` set (t_regs t)
         \<or> rr_student_id r \<notin> user_ids t \<or> rr_course_id r \<notin> course_ids t
         \<or> rr_status r \<notin> set reg_statuses then None
      else let i = t_reg_seq t + 1
           in Some (t\<lparr>t_regs := t_regs t @ [r\<lparr>rr_id := i\<rparr>], t_reg_seq := i\<rparr>, i))"

text \<open>
  \<open>INSERT OR REPLACE\<close> on the primary key \<open>token\<close>. The table has no AUTOINCREMENT: a new
  row gets one more than the largest rowid present.
\<close>

definition replace_session_row :: "session_row \<Rightarrow> tables \<Rightarrow> (tables \<times> int) option" where
  "replace_session_row r t =
     (if sr_user_id r \<notin> user_ids t then None
      else let i = 1 + fold max (map sr_rowid (t_sessions t)) 0
           in Some (t\<lparr>t_sessions := sql_delete (\<lambda>q. sr_token q = sr_token r) (t_sessions t)
                      @ [r\<lparr>sr_rowid := i\<rparr>]\<rparr>, i))"

text \<open>
  An UPDATE is refused as a whole when a row it changes would break a constraint; it
  returns the number of rows it matched.
\<close>

definition update_user_rows ::
  "(user_row \<Rightarrow> bool) \<Rightarrow> (user_row \<Rightarrow> user_row) \<Rightarrow> tables \<Rightarrow> (tables \<times> int) option" where
  "update_user_rows P f t =
     Some (t\<lparr>t_users := sql_update P f (t_users t)\<rparr>, sql_count P (t_users t))"

definition update_course_rows ::
  "(course_row \<Rightarrow> bool) \<Rightarrow> (course_row \<Rightarrow> course_row) \<Rightarrow> tables \<Rightarrow> (tables \<times> int) option" where
  "update_course_rows P f t =
     (if list_all (\<lambda>r. P r \<longrightarrow> 0 < cr_capacity (f r) \<and> faculty_ref_ok t (cr_faculty_id (f r)))
           (t_courses t)
      then Some (t\<lparr>t_courses := sql_update P f (t_courses t)\<rparr>, sql_count P (t_courses t))
      else None)"

definition update_reg_rows ::
  "(reg_row \<Rightarrow> bool) \<Rightarrow> (reg_row \<Rightarrow> reg_row) \<Rightarrow> tables \<Rightarrow> (tables \<times> int) option" where
  "update_reg_rows P f t =
     Some (t\<lparr>t_regs := sql_update P f (t_regs t)\<rparr>, sql_count P (t_regs t))"

text \<open>
  DELETE with the referential actions of the schema: a user takes the registrations and
  sessions along (CASCADE) and leaves its courses without a faculty (SET NULL); a course
  takes its registrations along.
\<close>

definition delete_user_row :: "int \<Rightarrow> tables \<Rightarrow> tables \<times> int" where
  "delete_user_row i t =
     (t\<lparr>t_users := sql_delete (\<lambda>r. ur_id r = i) (t_users t),
        t_courses := sql_update (\<lambda>r. cr_faculty_id r = Some i) (\<lambda>r. r\<lparr>cr_faculty_id := None\<rparr>)
                       (t_courses t),
        t_regs := sql_delete (\<lambda>r. rr_student_id r = i) (t_regs t),
        t_sessions := sql_delete (\<lambda>r. sr_user_id r = i) (t_sessions t)\<rparr>,
      sql_count (\<lambda>r. ur_id r = i) (t_users t))"

definition delete_course_row :: "int \<Rightarrow> tables \<Rightarrow> tables \<times> int" where
  "delete_course_row i t =
     (t\<lparr>t_courses := sql_delete (\<lambda>r. cr_id r = i) (t_courses t),
        t_regs := sql_delete (\<lambda>r. rr_course_id r = i) (t_regs t)\<rparr>,
      sql_count (\<lambda>r. cr_id r = i) (t_courses t))"

definition delete_reg_row :: "int \<Rightarrow> tables \<Rightarrow> tables \<times> int" where
  "delete_reg_row i t =
     (t\<lparr>t_regs := sql_delete (\<lambda>r. rr_id r = i) (t_regs t)\<rparr>,
      sql_count (\<lambda>r. rr_id r = i) (t_regs t))"

definition delete_session_rows :: "(session_row \<Rightarrow> bool) \<Rightarrow> tables \<Rightarrow> tables \<times> int" where
  "delete_session_rows P t =
     (t\<lparr>t_sessions := sql_delete P (t_sessions t)\<rparr>, sql_count P (t_sessions t))"

text \<open>
  \<open>stmt.step() == SQLITE_DONE\<close> with the effect of the statement on the connection; a
  refused statement leaves the tables alone.
\<close>

definition step_insert :: "(tables \<Rightarrow> (tables \<times> int) option) \<Rightarrow> conn \<Rightarrow> bool \<times> conn" where
  "step_insert f s = (case f (db_tabs s) of
       None \<Rightarrow> (False, s\<lparr>db_changes := 0\<rparr>)
     | Some (t, i) \<Rightarrow> (True, s\<lparr>db_tabs := t, db_last_id := i, db_changes := 1\<rparr>))"

definition step_write :: "(tables \<Rightarrow> (tables \<times> int) option) \<Rightarrow> conn \<Rightarrow> bool \<times> conn" where
  "step_write f s = (case f (db_tabs s) of
       None \<Rightarrow> (False, s\<lparr>db_changes := 0\<rparr>)
     | Some (t, n) \<Rightarrow> (True, s\<lparr>db_tabs := t, db_changes := n\<rparr>))"

section \<open>Transactions\<close>

fun txn_sql :: "txn_cmd \<Rightarrow> string" where
  "txn_sql Begin_Immediate = ''BEGIN IMMEDIATE''"
| "txn_sql Commit = ''COMMIT''"
| "txn_sql Rollback = ''ROLLBACK''"

text \<open>What the engine does with a transaction command: an error message or a new state.\<close>

fun txn_engine :: "txn_cmd \<Rightarrow> conn \<Rightarrow> string + conn" where
  "txn_engine cmd s = (case db_refuse s cmd of
       Some e \<Rightarrow> Inl e
     | None \<Rightarrow> (case cmd of
         Begin_Immediate \<Rightarrow> (case db_txn s of
             Some _ \<Rightarrow> Inl ''cannot start a transaction within a transaction''
           | None \<Rightarrow> Inr (s\<lparr>db_txn := Some (db_tabs s)\<rparr>))
       | Commit \<Rightarrow> (case db_txn s of
             Some _ \<Rightarrow> Inr (s\<lparr>db_txn := None\<rparr>)
           | None \<Rightarrow> Inl ''cannot commit - no transaction is active'')
       | Rollback \<Rightarrow> (case db_txn s of
             Some t \<Rightarrow> Inr (s\<lparr>db_tabs := t, db_txn := None\<rparr>)
           | None \<Rightarrow> Inl ''cannot rollback - no transaction is active'')))"

declare txn_engine.simps [simp del]

definition execute :: "txn_cmd \<Rightarrow> (conn, unit) op" where
  "execute cmd s = (case txn_engine cmd s of
       Inl err \<Rightarrow> (Inl (Runtime_Error (''SQL execution failed: '' @ err @ '' SQL: '' @ txn_sql cmd)), s)
     | Inr s' \<Rightarrow> (Inr (), s'))"

definition begin_transaction :: "(conn, unit) op" where
  "begin_transaction = execute Begin_Immediate"

definition commit :: "(conn, unit) op" where
  "commit = execute Commit"

text \<open>\<open>rollback\<close> catches what \<open>execute\<close> throws and logs it.\<close>

definition rollback :: "conn \<Rightarrow> conn" where
  "rollback s = snd (execute Rollback s)"

definition transaction :: "(conn, 'a) op \<Rightarrow> (conn, 'a) op" where
  "transaction func s = (case begin_transaction s of
       (Inl e, s1) \<Rightarrow> (Inl e, s1)
     | (Inr _, s1) \<Rightarrow> (case func s1 of
           (Inl e, s2) \<Rightarrow> (Inl e, rollback s2)
         | (Inr result, s2) \<Rightarrow> (case commit s2 of
               (Inl e, s3) \<Rightarrow> (Inl e, rollback s3)
             | (Inr _, s3) \<Rightarrow> (Inr result, s3))))"

definition last_insert_id :: "conn \<Rightarrow> int" where
  "last_insert_id s = db_last_id s"

text \<open>The engine refuses no transaction command.\<close>

definition engine_ok :: "conn \<Rightarrow> bool" where
  "engine_ok s \<longleftrightarrow> db_refuse s = (\<lambda>_. None)"

definition idle :: "conn \<Rightarrow> bool" where
  "idle s \<longleftrightarrow> db_txn s = None"

text \<open>
  The contract of a transaction body: it neither opens, closes nor replaces the
  transaction it runs in, and does not change what the engine does.
\<close>

locale txn_body =
  fixes body :: "(conn, 'a) op"
  assumes keeps_txn: "db_txn (snd (body s)) = db_txn s"
    and keeps_refuse: "db_refuse (snd (body s)) = db_refuse s"
begin

lemma throw_is_atomic:
  assumes "idle s" and "db_refuse s Rollback = None" and "transaction body s = (Inl e, s')"
  shows "db_tabs s' = db_tabs s \<and> idle s'"
proof (cases "begin_transaction s")
  case (Pair r s1)
  show ?thesis
  proof (cases r)
    case (Inl e1)
    with Pair assms show ?thesis
      by (auto simp: transaction_def begin_transaction_def execute_def split: sum.splits)
  next
    case (Inr u)
    with Pair assms(1) have s1: "s1 = s\<lparr>db_txn := Some (db_tabs s)\<rparr>"
      by (auto simp: begin_transaction_def execute_def txn_engine.simps idle_def
          split: sum.splits option.splits)
    obtain r2 s2 where b: "body s1 = (r2, s2)" by fastforce
    have k: "db_txn s2 = Some (db_tabs s)" "db_refuse s2 Rollback = None"
      using keeps_txn [of s1] keeps_refuse [of s1] b s1 assms(2) by simp_all
    have "s' = s2\<lparr>db_tabs := db_tabs s, db_txn := None\<rparr>"
      using assms(3) Pair Inr b k
      by (auto simp: transaction_def rollback_def commit_def execute_def txn_engine.simps
          split: sum.splits option.splits)
    then show ?thesis by (simp add: idle_def)
  qed
qed

lemma commits:
  assumes "idle s" and "engine_ok s"
  shows "transaction body s =
    (case body (s\<lparr>db_txn := Some (db_tabs s)\<rparr>) of
       (Inl e, s2) \<Rightarrow> (Inl e, s2\<lparr>db_tabs := db_tabs s, db_txn := None\<rparr>)
     | (Inr a, s2) \<Rightarrow> (Inr a, s2\<lparr>db_txn := None\<rparr>))"
proof -
  let ?s1 = "s\<lparr>db_txn := Some (db_tabs s)\<rparr>"
  have b: "begin_transaction s = (Inr (), ?s1)"
    using assms by (simp add: begin_transaction_def execute_def txn_engine.simps idle_def engine_ok_def)
  obtain r2 s2 where f: "body ?s1 = (r2, s2)" by fastforce
  have k: "db_txn s2 = Some (db_tabs s)" "db_refuse s2 = (\<lambda>_. None)"
    using keeps_txn [of ?s1] keeps_refuse [of ?s1] f assms(2) by (simp_all add: engine_ok_def)
  show ?thesis
    using b f k
    by (cases r2) (simp_all add: transaction_def rollback_def commit_def execute_def txn_engine.simps)
qed

lemma nested_is_refused:
  assumes "db_txn s = Some t" and "engine_ok s"
  shows "transaction body s =
    (Inl (Runtime_Error (''SQL execution failed: '' @
       ''cannot start a transaction within a transaction'' @ '' SQL: '' @ ''BEGIN IMMEDIATE'')), s)"
  using assms
  by (simp add: transaction_def begin_transaction_def execute_def txn_engine.simps engine_ok_def)

end

section \<open>The schema as an invariant\<close>

definition users_ok :: "tables \<Rightarrow> bool" where
  "users_ok t \<longleftrightarrow> distinct (map ur_id (t_users t)) \<and> distinct (map ur_username (t_users t)) \<and>
     0 \<le> t_user_seq t \<and> t_user_seq t \<le> i64_max \<and>
     list_all (\<lambda>r. 1 \<le> ur_id r \<and> ur_id r \<le> t_user_seq t \<and> ur_role r \<in> set role_names) (t_users t)"

definition courses_ok :: "tables \<Rightarrow> bool" where
  "courses_ok t \<longleftrightarrow> distinct (map cr_id (t_courses t)) \<and> distinct (map cr_course_code (t_courses t)) \<and>
     0 \<le> t_course_seq t \<and> t_course_seq t \<le> i64_max \<and>
     list_all (\<lambda>r. 1 \<le> cr_id r \<and> cr_id r \<le> t_course_seq t \<and> 0 < cr_capacity r \<and>
                   cr_capacity r \<le> i32_max \<and> faculty_ref_ok t (cr_faculty_id r)) (t_courses t)"

definition regs_ok :: "tables \<Rightarrow> bool" where
  "regs_ok t \<longleftrightarrow> distinct (map rr_id (t_regs t)) \<and>
     distinct (map (\<lambda>r. (rr_student_id r, rr_course_id r)) (t_regs t)) \<and>
     0 \<le> t_reg_seq t \<and> t_reg_seq t \<le> i64_max \<and>
     list_all (\<lambda>r. 1 \<le> rr_id r \<and> rr_id r \<le> t_reg_seq t \<and> rr_student_id r \<in> user_ids t \<and>
                   rr_course_id r \<in> course_ids t \<and> rr_status r \<in> set reg_statuses) (t_regs t)"

definition sessions_ok :: "tables \<Rightarrow> bool" where
  "sessions_ok t \<longleftrightarrow> distinct (map sr_token (t_sessions t)) \<and>
     list_all (\<lambda>r. sr_user_id r \<in> user_ids t) (t_sessions t)"

definition wf_tables :: "tables \<Rightarrow> bool" where
  "wf_tables t \<longleftrightarrow> users_ok t \<and> courses_ok t \<and> regs_ok t \<and> sessions_ok t"

text \<open>No course has more active registrations than seats.\<close>

definition seats_ok :: "tables \<Rightarrow> bool" where
  "seats_ok t \<longleftrightarrow> list_all (\<lambda>c. active_count t (cr_id c) \<le> cr_capacity c) (t_courses t)"

definition db_ok :: "tables \<Rightarrow> bool" where
  "db_ok t \<longleftrightarrow> wf_tables t \<and> seats_ok t"

lemmas wf_defs = wf_tables_def users_ok_def courses_ok_def regs_ok_def sessions_ok_def

lemma db_ok_initialize_schema [simp]: "db_ok initialize_schema"
  by (simp add: db_ok_def wf_defs seats_ok_def initialize_schema_def i64_max_def)

end
