(* ===== verification/Schema_Invariants.thy ===== *)
theory Schema_Invariants
  imports Database
begin

text \<open>
  Every statement of the repositories keeps the schema's invariant \<open>wf_tables\<close>, and keeps
  \<open>seats_ok\<close> under the condition each lemma names. The lemmas are collected in
  \<open>wf_rules\<close>; the operations above the repositories rest on them.
\<close>

section \<open>Projections\<close>

lemma user_ids_simps [simp]:
  "user_ids (t\<lparr>t_courses := cs\<rparr>) = user_ids t"
  "user_ids (t\<lparr>t_regs := rs\<rparr>) = user_ids t"
  "user_ids (t\<lparr>t_sessions := ss\<rparr>) = user_ids t"
  "user_ids (t\<lparr>t_course_seq := n\<rparr>) = user_ids t"
  "user_ids (t\<lparr>t_reg_seq := n\<rparr>) = user_ids t"
  "user_ids (t\<lparr>t_user_seq := n\<rparr>) = user_ids t"
  "user_ids (t\<lparr>t_users := us\<rparr>) = ur_id ` set us"
  by (simp_all add: user_ids_def)

lemma course_ids_simps [simp]:
  "course_ids (t\<lparr>t_users := us\<rparr>) = course_ids t"
  "course_ids (t\<lparr>t_regs := rs\<rparr>) = course_ids t"
  "course_ids (t\<lparr>t_sessions := ss\<rparr>) = course_ids t"
  "course_ids (t\<lparr>t_course_seq := n\<rparr>) = course_ids t"
  "course_ids (t\<lparr>t_reg_seq := n\<rparr>) = course_ids t"
  "course_ids (t\<lparr>t_user_seq := n\<rparr>) = course_ids t"
  "course_ids (t\<lparr>t_courses := cs\<rparr>) = cr_id ` set cs"
  by (simp_all add: course_ids_def)

lemma active_count_simps [simp]:
  "active_count (t\<lparr>t_users := us\<rparr>) c = active_count t c"
  "active_count (t\<lparr>t_courses := cs\<rparr>) c = active_count t c"
  "active_count (t\<lparr>t_sessions := ss\<rparr>) c = active_count t c"
  "active_count (t\<lparr>t_user_seq := n\<rparr>) c = active_count t c"
  "active_count (t\<lparr>t_course_seq := n\<rparr>) c = active_count t c"
  "active_count (t\<lparr>t_reg_seq := n\<rparr>) c = active_count t c"
  "active_count (t\<lparr>t_regs := rs\<rparr>) c =
     sql_count (\<lambda>r. rr_course_id r = c \<and> rr_status r = ''active'') rs"
  by (simp_all add: active_count_def)

lemma active_count_nonneg [simp]: "0 \<le> active_count t c"
  by (simp add: active_count_def)

lemma faculty_ref_ok_mono:
  "faculty_ref_ok t f \<Longrightarrow> user_ids t \<subseteq> user_ids t' \<Longrightarrow> faculty_ref_ok t' f"
  by (auto simp: faculty_ref_ok_def split: option.splits)

lemma faculty_ref_ok_None [simp]: "faculty_ref_ok t None"
  by (simp add: faculty_ref_ok_def)

lemma faculty_ref_ok_cong: "user_ids t' = user_ids t \<Longrightarrow> faculty_ref_ok t' f = faculty_ref_ok t f"
  by (simp add: faculty_ref_ok_def split: option.splits)

lemma faculty_ref_ok_simps [simp]:
  "faculty_ref_ok (t\<lparr>t_courses := cs\<rparr>) f = faculty_ref_ok t f"
  "faculty_ref_ok (t\<lparr>t_regs := rs\<rparr>) f = faculty_ref_ok t f"
  "faculty_ref_ok (t\<lparr>t_sessions := ss\<rparr>) f = faculty_ref_ok t f"
  "faculty_ref_ok (t\<lparr>t_user_seq := n\<rparr>) f = faculty_ref_ok t f"
  "faculty_ref_ok (t\<lparr>t_course_seq := n\<rparr>) f = faculty_ref_ok t f"
  "faculty_ref_ok (t\<lparr>t_reg_seq := n\<rparr>) f = faculty_ref_ok t f"
  by (rule faculty_ref_ok_cong, simp)+

lemma status_names [simp]: "''active'' \<in> set reg_statuses" "''dropped'' \<in> set reg_statuses"
  by (simp_all add: reg_statuses_def)

lemma seats_ok_iff: "seats_ok t \<longleftrightarrow> (\<forall>c \<in> set (t_courses t). active_count t (cr_id c) \<le> cr_capacity c)"
  by (simp add: seats_ok_def list_all_iff)

lemma db_okD: "db_ok t \<Longrightarrow> wf_tables t" "db_ok t \<Longrightarrow> seats_ok t"
  by (simp_all add: db_ok_def)

lemma wf_tablesD:
  assumes "wf_tables t"
  shows "users_ok t" "courses_ok t" "regs_ok t" "sessions_ok t"
  using assms by (simp_all add: wf_tables_def)

lemma wf_user:
  assumes "wf_tables t" "r \<in> set (t_users t)"
  shows "1 \<le> ur_id r" "ur_id r \<le> t_user_seq t" "ur_role r \<in> set role_names"
  using assms by (auto simp: wf_tables_def users_ok_def list_all_iff)

lemma wf_course:
  assumes "wf_tables t" "r \<in> set (t_courses t)"
  shows "1 \<le> cr_id r" "cr_id r \<le> t_course_seq t" "0 < cr_capacity r" "cr_capacity r \<le> i32_max"
    "faculty_ref_ok t (cr_faculty_id r)"
  using assms by (auto simp: wf_tables_def courses_ok_def list_all_iff)

lemma wf_reg:
  assumes "wf_tables t" "r \<in> set (t_regs t)"
  shows "1 \<le> rr_id r" "rr_id r \<le> t_reg_seq t" "rr_student_id r \<in> user_ids t"
    "rr_course_id r \<in> course_ids t" "rr_status r \<in> set reg_statuses"
  using assms by (auto simp: wf_tables_def regs_ok_def list_all_iff)

lemma wf_distinct:
  assumes "wf_tables t"
  shows "distinct (map ur_id (t_users t))" "distinct (map ur_username (t_users t))"
    "distinct (map cr_id (t_courses t))" "distinct (map cr_course_code (t_courses t))"
    "distinct (map rr_id (t_regs t))"
    "distinct (map (\<lambda>r. (rr_student_id r, rr_course_id r)) (t_regs t))"
    "distinct (map sr_token (t_sessions t))"
  using assms by (auto simp: wf_defs)

lemma user_id_positive: "wf_tables t \<Longrightarrow> i \<in> user_ids t \<Longrightarrow> 1 \<le> i"
  by (auto simp: user_ids_def dest: wf_user(1))

lemma user_seq_fresh: "wf_tables t \<Longrightarrow> t_user_seq t + 1 \<notin> user_ids t"
  using wf_user(2) by (force simp: user_ids_def)

lemma course_seq_fresh: "wf_tables t \<Longrightarrow> t_course_seq t + 1 \<notin> course_ids t"
  using wf_course(2) by (force simp: course_ids_def)

lemma reg_seq_fresh: "wf_tables t \<Longrightarrow> t_reg_seq t + 1 \<notin> rr_id ` set (t_regs t)"
  using wf_reg(2) by force

lemma active_count_no_course: "wf_tables t \<Longrightarrow> c \<notin> course_ids t \<Longrightarrow> active_count t c = 0"
  by (auto simp: active_count_def sql_count_0_iff dest: wf_reg(4))

section \<open>INSERT\<close>

lemma insert_user_wf [wf_rules]:
  assumes "insert_user_row r t = Some (t', i)" and "wf_tables t"
  shows "wf_tables t'"
proof -
  have t': "t' = t\<lparr>t_users := t_users t @ [r\<lparr>ur_id := i\<rparr>], t_user_seq := i\<rparr>"
    and i: "i = t_user_seq t + 1"
    and new: "ur_username r \<notin> ur_username ` set (t_users t)" "ur_role r \<in> set role_names"
      "i \<le> i64_max"
    using assms(1) by (auto simp: insert_user_row_def Let_def split: if_splits)
  have sub: "user_ids t \<subseteq> user_ids t'" by (auto simp: t' user_ids_def)
  have fresh: "i \<notin> ur_id ` set (t_users t)"
    using user_seq_fresh [OF assms(2)] i by (simp add: user_ids_def)
  have "users_ok t'"
    using assms(2) new fresh i wf_user [OF assms(2)]
    by (fastforce simp: t' wf_defs list_all_iff)
  moreover have "courses_ok t'"
    using assms(2) faculty_ref_ok_mono [OF _ sub] by (auto simp: t' wf_defs list_all_iff)
  moreover have "regs_ok t'" "sessions_ok t'"
    using assms(2) sub by (auto simp: t' wf_defs list_all_iff)
  ultimately show ?thesis by (simp add: wf_tables_def)
qed

lemma insert_user_seats [wf_rules]:
  "insert_user_row r t = Some (t', i) \<Longrightarrow> seats_ok t \<Longrightarrow> seats_ok t'"
  by (auto simp: insert_user_row_def Let_def seats_ok_iff split: if_splits)

lemma insert_course_wf [wf_rules]:
  assumes "insert_course_row r t = Some (t', i)" and "wf_tables t" and "cr_capacity r \<le> i32_max"
  shows "wf_tables t'"
proof -
  have t': "t' = t\<lparr>t_courses := t_courses t @ [r\<lparr>cr_id := i\<rparr>], t_course_seq := i\<rparr>"
    and i: "i = t_course_seq t + 1"
    and new: "cr_course_code r \<notin> cr_course_code ` set (t_courses t)" "0 < cr_capacity r"
      "faculty_ref_ok t (cr_faculty_id r)" "i \<le> i64_max"
    using assms(1) by (auto simp: insert_course_row_def Let_def split: if_splits)
  have ids: "user_ids t' = user_ids t" by (simp add: t')
  have fresh: "i \<notin> cr_id ` set (t_courses t)"
    using course_seq_fresh [OF assms(2)] i by (simp add: course_ids_def)
  have "courses_ok t'"
    using assms(2,3) new fresh i wf_course [OF assms(2)]
    by (fastforce simp: t' wf_defs list_all_iff)
  moreover have "users_ok t'" using assms(2) by (auto simp: t' wf_defs list_all_iff)
  moreover have "regs_ok t'" "sessions_ok t'"
    using assms(2) by (auto simp: t' wf_defs list_all_iff course_ids_def)
  ultimately show ?thesis by (simp add: wf_tables_def)
qed

lemma insert_course_seats [wf_rules]:
  assumes "insert_course_row r t = Some (t', i)" and "wf_tables t" and "seats_ok t"
  shows "seats_ok t'"
proof -
  have t': "t' = t\<lparr>t_courses := t_courses t @ [r\<lparr>cr_id := i\<rparr>], t_course_seq := i\<rparr>"
    and i: "i = t_course_seq t + 1" and cap: "0 < cr_capacity r"
    using assms(1) by (auto simp: insert_course_row_def Let_def split: if_splits)
  have "active_count t i = 0"
    using active_count_no_course [OF assms(2)] course_seq_fresh [OF assms(2)] i by simp
  with assms(3) cap show ?thesis by (auto simp: t' seats_ok_iff)
qed

lemma insert_reg_shape:
  assumes "insert_reg_row r t = Some (t', i)"
  shows "t' = t\<lparr>t_regs := t_regs t @ [r\<lparr>rr_id := i\<rparr>], t_reg_seq := i\<rparr>" "i = t_reg_seq t + 1"
    "(rr_student_id r, rr_course_id r) \<notin> (\<lambda>q. (rr_student_id q, rr_course_id q)) ` set (t_regs t)"
    "rr_student_id r \<in> user_ids t" "rr_course_id r \<in> course_ids t"
    "rr_status r \<in> set reg_statuses" "i \<le> i64_max"
  using assms by (auto simp: insert_reg_row_def Let_def split: if_splits)

lemma insert_reg_wf [wf_rules]:
  assumes "insert_reg_row r t = Some (t', i)" and "wf_tables t"
  shows "wf_tables t'"
proof -
  note sh = insert_reg_shape [OF assms(1)]
  have fresh: "i \<notin> rr_id ` set (t_regs t)"
    using reg_seq_fresh [OF assms(2)] sh(2) by simp
  have "regs_ok t'"
    using assms(2) sh fresh wf_reg [OF assms(2)]
    by (fastforce simp: sh(1) wf_defs list_all_iff)
  moreover have "users_ok t'" using assms(2) by (auto simp: sh(1) wf_defs list_all_iff)
  moreover have "courses_ok t'"
    using assms(2) by (auto simp: sh(1) wf_defs list_all_iff)
  moreover have "sessions_ok t'" using assms(2) by (auto simp: sh(1) wf_defs list_all_iff)
  ultimately show ?thesis by (simp add: wf_tables_def)
qed

lemma insert_reg_count:
  assumes "insert_reg_row r t = Some (t', i)"
  shows "active_count t' c =
    active_count t c + (if rr_course_id r = c \<and> rr_status r = ''active'' then 1 else 0)"
  by (simp add: insert_reg_shape(1) [OF assms] active_count_def)

lemma insert_reg_seats [wf_rules]:
  assumes "insert_reg_row r t = Some (t', i)" and "seats_ok t"
    and "\<And>c. c \<in> set (t_courses t) \<Longrightarrow> cr_id c = rr_course_id r \<Longrightarrow>
      active_count t (cr_id c) < cr_capacity c"
  shows "seats_ok t'"
proof -
  have cs: "t_courses t' = t_courses t" by (simp add: insert_reg_shape(1) [OF assms(1)])
  show ?thesis
    unfolding seats_ok_iff cs insert_reg_count [OF assms(1)]
    using assms(2,3) unfolding seats_ok_iff by fastforce
qed

lemma replace_session_shape:
  assumes "replace_session_row r t = Some (t', i)"
  shows "t' = t\<lparr>t_sessions := sql_delete (\<lambda>q. sr_token q = sr_token r) (t_sessions t)
                @ [r\<lparr>sr_rowid := i\<rparr>]\<rparr>" "sr_user_id r \<in> user_ids t"
  using assms by (auto simp: replace_session_row_def Let_def split: if_splits)

lemma replace_session_wf [wf_rules]:
  assumes "replace_session_row r t = Some (t', i)" and "wf_tables t"
  shows "wf_tables t'"
proof -
  note sh = replace_session_shape [OF assms(1)]
  have "sessions_ok t'"
    using assms(2) sh(2) by (auto simp: sh(1) wf_defs list_all_iff)
  moreover have "users_ok t'" "regs_ok t'" using assms(2) by (auto simp: sh(1) wf_defs list_all_iff)
  moreover have "courses_ok t'" using assms(2) by (auto simp: sh(1) wf_defs list_all_iff)
  ultimately show ?thesis by (simp add: wf_tables_def)
qed

lemma replace_session_seats [wf_rules]:
  "replace_session_row r t = Some (t', i) \<Longrightarrow> seats_ok t \<Longrightarrow> seats_ok t'"
  by (auto simp: seats_ok_iff dest: replace_session_shape(1))

section \<open>UPDATE\<close>

lemma update_user_wf [wf_rules]:
  assumes "update_user_rows P f t = Some (t', n)" and "wf_tables t"
    and "\<And>r. ur_id (f r) = ur_id r" "\<And>r. ur_username (f r) = ur_username r"
      "\<And>r. ur_role (f r) = ur_role r"
  shows "wf_tables t'"
proof -
  have t': "t' = t\<lparr>t_users := sql_update P f (t_users t)\<rparr>"
    using assms(1) by (simp add: update_user_rows_def)
  have ids: "user_ids t' = user_ids t"
    by (simp add: t' user_ids_def image_sql_update assms(3))
  have "users_ok t'"
    using assms(2)
    by (auto simp: t' wf_defs map_sql_update assms(3-5) intro!: list_all_sql_update)
  moreover have "courses_ok t'"
    using assms(2) faculty_ref_ok_cong [OF ids] by (auto simp: t' wf_defs list_all_iff)
  moreover have "regs_ok t'" "sessions_ok t'"
    using assms(2) ids by (auto simp: t' wf_defs list_all_iff)
  ultimately show ?thesis by (simp add: wf_tables_def)
qed

lemma update_user_seats [wf_rules]:
  "update_user_rows P f t = Some (t', n) \<Longrightarrow> seats_ok t \<Longrightarrow> seats_ok t'"
  by (auto simp: update_user_rows_def seats_ok_iff)

lemma update_course_wf [wf_rules]:
  assumes "update_course_rows P f t = Some (t', n)" and "wf_tables t"
    and "\<And>r. cr_id (f r) = cr_id r" "\<And>r. cr_course_code (f r) = cr_course_code r"
      "\<And>r. cr_capacity (f r) \<le> i32_max"
  shows "wf_tables t'"
proof -
  have t': "t' = t\<lparr>t_courses := sql_update P f (t_courses t)\<rparr>"
    and ok: "\<And>r. r \<in> set (t_courses t) \<Longrightarrow> P r \<Longrightarrow>
        0 < cr_capacity (f r) \<and> faculty_ref_ok t (cr_faculty_id (f r))"
    using assms(1) by (auto simp: update_course_rows_def list_all_iff split: if_splits)
  have ids: "user_ids t' = user_ids t" "course_ids t' = course_ids t"
    by (simp_all add: t' course_ids_def image_sql_update assms(3))
  have "list_all (\<lambda>r. 1 \<le> cr_id r \<and> cr_id r \<le> t_course_seq t \<and> 0 < cr_capacity r \<and>
          cr_capacity r \<le> i32_max \<and> faculty_ref_ok t (cr_faculty_id r)) (t_courses t')"
    using wf_course [OF assms(2)] ok
    by (auto simp: t' set_sql_update list_all_iff assms(3-5))
  then have "courses_ok t'"
    using assms(2)
    by (simp add: wf_defs t' map_sql_update assms(3,4))
  moreover have "users_ok t'" using assms(2) by (auto simp: t' wf_defs list_all_iff)
  moreover have "regs_ok t'" "sessions_ok t'"
    using assms(2) ids by (auto simp: t' wf_defs list_all_iff)
  ultimately show ?thesis by (simp add: wf_tables_def)
qed

lemma update_course_seats [wf_rules]:
  assumes "update_course_rows P f t = Some (t', n)" and "seats_ok t"
    and "\<And>r. cr_id (f r) = cr_id r"
    and "\<And>r. r \<in> set (t_courses t) \<Longrightarrow> P r \<Longrightarrow> active_count t (cr_id r) \<le> cr_capacity (f r)"
  shows "seats_ok t'"
  using assms by (auto simp: update_course_rows_def seats_ok_iff set_sql_update split: if_splits)

lemma update_reg_wf [wf_rules]:
  assumes "update_reg_rows P f t = Some (t', n)" and "wf_tables t"
    and "\<And>r. rr_id (f r) = rr_id r" "\<And>r. rr_student_id (f r) = rr_student_id r"
      "\<And>r. rr_course_id (f r) = rr_course_id r" "\<And>r. rr_status (f r) \<in> set reg_statuses"
  shows "wf_tables t'"
proof -
  have t': "t' = t\<lparr>t_regs := sql_update P f (t_regs t)\<rparr>"
    using assms(1) by (simp add: update_reg_rows_def)
  have "list_all (\<lambda>r. 1 \<le> rr_id r \<and> rr_id r \<le> t_reg_seq t \<and> rr_student_id r \<in> user_ids t \<and>
                   rr_course_id r \<in> course_ids t \<and> rr_status r \<in> set reg_statuses) (t_regs t')"
    using wf_reg [OF assms(2)] assms(6)
    by (auto simp: t' set_sql_update list_all_iff assms(3-5))
  then have "regs_ok t'"
    using assms(2) by (simp add: wf_defs t' map_sql_update assms(3-5))
  moreover have "users_ok t'" "sessions_ok t'" using assms(2) by (auto simp: t' wf_defs list_all_iff)
  moreover have "courses_ok t'"
    using assms(2) by (auto simp: t' wf_defs list_all_iff)
  ultimately show ?thesis by (simp add: wf_tables_def)
qed

section \<open>DELETE\<close>

lemma delete_course_wf [wf_rules]:
  assumes "wf_tables t"
  shows "wf_tables (fst (delete_course_row i t))"
proof -
  let ?t = "fst (delete_course_row i t)"
  have t': "?t = t\<lparr>t_courses := sql_delete (\<lambda>r. cr_id r = i) (t_courses t),
        t_regs := sql_delete (\<lambda>r. rr_course_id r = i) (t_regs t)\<rparr>"
    by (simp add: delete_course_row_def)
  have "users_ok ?t" "sessions_ok ?t" using assms by (auto simp: t' wf_defs list_all_iff)
  moreover have "courses_ok ?t"
    using assms by (auto simp: t' wf_defs list_all_iff)
  moreover have "regs_ok ?t"
    using assms by (auto simp: t' wf_defs list_all_iff course_ids_def image_iff)
  ultimately show ?thesis by (simp add: wf_tables_def)
qed

text \<open>A statement that removes rows keeps \<open>seats_ok\<close>.\<close>

lemma seats_ok_antimono:
  assumes "seats_ok t" and "\<And>c. active_count t' c \<le> active_count t c"
    and "\<And>c. c \<in> set (t_courses t') \<Longrightarrow>
      \<exists>c0 \<in> set (t_courses t). cr_id c = cr_id c0 \<and> cr_capacity c = cr_capacity c0"
  shows "seats_ok t'"
  unfolding seats_ok_iff
proof
  fix c assume "c \<in> set (t_courses t')"
  then obtain c0 where "c0 \<in> set (t_courses t)" "cr_id c = cr_id c0" "cr_capacity c = cr_capacity c0"
    using assms(3) by blast
  with assms(1) have "active_count t (cr_id c) \<le> cr_capacity c" by (simp add: seats_ok_iff)
  with assms(2) show "active_count t' (cr_id c) \<le> cr_capacity c" by (rule order_trans)
qed

lemma delete_course_seats [wf_rules]:
  "seats_ok t \<Longrightarrow> seats_ok (fst (delete_course_row i t))"
  by (erule seats_ok_antimono)
    (auto simp: delete_course_row_def active_count_def sql_count_delete_le)

lemma delete_user_wf [wf_rules]:
  assumes "wf_tables t"
  shows "wf_tables (fst (delete_user_row i t))"
proof -
  let ?t = "fst (delete_user_row i t)"
  let ?null = "\<lambda>r :: course_row. r\<lparr>cr_faculty_id := None\<rparr>"
  have t': "?t = t\<lparr>t_users := sql_delete (\<lambda>r. ur_id r = i) (t_users t),
        t_courses := sql_update (\<lambda>r. cr_faculty_id r = Some i) ?null (t_courses t),
        t_regs := sql_delete (\<lambda>r. rr_student_id r = i) (t_regs t),
        t_sessions := sql_delete (\<lambda>r. sr_user_id r = i) (t_sessions t)\<rparr>"
    by (simp add: delete_user_row_def)
  have uids: "user_ids ?t = user_ids t - {i}" by (auto simp: t' user_ids_def)
  have cids: "course_ids ?t = course_ids t"
    by (simp add: t' course_ids_def image_sql_update)
  have ref: "faculty_ref_ok ?t f" if "faculty_ref_ok t f" "f \<noteq> Some i" for f
    using that by (auto simp: faculty_ref_ok_def uids split: option.splits)
  have cs: "t_courses ?t = sql_update (\<lambda>r. cr_faculty_id r = Some i) ?null (t_courses t)"
    by (simp add: t')
  have "users_ok ?t" using assms by (auto simp: t' wf_defs list_all_iff)
  moreover have "courses_ok ?t"
  proof -
    have "list_all (\<lambda>r. 1 \<le> cr_id r \<and> cr_id r \<le> t_course_seq t \<and> 0 < cr_capacity r \<and>
          cr_capacity r \<le> i32_max \<and> faculty_ref_ok ?t (cr_faculty_id r)) (t_courses ?t)"
      using wf_course [OF assms] ref
      by (auto simp: set_sql_update list_all_iff cs)
    moreover have "distinct (map cr_id (t_courses ?t))" "distinct (map cr_course_code (t_courses ?t))"
      "0 \<le> t_course_seq t" "t_course_seq t \<le> i64_max" "t_course_seq ?t = t_course_seq t"
      using assms by (simp_all add: wf_defs t' map_sql_update)
    ultimately show ?thesis by (simp only: courses_ok_def)
  qed
  moreover have "regs_ok ?t"
    using assms uids cids by (auto simp: t' wf_defs list_all_iff)
  moreover have "sessions_ok ?t"
    using assms uids by (auto simp: t' wf_defs list_all_iff)
  ultimately show ?thesis by (simp add: wf_tables_def)
qed

lemma delete_user_seats [wf_rules]:
  "seats_ok t \<Longrightarrow> seats_ok (fst (delete_user_row i t))"
  by (erule seats_ok_antimono)
    (auto simp: delete_user_row_def active_count_def sql_count_delete_le set_sql_update)

lemma delete_reg_wf [wf_rules]:
  assumes "wf_tables t"
  shows "wf_tables (fst (delete_reg_row i t))"
proof -
  let ?t = "fst (delete_reg_row i t)"
  have t': "?t = t\<lparr>t_regs := sql_delete (\<lambda>r. rr_id r = i) (t_regs t)\<rparr>"
    by (simp add: delete_reg_row_def)
  have "users_ok ?t" "sessions_ok ?t" "regs_ok ?t"
    using assms by (auto simp: t' wf_defs list_all_iff)
  moreover have "courses_ok ?t"
    using assms by (auto simp: t' wf_defs list_all_iff)
  ultimately show ?thesis by (simp add: wf_tables_def)
qed

lemma delete_reg_seats [wf_rules]:
  "seats_ok t \<Longrightarrow> seats_ok (fst (delete_reg_row i t))"
  by (erule seats_ok_antimono)
    (auto simp: delete_reg_row_def active_count_def sql_count_delete_le)

lemma delete_sessions_wf [wf_rules]:
  assumes "wf_tables t"
  shows "wf_tables (fst (delete_session_rows P t))"
proof -
  let ?t = "fst (delete_session_rows P t)"
  have t': "?t = t\<lparr>t_sessions := sql_delete P (t_sessions t)\<rparr>"
    by (simp add: delete_session_rows_def)
  have "users_ok ?t" "sessions_ok ?t" "regs_ok ?t"
    using assms by (auto simp: t' wf_defs list_all_iff)
  moreover have "courses_ok ?t"
    using assms by (auto simp: t' wf_defs list_all_iff)
  ultimately show ?thesis by (simp add: wf_tables_def)
qed

lemma delete_sessions_seats [wf_rules]:
  "seats_ok t \<Longrightarrow> seats_ok (fst (delete_session_rows P t))"
  by (simp add: delete_session_rows_def seats_ok_iff)

end
