(* ===== verification/User_Repository.thy ===== *)
theory User_Repository
  imports Schema_Invariants
begin

text \<open>
  \<^verbatim>\<open>backend/include/repositories/UserRepository.hpp\<close>: the users and sessions tables.
  A query is a function of the tables, a statement a function of the connection. Bound
  texts are cut at their first NUL (\<open>c_str\<close>). \<open>row_to_user\<close> may throw on an unknown role
  string, so every query that returns users may.
\<close>

section \<open>Queries\<close>

definition row_to_user :: "user_row \<Rightarrow> User exc" where
  "row_to_user r = emap (\<lambda>role.
     \<lparr>u_id = ur_id r, u_username = ur_username r, u_password_hash = ur_password_hash r,
      u_role = role, u_name = ur_name r, u_email = ur_email r, u_active = (ur_active r \<noteq> 0),
      u_created_at = ur_created_at r\<rparr>) (string_to_role (ur_role r))"

definition first_user :: "user_row option \<Rightarrow> User option exc" where
  "first_user row = (case row of None \<Rightarrow> Inr None | Some r \<Rightarrow> emap Some (row_to_user r))"

definition user_find_by_id :: "int \<Rightarrow> tables \<Rightarrow> User option exc" where
  "user_find_by_id i t = first_user (find (\<lambda>r. ur_id r = i) (t_users t))"

definition user_find_by_username :: "string \<Rightarrow> tables \<Rightarrow> User option exc" where
  "user_find_by_username name t = first_user (find (\<lambda>r. ur_username r = c_str name) (t_users t))"

definition user_find_all :: "tables \<Rightarrow> User list exc" where
  "user_find_all t = traverse row_to_user (sort_key ur_id (t_users t))"

definition user_find_by_role :: "Role \<Rightarrow> tables \<Rightarrow> User list exc" where
  "user_find_by_role role t = traverse row_to_user
     (sort_key ur_name (filter (\<lambda>r. ur_role r = role_to_string role) (t_users t)))"

definition user_count :: "tables \<Rightarrow> int" where
  "user_count t = to_i32 (sql_count (\<lambda>_. True) (t_users t))"

definition user_count_by_role :: "Role \<Rightarrow> tables \<Rightarrow> int" where
  "user_count_by_role role t = to_i32 (sql_count (\<lambda>r. ur_role r = role_to_string role) (t_users t))"

section \<open>Statements\<close>

text \<open>The row that \<open>create\<close> binds; the schema fills in the id and \<open>created_at\<close>.\<close>

definition user_row_of :: "User \<Rightarrow> conn \<Rightarrow> user_row" where
  "user_row_of u s = \<lparr>ur_id = 0, ur_username = c_str (u_username u),
     ur_password_hash = c_str (u_password_hash u), ur_role = role_to_string (u_role u),
     ur_name = c_str (u_name u), ur_email = c_str (u_email u),
     ur_active = (if u_active u then 1 else 0), ur_created_at = db_now s\<rparr>"

definition user_create :: "User \<Rightarrow> (conn, int) op" where
  "user_create u s = (case step_insert (insert_user_row (user_row_of u s)) s of
      (False, s') \<Rightarrow> (Inl (Runtime_Error ''Failed to create user''), s')
    | (True, s') \<Rightarrow> (Inr (last_insert_id s'), s'))"

definition user_update :: "User \<Rightarrow> conn \<Rightarrow> bool \<times> conn" where
  "user_update u = step_write (update_user_rows (\<lambda>r. ur_id r = u_id u)
     (\<lambda>r. r\<lparr>ur_name := c_str (u_name u), ur_email := c_str (u_email u),
            ur_active := (if u_active u then 1 else 0)\<rparr>))"

definition user_update_password :: "int \<Rightarrow> string \<Rightarrow> conn \<Rightarrow> bool \<times> conn" where
  "user_update_password i h = step_write (update_user_rows (\<lambda>r. ur_id r = i)
     (\<lambda>r. r\<lparr>ur_password_hash := c_str h\<rparr>))"

definition user_remove :: "int \<Rightarrow> conn \<Rightarrow> bool \<times> conn" where
  "user_remove i = step_write (\<lambda>t. Some (delete_user_row i t))"

subsection \<open>Sessions\<close>

definition create_session :: "string \<Rightarrow> int \<Rightarrow> conn \<Rightarrow> conn" where
  "create_session token i s =
     snd (step_insert (replace_session_row
       \<lparr>sr_rowid = 0, sr_token = c_str token, sr_user_id = i, sr_created_at = db_now s,
        sr_expires_at = Some (db_tomorrow s)\<rparr>) s)"

definition session_live :: "string \<Rightarrow> session_row \<Rightarrow> bool" where
  "session_live now r = (case sr_expires_at r of None \<Rightarrow> True | Some e \<Rightarrow> now < e)"

definition validate_session :: "string \<Rightarrow> conn \<Rightarrow> int option" where
  "validate_session token s = map_option sr_user_id
     (find (\<lambda>r. sr_token r = c_str token \<and> session_live (db_now s) r) (t_sessions (db_tabs s)))"

definition delete_session :: "string \<Rightarrow> conn \<Rightarrow> conn" where
  "delete_session token s =
     snd (step_write (\<lambda>t. Some (delete_session_rows (\<lambda>r. sr_token r = c_str token) t)) s)"

definition cleanup_expired_sessions :: "conn \<Rightarrow> conn" where
  "cleanup_expired_sessions s = snd (step_write (\<lambda>t. Some (delete_session_rows
     (\<lambda>r. case sr_expires_at r of None \<Rightarrow> False | Some e \<Rightarrow> e < db_now s) t)) s)"

section \<open>What the queries return\<close>

lemma row_to_user_ok:
  "ur_role r = role_to_string role \<Longrightarrow> row_to_user r =
     Inr \<lparr>u_id = ur_id r, u_username = ur_username r, u_password_hash = ur_password_hash r,
      u_role = role, u_name = ur_name r, u_email = ur_email r, u_active = (ur_active r \<noteq> 0),
      u_created_at = ur_created_at r\<rparr>"
  by (simp add: row_to_user_def)

lemma row_to_user_total:
  assumes "wf_tables t" "r \<in> set (t_users t)"
  shows "\<exists>u. row_to_user r = Inr u \<and> u_id u = ur_id r \<and> u_username u = ur_username r \<and>
    ur_role r = role_to_string (u_role u)"
proof -
  obtain role where "ur_role r = role_to_string role"
    using wf_user(3) [OF assms] role_names_iff by auto
  then show ?thesis by (simp add: row_to_user_ok)
qed

lemma first_user_total:
  assumes "wf_tables t"
  shows "\<exists>uo. first_user (find P (t_users t)) = Inr uo"
proof (cases "find P (t_users t)")
  case None
  then show ?thesis by (simp add: first_user_def)
next
  case (Some r)
  then have "r \<in> set (t_users t)" by (auto simp: find_Some_iff)
  then show ?thesis using row_to_user_total [OF assms] Some by (force simp: first_user_def)
qed

lemma user_find_by_id_total: "wf_tables t \<Longrightarrow> \<exists>uo. user_find_by_id i t = Inr uo"
  unfolding user_find_by_id_def by (rule first_user_total)

lemma user_find_by_username_total: "wf_tables t \<Longrightarrow> \<exists>uo. user_find_by_username n t = Inr uo"
  unfolding user_find_by_username_def by (rule first_user_total)

lemma user_find_by_id_Some:
  assumes "user_find_by_id i t = Inr (Some u)"
  shows "\<exists>r \<in> set (t_users t). ur_id r = i \<and> row_to_user r = Inr u \<and> u_id u = i"
proof -
  obtain r where f: "find (\<lambda>r. ur_id r = i) (t_users t) = Some r" and "row_to_user r = Inr u"
    using assms by (auto simp: user_find_by_id_def first_user_def emap_Inr_iff split: option.splits)
  moreover from f have "r \<in> set (t_users t)" "ur_id r = i" by (auto simp: find_Some_iff)
  ultimately show ?thesis by (auto simp: row_to_user_def emap_Inr_iff)
qed

lemma user_find_by_username_Some:
  assumes "user_find_by_username n t = Inr (Some u)"
  shows "\<exists>r \<in> set (t_users t). ur_username r = c_str n \<and> row_to_user r = Inr u"
proof -
  obtain r where f: "find (\<lambda>r. ur_username r = c_str n) (t_users t) = Some r"
    and "row_to_user r = Inr u"
    using assms
    by (auto simp: user_find_by_username_def first_user_def emap_Inr_iff split: option.splits)
  moreover from f have "r \<in> set (t_users t)" "ur_username r = c_str n" by (auto simp: find_Some_iff)
  ultimately show ?thesis by blast
qed

lemma user_find_by_id_None_iff:
  assumes "wf_tables t"
  shows "user_find_by_id i t = Inr None \<longleftrightarrow> i \<notin> user_ids t"
proof (cases "find (\<lambda>r. ur_id r = i) (t_users t)")
  case None
  then have "i \<notin> user_ids t" by (simp add: find_None_iff_key user_ids_def)
  with None show ?thesis by (simp add: user_find_by_id_def first_user_def)
next
  case (Some r)
  then have r: "r \<in> set (t_users t)" "ur_id r = i" by (auto simp: find_Some_iff)
  then have "i \<in> user_ids t" by (auto simp: user_ids_def)
  moreover obtain u where "row_to_user r = Inr u" using row_to_user_total [OF assms r(1)] by blast
  ultimately show ?thesis using Some by (simp add: user_find_by_id_def first_user_def)
qed

lemma user_find_all_total:
  assumes "wf_tables t"
  shows "\<exists>us. user_find_all t = Inr us \<and> length us = length (t_users t)"
proof -
  have "\<exists>us. traverse row_to_user rs = Inr us \<and> length us = length rs"
    if "set rs \<subseteq> set (t_users t)" for rs
    using that
  proof (induction rs)
    case (Cons r rs)
    then obtain us where "traverse row_to_user rs = Inr us" "length us = length rs" by auto
    moreover obtain u where "row_to_user r = Inr u"
      using row_to_user_total [OF assms, of r] Cons.prems by auto
    ultimately show ?case by simp
  qed simp
  from this [of "sort_key ur_id (t_users t)"] show ?thesis by (simp add: user_find_all_def)
qed

section \<open>What the statements change\<close>

text \<open>
  The contract of a statement on the connection: it touches neither the transaction nor
  the engine's behaviour.
\<close>

definition stmt_frame :: "conn \<Rightarrow> conn \<Rightarrow> bool" where
  "stmt_frame s s' \<longleftrightarrow> db_txn s' = db_txn s \<and> db_refuse s' = db_refuse s \<and>
     db_clock s' = db_clock s \<and> db_datetime s' = db_datetime s"

lemma stmt_frame_refl [simp]: "stmt_frame s s"
  by (simp add: stmt_frame_def)

lemma stmt_frame_trans: "stmt_frame s s' \<Longrightarrow> stmt_frame s' s'' \<Longrightarrow> stmt_frame s s''"
  by (simp add: stmt_frame_def)

lemma step_insert_frame [simp]: "stmt_frame s (snd (step_insert f s))"
  by (simp add: step_insert_def stmt_frame_def split: option.splits)

lemma step_write_frame [simp]: "stmt_frame s (snd (step_write f s))"
  by (simp add: step_write_def stmt_frame_def split: option.splits)

lemma step_insert_db_ok:
  assumes "db_ok (db_tabs s)"
    and "\<And>t i. f (db_tabs s) = Some (t, i) \<Longrightarrow> db_ok t"
  shows "db_ok (db_tabs (snd (step_insert f s)))"
  using assms by (auto simp: step_insert_def split: option.splits)

lemma step_write_db_ok:
  assumes "db_ok (db_tabs s)"
    and "\<And>t n. f (db_tabs s) = Some (t, n) \<Longrightarrow> db_ok t"
  shows "db_ok (db_tabs (snd (step_write f s)))"
  using assms by (auto simp: step_write_def split: option.splits)

lemma snd_user_create: "snd (user_create u s) = snd (step_insert (insert_user_row (user_row_of u s)) s)"
  by (simp add: user_create_def split: prod.split bool.split)

lemma user_create_db_ok [wf_rules]:
  assumes "db_ok (db_tabs s)"
  shows "db_ok (db_tabs (snd (user_create u s)))"
  unfolding snd_user_create using assms
  by (rule step_insert_db_ok)
    (use assms in \<open>auto simp: db_ok_def intro: insert_user_wf insert_user_seats\<close>)

lemma user_update_db_ok [wf_rules]:
  assumes "db_ok (db_tabs s)"
  shows "db_ok (db_tabs (snd (user_update u s)))"
  unfolding user_update_def using assms
  by (rule step_write_db_ok) (use assms in \<open>auto simp: db_ok_def elim!: update_user_wf update_user_seats\<close>)

lemma user_update_password_db_ok [wf_rules]:
  assumes "db_ok (db_tabs s)"
  shows "db_ok (db_tabs (snd (user_update_password i h s)))"
  unfolding user_update_password_def using assms
  by (rule step_write_db_ok) (use assms in \<open>auto simp: db_ok_def elim!: update_user_wf update_user_seats\<close>)

lemma user_remove_db_ok [wf_rules]:
  assumes "db_ok (db_tabs s)"
  shows "db_ok (db_tabs (snd (user_remove i s)))"
  unfolding user_remove_def using assms
proof (rule step_write_db_ok)
  fix t n assume "Some (delete_user_row i (db_tabs s)) = Some (t, n)"
  then have "t = fst (delete_user_row i (db_tabs s))" by simp
  with assms show "db_ok t" by (simp add: db_ok_def delete_user_wf delete_user_seats)
qed

lemma create_session_db_ok [wf_rules]:
  assumes "db_ok (db_tabs s)"
  shows "db_ok (db_tabs (create_session token i s))"
  unfolding create_session_def using assms
  by (rule step_insert_db_ok)
    (use assms in \<open>auto simp: db_ok_def intro: replace_session_wf replace_session_seats\<close>)

lemma delete_session_db_ok [wf_rules]:
  assumes "db_ok (db_tabs s)"
  shows "db_ok (db_tabs (delete_session token s))"
  unfolding delete_session_def using assms
proof (rule step_write_db_ok)
  fix t n
  let ?P = "\<lambda>r. sr_token r = c_str token"
  assume "Some (delete_session_rows ?P (db_tabs s)) = Some (t, n)"
  then have "t = fst (delete_session_rows ?P (db_tabs s))" by simp
  with assms show "db_ok t" by (simp add: db_ok_def delete_sessions_wf delete_sessions_seats)
qed

lemma cleanup_expired_sessions_db_ok [wf_rules]:
  assumes "db_ok (db_tabs s)"
  shows "db_ok (db_tabs (cleanup_expired_sessions s))"
  unfolding cleanup_expired_sessions_def using assms
proof (rule step_write_db_ok)
  fix t n
  let ?P = "\<lambda>r. case sr_expires_at r of None \<Rightarrow> False | Some e \<Rightarrow> e < db_now s"
  assume "Some (delete_session_rows ?P (db_tabs s)) = Some (t, n)"
  then have "t = fst (delete_session_rows ?P (db_tabs s))" by simp
  with assms show "db_ok t" by (simp add: db_ok_def delete_sessions_wf delete_sessions_seats)
qed

end
