(* ===== verification/Course_Repository.thy ===== *)
theory Course_Repository
  imports User_Repository
begin

text \<open>
  \<^verbatim>\<open>backend/include/repositories/CourseRepository.hpp\<close>: the courses table. A course is
  read with its faculty's name (LEFT JOIN) and its number of active registrations. The text
  search is SQL's LIKE: \<open>like\<close> is its matcher on bytes, with the wildcards percent and
  underscore and ASCII case folding.
\<close>

section \<open>LIKE\<close>

definition lower_ascii :: "char \<Rightarrow> char" where
  "lower_ascii c = (if 65 \<le> (of_char c :: nat) \<and> (of_char c :: nat) \<le> 90
                    then char_of ((of_char c :: nat) + 32) else c)"

text \<open>The rest of the text after the character that starts with byte \<open>c\<close> (UTF-8).\<close>

definition skip_utf8 :: "char \<Rightarrow> string \<Rightarrow> string" where
  "skip_utf8 c s =
     (if 192 \<le> (of_char c :: nat)
      then dropWhile (\<lambda>d. 128 \<le> (of_char d :: nat) \<and> (of_char d :: nat) < 192) s else s)"

lemma length_skip_utf8 [simp]: "length (skip_utf8 c s) \<le> length s"
  by (simp add: skip_utf8_def length_dropWhile_le)

lemma length_skip_utf8_less [simp]: "length (skip_utf8 c s) < Suc (length s)"
  using length_skip_utf8 [of c s] by (rule le_imp_less_Suc)

function like :: "string \<Rightarrow> string \<Rightarrow> bool" where
  "like [] s = (s = [])"
| "like (p # ps) s =
     (if p = CHR ''%'' then like ps s \<or> (case s of [] \<Rightarrow> False | c # s' \<Rightarrow> like (p # ps) s')
      else case s of [] \<Rightarrow> False
           | c # s' \<Rightarrow> if p = CHR ''_'' then like ps (skip_utf8 c s')
                      else lower_ascii p = lower_ascii c \<and> like ps s')"
  by pat_completeness auto
termination
  by (relation "measure (\<lambda>(p, s). length p + length s)")
    (auto simp: less_Suc_eq_le intro: le_SucI le_trans [OF length_skip_utf8])

declare like.simps(2) [simp del]

definition plain_text :: "string \<Rightarrow> bool" where
  "plain_text q \<longleftrightarrow> CHR ''%'' \<notin> set q \<and> CHR ''_'' \<notin> set q"

lemma like_percent: "like [CHR ''%''] s"
  by (induction s) (simp_all add: like.simps(2))

lemma like_prefix:
  "plain_text q \<Longrightarrow> like (q @ [CHR ''%'']) s \<longleftrightarrow>
     map lower_ascii q = take (length q) (map lower_ascii s)"
proof (induction q arbitrary: s)
  case Nil
  then show ?case by (simp add: like_percent)
next
  case (Cons p q)
  then have p: "p \<noteq> CHR ''%''" "p \<noteq> CHR ''_''" and q: "plain_text q"
    by (auto simp: plain_text_def)
  show ?case
  proof (cases s)
    case Nil
    with p show ?thesis by (simp add: like.simps(2))
  next
    case (Cons c s')
    with p Cons.IH [OF q] show ?thesis by (simp add: like.simps(2))
  qed
qed

lemma like_contains:
  assumes "plain_text q"
  shows "like (CHR ''%'' # q @ [CHR ''%'']) s \<longleftrightarrow> has_sub (map lower_ascii q) (map lower_ascii s)"
proof (induction s)
  case Nil
  have "like (CHR ''%'' # q @ [CHR ''%'']) [] = like (q @ [CHR ''%'']) []"
    by (simp add: like.simps(2) [of "CHR ''%''" "q @ [CHR ''%'']" "[]"])
  with assms show ?case by (auto simp: like_prefix)
next
  case (Cons c s)
  have "like (CHR ''%'' # q @ [CHR ''%'']) (c # s) \<longleftrightarrow>
      like (q @ [CHR ''%'']) (c # s) \<or> like (CHR ''%'' # q @ [CHR ''%'']) s"
    by (simp add: like.simps(2) [of "CHR ''%''" "q @ [CHR ''%'']" "c # s"])
  with Cons.IH assms show ?case by (auto simp: like_prefix)
qed

section \<open>Queries\<close>

text \<open>\<open>LEFT JOIN users u ON c.faculty_id = u.id\<close>: \<open>u.name\<close>, or NULL.\<close>

definition faculty_name_of :: "tables \<Rightarrow> course_row \<Rightarrow> string option" where
  "faculty_name_of t r = (case cr_faculty_id r of None \<Rightarrow> None
     | Some f \<Rightarrow> map_option ur_name (find (\<lambda>u. ur_id u = f) (t_users t)))"

definition row_to_course :: "tables \<Rightarrow> course_row \<Rightarrow> Course" where
  "row_to_course t r =
     \<lparr>c_id = cr_id r, c_course_code = cr_course_code r, c_course_name = cr_course_name r,
      c_credits = to_i32 (cr_credits r),
      c_faculty_id = (case cr_faculty_id r of None \<Rightarrow> 0 | Some f \<Rightarrow> f),
      c_faculty_name = (case faculty_name_of t r of None \<Rightarrow> [] | Some n \<Rightarrow> n),
      c_capacity = to_i32 (cr_capacity r), c_enrolled_count = to_i32 (active_count t (cr_id r)),
      c_schedule = cr_schedule r, c_created_at = cr_created_at r\<rparr>"

definition course_find_by_id :: "int \<Rightarrow> tables \<Rightarrow> Course option" where
  "course_find_by_id i t = map_option (row_to_course t) (find (\<lambda>r. cr_id r = i) (t_courses t))"

definition course_find_by_code :: "string \<Rightarrow> tables \<Rightarrow> Course option" where
  "course_find_by_code code t =
     map_option (row_to_course t) (find (\<lambda>r. cr_course_code r = c_str code) (t_courses t))"

definition course_find_all :: "tables \<Rightarrow> Course list" where
  "course_find_all t = map (row_to_course t) (sort_key cr_course_code (t_courses t))"

definition course_find_by_faculty :: "int \<Rightarrow> tables \<Rightarrow> Course list" where
  "course_find_by_faculty f t = map (row_to_course t)
     (sort_key cr_course_code (filter (\<lambda>r. cr_faculty_id r = Some f) (t_courses t)))"

definition course_search :: "string \<Rightarrow> tables \<Rightarrow> Course list" where
  "course_search query t =
     (let pattern = c_str (''%'' @ query @ ''%'')
      in map (row_to_course t) (sort_key cr_course_code (filter (\<lambda>r.
           like pattern (cr_course_code r) \<or> like pattern (cr_course_name r) \<or>
           (case faculty_name_of t r of None \<Rightarrow> False | Some n \<Rightarrow> like pattern n))
         (t_courses t))))"

definition course_count :: "tables \<Rightarrow> int" where
  "course_count t = to_i32 (sql_count (\<lambda>_. True) (t_courses t))"

definition get_enrolled_count :: "int \<Rightarrow> tables \<Rightarrow> int" where
  "get_enrolled_count cid t = to_i32 (active_count t cid)"

section \<open>Statements\<close>

text \<open>
  \<open>bind(int, int)\<close> hands SQLite a C \<open>int\<close>: \<open>to_i32\<close> is the identity on what the field
  can hold.
\<close>

definition course_row_of :: "Course \<Rightarrow> conn \<Rightarrow> course_row" where
  "course_row_of c s = \<lparr>cr_id = 0, cr_course_code = c_str (c_course_code c),
     cr_course_name = c_str (c_course_name c), cr_credits = to_i32 (c_credits c),
     cr_faculty_id = Some (c_faculty_id c), cr_capacity = to_i32 (c_capacity c),
     cr_schedule = c_str (c_schedule c), cr_created_at = db_now s\<rparr>"

definition course_create :: "Course \<Rightarrow> (conn, int) op" where
  "course_create c s = (case step_insert (insert_course_row (course_row_of c s)) s of
      (False, s') \<Rightarrow> (Inl (Runtime_Error ''Failed to create course''), s')
    | (True, s') \<Rightarrow> (Inr (last_insert_id s'), s'))"

definition set_course_row :: "Course \<Rightarrow> course_row \<Rightarrow> course_row" where
  "set_course_row c r = r\<lparr>cr_course_name := c_str (c_course_name c), cr_credits := to_i32 (c_credits c),
     cr_faculty_id := Some (c_faculty_id c), cr_capacity := to_i32 (c_capacity c),
     cr_schedule := c_str (c_schedule c)\<rparr>"

definition course_update :: "Course \<Rightarrow> conn \<Rightarrow> bool \<times> conn" where
  "course_update c = step_write (update_course_rows (\<lambda>r. cr_id r = c_id c) (set_course_row c))"

definition course_remove :: "int \<Rightarrow> conn \<Rightarrow> bool \<times> conn" where
  "course_remove i = step_write (\<lambda>t. Some (delete_course_row i t))"

section \<open>What the queries return\<close>

lemma row_to_course_simps [simp]:
  "c_id (row_to_course t r) = cr_id r"
  "c_course_code (row_to_course t r) = cr_course_code r"
  "c_course_name (row_to_course t r) = cr_course_name r"
  "c_capacity (row_to_course t r) = to_i32 (cr_capacity r)"
  "c_enrolled_count (row_to_course t r) = to_i32 (active_count t (cr_id r))"
  "c_credits (row_to_course t r) = to_i32 (cr_credits r)"
  "c_faculty_id (row_to_course t r) = (case cr_faculty_id r of None \<Rightarrow> 0 | Some f \<Rightarrow> f)"
  by (simp_all add: row_to_course_def)

lemma course_find_by_id_Some:
  "course_find_by_id i t = Some c \<Longrightarrow> \<exists>r \<in> set (t_courses t). cr_id r = i \<and> c = row_to_course t r"
  by (auto simp: course_find_by_id_def find_Some_iff)

lemma course_find_by_id_None_iff: "course_find_by_id i t = None \<longleftrightarrow> i \<notin> course_ids t"
  by (auto simp: course_find_by_id_def course_ids_def find_None_iff)

lemma course_find_by_id_row:
  "wf_tables t \<Longrightarrow> r \<in> set (t_courses t) \<Longrightarrow> course_find_by_id (cr_id r) t = Some (row_to_course t r)"
  by (simp add: course_find_by_id_def find_key_Some [OF wf_distinct(3)])

lemma course_find_by_code_None_iff:
  "course_find_by_code code t = None \<longleftrightarrow> c_str code \<notin> cr_course_code ` set (t_courses t)"
  by (simp add: course_find_by_code_def find_None_iff_key)

lemma course_capacity_read:
  "wf_tables t \<Longrightarrow> r \<in> set (t_courses t) \<Longrightarrow> to_i32 (cr_capacity r) = cr_capacity r"
  using wf_course(3,4) [of t r] by (intro to_i32_id) linarith+

text \<open>With no more registrations than seats, the count read back is the count.\<close>

lemma enrolled_count_read:
  assumes "db_ok t" "cid \<in> course_ids t"
  shows "get_enrolled_count cid t = active_count t cid"
proof -
  obtain r where r: "r \<in> set (t_courses t)" "cr_id r = cid"
    using assms(2) by (auto simp: course_ids_def)
  have "active_count t cid \<le> i32_max"
    using assms r wf_course(4) [of t r] by (fastforce simp: db_ok_def seats_ok_iff)
  then show ?thesis
    unfolding get_enrolled_count_def
    by (intro to_i32_id) (use active_count_nonneg [of t cid] in linarith)+
qed

lemma set_course_find_all: "set (course_find_all t) = row_to_course t ` set (t_courses t)"
  by (simp add: course_find_all_def)

lemma sorted_course_find_all: "sorted (map c_course_code (course_find_all t))"
  by (simp add: course_find_all_def comp_def)

section \<open>What the statements change\<close>

lemma snd_course_create: "snd (course_create c s) = snd (step_insert (insert_course_row (course_row_of c s)) s)"
  by (simp add: course_create_def split: prod.split bool.split)

lemma course_create_db_ok [wf_rules]:
  assumes "db_ok (db_tabs s)"
  shows "db_ok (db_tabs (snd (course_create c s)))"
  unfolding snd_course_create using assms
  by (rule step_insert_db_ok)
    (use assms in \<open>auto simp: db_ok_def course_row_of_def to_i32_range
        intro: insert_course_wf insert_course_seats\<close>)

lemma set_course_row_simps [simp]:
  "cr_id (set_course_row c r) = cr_id r"
  "cr_course_code (set_course_row c r) = cr_course_code r"
  "cr_capacity (set_course_row c r) = to_i32 (c_capacity c)"
  "cr_faculty_id (set_course_row c r) = Some (c_faculty_id c)"
  by (simp_all add: set_course_row_def)

lemma course_update_db_ok [wf_rules]:
  assumes "db_ok (db_tabs s)"
    and "active_count (db_tabs s) (c_id c) \<le> to_i32 (c_capacity c)"
  shows "db_ok (db_tabs (snd (course_update c s)))"
  unfolding course_update_def using assms(1)
proof (rule step_write_db_ok)
  fix t n
  assume u: "update_course_rows (\<lambda>r. cr_id r = c_id c) (set_course_row c) (db_tabs s) = Some (t, n)"
  have "wf_tables t"
    using u by (rule update_course_wf) (use assms(1) in \<open>simp_all add: db_ok_def to_i32_range\<close>)
  moreover have "seats_ok t"
    using u by (rule update_course_seats) (use assms in \<open>simp_all add: db_ok_def\<close>)
  ultimately show "db_ok t" by (simp add: db_ok_def)
qed

lemma course_remove_db_ok [wf_rules]:
  assumes "db_ok (db_tabs s)"
  shows "db_ok (db_tabs (snd (course_remove i s)))"
  unfolding course_remove_def using assms
proof (rule step_write_db_ok)
  fix t n assume "Some (delete_course_row i (db_tabs s)) = Some (t, n)"
  then have "t = fst (delete_course_row i (db_tabs s))" by simp
  with assms show "db_ok t" by (simp add: db_ok_def delete_course_wf delete_course_seats)
qed

text \<open>An update that names no existing user as faculty is refused and changes no table.\<close>

lemma course_update_bad_faculty:
  assumes "c_id c \<in> course_ids (db_tabs s)" and "c_faculty_id c \<notin> user_ids (db_tabs s)"
  shows "course_update c s = (False, s\<lparr>db_changes := 0\<rparr>)"
  using assms
  by (auto simp: course_update_def step_write_def update_course_rows_def list_all_iff
      faculty_ref_ok_def course_ids_def)

lemma course_update_effect:
  assumes "0 < c_capacity c" "c_capacity c \<le> i32_max" "c_faculty_id c \<in> user_ids (db_tabs s)"
  shows "course_update c s = (True, s\<lparr>
     db_tabs := (db_tabs s)\<lparr>t_courses :=
        sql_update (\<lambda>r. cr_id r = c_id c) (set_course_row c) (t_courses (db_tabs s))\<rparr>,
     db_changes := sql_count (\<lambda>r. cr_id r = c_id c) (t_courses (db_tabs s))\<rparr>)"
proof -
  have "to_i32 (c_capacity c) = c_capacity c" using assms(1,2) by (intro to_i32_id) linarith+
  with assms show ?thesis
    by (simp add: course_update_def step_write_def update_course_rows_def list_all_iff
        faculty_ref_ok_def)
qed

end
