(* ===== verification/Registration_Repository.thy ===== *)
theory Registration_Repository
  imports Course_Repository
begin

text \<open>
  \<^verbatim>\<open>backend/include/repositories/RegistrationRepository.hpp\<close>: the registrations
  table. A student has at most one row per course; dropping a course keeps the row with
  status 'dropped', and registering again revives it.

  \<open>enrolled t c\<close> is the abstraction the later components use: the set of students with an
  active registration for course \<open>c\<close>.
\<close>

section \<open>Queries\<close>

text \<open>
  The two inner joins: a registration whose student or course row is missing gives no
  result row.
\<close>

definition row_to_registration :: "tables \<Rightarrow> reg_row \<Rightarrow> Registration option" where
  "row_to_registration t r =
     (case find (\<lambda>u. ur_id u = rr_student_id r) (t_users t) of
        None \<Rightarrow> None
      | Some u \<Rightarrow> (case find (\<lambda>c. cr_id c = rr_course_id r) (t_courses t) of
            None \<Rightarrow> None
          | Some c \<Rightarrow> Some \<lparr>r_id = rr_id r, r_student_id = rr_student_id r,
              r_course_id = rr_course_id r, r_status = rr_status r,
              r_registered_at = rr_registered_at r, r_student_name = ur_name u,
              r_course_code = cr_course_code c, r_course_name = cr_course_name c\<rparr>))"

text \<open>\<open>ORDER BY .. DESC\<close>; SQL leaves the order of equal keys open, here they keep the row order.\<close>

definition sort_desc :: "('r \<Rightarrow> 'k::linorder) \<Rightarrow> 'r list \<Rightarrow> 'r list" where
  "sort_desc k rs = rev (sort_key k (rev rs))"

definition reg_select :: "(reg_row \<Rightarrow> bool) \<Rightarrow> tables \<Rightarrow> Registration list" where
  "reg_select P t = List.map_filter (row_to_registration t) (filter P (t_regs t))"

definition reg_find_by_id :: "int \<Rightarrow> tables \<Rightarrow> Registration option" where
  "reg_find_by_id i t = (case reg_select (\<lambda>r. rr_id r = i) t of [] \<Rightarrow> None | r # _ \<Rightarrow> Some r)"

definition reg_find_by_student :: "int \<Rightarrow> string \<Rightarrow> tables \<Rightarrow> Registration list" where
  "reg_find_by_student sid status t = sort_desc r_registered_at
     (reg_select (\<lambda>r. rr_student_id r = sid \<and> rr_status r = c_str status) t)"

definition reg_find_by_course :: "int \<Rightarrow> string \<Rightarrow> tables \<Rightarrow> Registration list" where
  "reg_find_by_course cid status t = sort_key r_student_name
     (reg_select (\<lambda>r. rr_course_id r = cid \<and> rr_status r = c_str status) t)"

definition reg_find_all :: "string \<Rightarrow> tables \<Rightarrow> Registration list" where
  "reg_find_all status t = sort_desc r_registered_at
     (reg_select (\<lambda>r. rr_status r = c_str status) t)"

definition reg_exists :: "int \<Rightarrow> int \<Rightarrow> tables \<Rightarrow> bool" where
  "reg_exists sid cid t \<longleftrightarrow> 0 < to_i32 (sql_count
     (\<lambda>r. rr_student_id r = sid \<and> rr_course_id r = cid \<and> rr_status r = ''active'') (t_regs t))"

definition count_active :: "tables \<Rightarrow> int" where
  "count_active t = to_i32 (sql_count (\<lambda>r. rr_status r = ''active'') (t_regs t))"

definition count_by_student :: "int \<Rightarrow> tables \<Rightarrow> int" where
  "count_by_student sid t =
     to_i32 (sql_count (\<lambda>r. rr_student_id r = sid \<and> rr_status r = ''active'') (t_regs t))"

text \<open>\<open>SUM(c.credits)\<close> over the join with the courses, 0 when there is no row.\<close>

definition total_credits_for_student :: "int \<Rightarrow> tables \<Rightarrow> int" where
  "total_credits_for_student sid t = to_i32 (sum_list (List.map_filter
     (\<lambda>r. map_option cr_credits (find (\<lambda>c. cr_id c = rr_course_id r) (t_courses t)))
     (filter (\<lambda>r. rr_student_id r = sid \<and> rr_status r = ''active'') (t_regs t))))"

section \<open>Statements\<close>

definition reactivate :: "int \<Rightarrow> int \<Rightarrow> conn \<Rightarrow> bool \<times> conn" where
  "reactivate sid cid s = step_write (update_reg_rows
     (\<lambda>r. rr_student_id r = sid \<and> rr_course_id r = cid \<and> rr_status r = ''dropped'')
     (\<lambda>r. r\<lparr>rr_status := ''active'', rr_registered_at := db_now s\<rparr>)) s"

definition insert_registration :: "int \<Rightarrow> int \<Rightarrow> conn \<Rightarrow> bool \<times> conn" where
  "insert_registration sid cid s = step_insert (insert_reg_row
     \<lparr>rr_id = 0, rr_student_id = sid, rr_course_id = cid, rr_status = ''active'',
      rr_registered_at = db_now s\<rparr>) s"

text \<open>\<open>SELECT id ..; column_int64(0)\<close>: 0 when the statement has no row.\<close>

definition reg_id_of :: "int \<Rightarrow> int \<Rightarrow> tables \<Rightarrow> int" where
  "reg_id_of sid cid t =
     (case find (\<lambda>r. rr_student_id r = sid \<and> rr_course_id r = cid) (t_regs t) of
        None \<Rightarrow> 0 | Some r \<Rightarrow> rr_id r)"

definition reg_create :: "int \<Rightarrow> int \<Rightarrow> (conn, int) op" where
  "reg_create sid cid s =
     (let s1 = snd (reactivate sid cid s)
      in if 0 < db_changes s1 then (Inr (reg_id_of sid cid (db_tabs s1)), s1)
         else case insert_registration sid cid s1 of
           (False, s2) \<Rightarrow> (Inl (Runtime_Error ''Failed to create registration''), s2)
         | (True, s2) \<Rightarrow> (Inr (last_insert_id s2), s2))"

definition drop_registration :: "int \<Rightarrow> int \<Rightarrow> conn \<Rightarrow> bool \<times> conn" where
  "drop_registration sid cid = step_write (update_reg_rows
     (\<lambda>r. rr_student_id r = sid \<and> rr_course_id r = cid \<and> rr_status r = ''active'')
     (\<lambda>r. r\<lparr>rr_status := ''dropped''\<rparr>))"

definition reg_remove :: "int \<Rightarrow> conn \<Rightarrow> bool \<times> conn" where
  "reg_remove i = step_write (\<lambda>t. Some (delete_reg_row i t))"

section \<open>The enrolled students of a course\<close>

definition enrolled :: "tables \<Rightarrow> int \<Rightarrow> int set" where
  "enrolled t cid = rr_student_id ` {r \<in> set (t_regs t). rr_course_id r = cid \<and> rr_status r = ''active''}"

lemma reg_pair_unique:
  assumes "wf_tables t" "r \<in> set (t_regs t)" "q \<in> set (t_regs t)"
    "rr_student_id r = rr_student_id q" "rr_course_id r = rr_course_id q"
  shows "r = q"
  using distinct_map_eqD [OF wf_distinct(6) [OF assms(1)] assms(2,3)] assms(4,5) by simp

lemma enrolled_iff:
  "x \<in> enrolled t c \<longleftrightarrow>
     (\<exists>r \<in> set (t_regs t). rr_student_id r = x \<and> rr_course_id r = c \<and> rr_status r = ''active'')"
  by (auto simp: enrolled_def)

lemma active_count_card:
  assumes "wf_tables t"
  shows "active_count t cid = int (card (enrolled t cid))"
proof -
  let ?P = "\<lambda>r. rr_course_id r = cid \<and> rr_status r = ''active''"
  have "distinct (map rr_student_id (filter ?P (t_regs t)))"
  proof -
    have "distinct (filter ?P (t_regs t))"
      using wf_distinct(6) [OF assms] by (simp add: distinct_map)
    moreover have "inj_on rr_student_id (set (filter ?P (t_regs t)))"
      using reg_pair_unique [OF assms] by (auto simp: inj_on_def)
    ultimately show ?thesis by (simp add: distinct_map)
  qed
  then have "card (set (map rr_student_id (filter ?P (t_regs t)))) = length (filter ?P (t_regs t))"
    using distinct_card by fastforce
  then show ?thesis by (simp add: active_count_def sql_count_def enrolled_def)
qed

lemma finite_enrolled [simp]: "finite (enrolled t cid)"
  by (simp add: enrolled_def)

lemma enrolled_users: "wf_tables t \<Longrightarrow> enrolled t cid \<subseteq> user_ids t"
  by (auto simp: enrolled_def dest: wf_reg(3))

lemma reg_exists_iff:
  assumes "wf_tables t"
  shows "reg_exists sid cid t \<longleftrightarrow> sid \<in> enrolled t cid"
proof -
  let ?P = "\<lambda>r. rr_student_id r = sid \<and> rr_course_id r = cid \<and> rr_status r = ''active''"
  have "sql_count ?P (t_regs t) =
      sql_count (\<lambda>r. (rr_student_id r, rr_course_id r) = (sid, cid) \<and> rr_status r = ''active'') (t_regs t)"
    by (rule sql_count_cong) auto
  also have "\<dots> \<le> 1" by (rule sql_count_key_le1) (rule wf_distinct(6) [OF assms])
  finally have "to_i32 (sql_count ?P (t_regs t)) = sql_count ?P (t_regs t)"
    using sql_count_nonneg [of ?P "t_regs t"] unfolding i32_max_def
    by (intro to_i32_id) (linarith, simp add: i32_max_def)
  then show ?thesis
    by (auto simp: reg_exists_def sql_count_pos_iff enrolled_def)
qed

section \<open>What the statements change\<close>

text \<open>The students and courses with their seats are untouched.\<close>

definition same_catalogue :: "tables \<Rightarrow> tables \<Rightarrow> bool" where
  "same_catalogue t t' \<longleftrightarrow> t_users t' = t_users t \<and> t_courses t' = t_courses t \<and>
     t_sessions t' = t_sessions t"

lemma same_catalogue_ids:
  assumes "same_catalogue t t'"
  shows "user_ids t' = user_ids t" "course_ids t' = course_ids t"
  using assms by (simp_all add: same_catalogue_def user_ids_def course_ids_def)

lemma enrolled_regs_cong: "t_regs t' = t_regs t \<Longrightarrow> enrolled t' c = enrolled t c"
  by (simp add: enrolled_def)

lemma reactivate_eq:
  "reactivate sid cid s = (True, s\<lparr>
     db_tabs := (db_tabs s)\<lparr>t_regs := sql_update
       (\<lambda>r. rr_student_id r = sid \<and> rr_course_id r = cid \<and> rr_status r = ''dropped'')
       (\<lambda>r. r\<lparr>rr_status := ''active'', rr_registered_at := db_now s\<rparr>) (t_regs (db_tabs s))\<rparr>,
     db_changes := sql_count
       (\<lambda>r. rr_student_id r = sid \<and> rr_course_id r = cid \<and> rr_status r = ''dropped'')
       (t_regs (db_tabs s))\<rparr>)"
  by (simp add: reactivate_def step_write_def update_reg_rows_def)

lemma reactivate_wf:
  assumes "wf_tables (db_tabs s)"
  shows "wf_tables (db_tabs (snd (reactivate sid cid s)))"
  using assms by (auto simp: reactivate_def step_write_def elim!: update_reg_wf split: option.splits)

lemma drop_registration_wf:
  assumes "wf_tables (db_tabs s)"
  shows "wf_tables (db_tabs (snd (drop_registration sid cid s)))"
  using assms
  by (auto simp: drop_registration_def step_write_def elim!: update_reg_wf split: option.splits)

lemma insert_registration_wf:
  assumes "wf_tables (db_tabs s)"
  shows "wf_tables (db_tabs (snd (insert_registration sid cid s)))"
  using assms
  by (auto simp: insert_registration_def step_insert_def elim!: insert_reg_wf split: option.splits)

text \<open>\<open>create\<close> leaves the state after its UPDATE or after its INSERT.\<close>

lemma reg_create_cases:
  obtains "snd (reg_create sid cid s) = snd (reactivate sid cid s)"
    | "snd (reg_create sid cid s) = snd (insert_registration sid cid (snd (reactivate sid cid s)))"
proof (cases "0 < db_changes (snd (reactivate sid cid s))")
  case True
  then show ?thesis using that(1) by (simp add: reg_create_def Let_def)
next
  case False
  then show ?thesis
    using that(2) by (simp add: reg_create_def Let_def split: prod.split bool.split)
qed

lemma reg_create_wf:
  assumes "wf_tables (db_tabs s)"
  shows "wf_tables (db_tabs (snd (reg_create sid cid s)))"
  by (rule reg_create_cases [of sid cid s])
    (simp_all add: assms reactivate_wf insert_registration_wf)

lemma insert_registration_catalogue:
  "same_catalogue (db_tabs s) (db_tabs (snd (insert_registration sid cid s)))"
  by (auto simp: insert_registration_def step_insert_def same_catalogue_def
      split: option.splits dest: insert_reg_shape(1))

lemma reg_create_catalogue: "same_catalogue (db_tabs s) (db_tabs (snd (reg_create sid cid s)))"
proof -
  have r: "same_catalogue (db_tabs s) (db_tabs (snd (reactivate sid cid s)))"
    by (simp add: reactivate_eq same_catalogue_def)
  then show ?thesis
    using insert_registration_catalogue [of "snd (reactivate sid cid s)" sid cid]
    by (cases rule: reg_create_cases [of sid cid s]) (simp_all add: same_catalogue_def)
qed

lemma drop_registration_catalogue:
  "same_catalogue (db_tabs s) (db_tabs (snd (drop_registration sid cid s)))"
  by (simp add: drop_registration_def step_write_def update_reg_rows_def same_catalogue_def)

lemma reg_create_frame [simp]: "stmt_frame s (snd (reg_create sid cid s))"
proof -
  have "stmt_frame s (snd (reactivate sid cid s))" by (simp add: reactivate_def)
  moreover have "stmt_frame q (snd (insert_registration sid cid q))" for q
    by (simp add: insert_registration_def)
  ultimately show ?thesis
    by (cases rule: reg_create_cases [of sid cid s]) (auto intro: stmt_frame_trans)
qed

lemma drop_registration_frame [simp]: "stmt_frame s (snd (drop_registration sid cid s))"
  by (simp add: drop_registration_def)

text \<open>A dropped row is revived: the student is enrolled again under the old id.\<close>

lemma enrolled_reactivate:
  assumes "r \<in> set (t_regs (db_tabs s))" "rr_student_id r = sid" "rr_course_id r = cid"
    "rr_status r = ''dropped''"
  shows "enrolled (db_tabs (snd (reactivate sid cid s))) c =
    (if c = cid then insert sid (enrolled (db_tabs s) cid) else enrolled (db_tabs s) c)"
proof -
  let ?P = "\<lambda>r. rr_student_id r = sid \<and> rr_course_id r = cid \<and> rr_status r = ''dropped''"
  let ?f = "\<lambda>r. r\<lparr>rr_status := ''active'', rr_registered_at := db_now s\<rparr>"
  have m: "x \<in> enrolled (db_tabs (snd (reactivate sid cid s))) c \<longleftrightarrow>
      (\<exists>q \<in> set (t_regs (db_tabs s)). rr_student_id q = x \<and> rr_course_id q = c \<and>
         (?P q \<or> rr_status q = ''active''))" for x
    by (auto simp: reactivate_eq enrolled_iff bex_sql_update)
  show ?thesis
  proof (rule set_eqI)
    fix x
    show "x \<in> enrolled (db_tabs (snd (reactivate sid cid s))) c \<longleftrightarrow>
        x \<in> (if c = cid then insert sid (enrolled (db_tabs s) cid) else enrolled (db_tabs s) c)"
      unfolding m using assms by (auto simp: enrolled_iff)
  qed
qed

lemma enrolled_insert:
  assumes "insert_registration sid cid s = (True, s')"
  shows "enrolled (db_tabs s') c =
    (if c = cid then insert sid (enrolled (db_tabs s) cid) else enrolled (db_tabs s) c)"
proof -
  obtain i t' where ins: "insert_reg_row \<lparr>rr_id = 0, rr_student_id = sid, rr_course_id = cid,
      rr_status = ''active'', rr_registered_at = db_now s\<rparr> (db_tabs s) = Some (t', i)"
    and s': "db_tabs s' = t'"
    using assms by (auto simp: insert_registration_def step_insert_def split: option.splits)
  have "set (t_regs t') = insert \<lparr>rr_id = i, rr_student_id = sid, rr_course_id = cid,
      rr_status = ''active'', rr_registered_at = db_now s\<rparr> (set (t_regs (db_tabs s)))"
    by (simp add: insert_reg_shape(1) [OF ins])
  then show ?thesis by (auto simp: s' enrolled_iff)
qed

lemma reg_create_shape:
  "reg_create sid cid s =
    (if \<exists>r \<in> set (t_regs (db_tabs s)). rr_student_id r = sid \<and> rr_course_id r = cid \<and>
          rr_status r = ''dropped''
     then (Inr (reg_id_of sid cid (db_tabs (snd (reactivate sid cid s)))), snd (reactivate sid cid s))
     else case insert_registration sid cid (s\<lparr>db_changes := 0\<rparr>) of
        (False, s2) \<Rightarrow> (Inl (Runtime_Error ''Failed to create registration''), s2)
      | (True, s2) \<Rightarrow> (Inr (last_insert_id s2), s2))"
proof (cases "\<exists>r \<in> set (t_regs (db_tabs s)). rr_student_id r = sid \<and> rr_course_id r = cid \<and>
          rr_status r = ''dropped''")
  case True
  then have "0 < db_changes (snd (reactivate sid cid s))"
    by (simp add: reactivate_eq sql_count_pos_iff)
  with True show ?thesis by (simp add: reg_create_def Let_def)
next
  case False
  then have "snd (reactivate sid cid s) = s\<lparr>db_changes := 0\<rparr>"
    by (auto simp: reactivate_eq sql_count_0_iff sql_update_none)
  with False show ?thesis by (auto simp: reg_create_def Let_def)
qed

lemma insert_registration_False:
  assumes "insert_registration sid cid s = (False, s')"
  shows "s' = s\<lparr>db_changes := 0\<rparr>"
  using assms by (auto simp: insert_registration_def step_insert_def split: option.splits)

text \<open>What \<open>create\<close> does when it returns, and that it does nothing to the tables when it throws.\<close>

lemma reg_create_Inr:
  assumes "reg_create sid cid s = (Inr i, s')"
  shows "enrolled (db_tabs s') c =
    (if c = cid then insert sid (enrolled (db_tabs s) cid) else enrolled (db_tabs s) c)"
proof (cases "\<exists>r \<in> set (t_regs (db_tabs s)). rr_student_id r = sid \<and> rr_course_id r = cid \<and>
          rr_status r = ''dropped''")
  case True
  with assms have "s' = snd (reactivate sid cid s)" by (simp add: reg_create_shape)
  with True enrolled_reactivate show ?thesis by blast
next
  case False
  with assms have "insert_registration sid cid (s\<lparr>db_changes := 0\<rparr>) = (True, s')"
    by (auto simp: reg_create_shape split: prod.splits bool.splits)
  from enrolled_insert [OF this] show ?thesis by simp
qed

lemma reg_create_Inl:
  assumes "reg_create sid cid s = (Inl e, s')"
  shows "db_tabs s' = db_tabs s" "e = Runtime_Error ''Failed to create registration''"
  using assms
  by (auto simp: reg_create_shape dest: insert_registration_False split: prod.splits bool.splits if_splits)

lemma reg_create_succeeds:
  assumes "wf_tables (db_tabs s)" "sid \<in> user_ids (db_tabs s)" "cid \<in> course_ids (db_tabs s)"
    "sid \<notin> enrolled (db_tabs s) cid" "t_reg_seq (db_tabs s) < i64_max"
  shows "\<exists>i s'. reg_create sid cid s = (Inr i, s')"
proof (cases "\<exists>r \<in> set (t_regs (db_tabs s)). rr_student_id r = sid \<and> rr_course_id r = cid \<and>
          rr_status r = ''dropped''")
  case True
  then show ?thesis by (simp add: reg_create_shape)
next
  case False
  have "(sid, cid) \<notin> (\<lambda>q. (rr_student_id q, rr_course_id q)) ` set (t_regs (db_tabs s))"
  proof
    assume "(sid, cid) \<in> (\<lambda>q. (rr_student_id q, rr_course_id q)) ` set (t_regs (db_tabs s))"
    then obtain q where q: "q \<in> set (t_regs (db_tabs s))" "rr_student_id q = sid" "rr_course_id q = cid"
      by auto
    with False have "rr_status q \<noteq> ''dropped''" by blast
    moreover have "rr_status q \<noteq> ''active''" using assms(4) q by (auto simp: enrolled_iff)
    ultimately show False using wf_reg(5) [OF assms(1) q(1)] by (simp add: reg_statuses_def)
  qed
  with assms(2,3,5) False show ?thesis
    by (simp add: reg_create_shape insert_registration_def step_insert_def insert_reg_row_def Let_def)
qed

lemma reg_create_unknown_student:
  assumes "wf_tables (db_tabs s)" "sid \<notin> user_ids (db_tabs s)"
  shows "\<exists>s'. reg_create sid cid s = (Inl (Runtime_Error ''Failed to create registration''), s')"
proof -
  have "\<not> (\<exists>r \<in> set (t_regs (db_tabs s)). rr_student_id r = sid \<and> rr_course_id r = cid \<and>
          rr_status r = ''dropped'')"
    using wf_reg(3) [OF assms(1)] assms(2) by blast
  with assms(2) show ?thesis
    by (simp add: reg_create_shape insert_registration_def step_insert_def insert_reg_row_def)
qed

lemma enrolled_drop:
  "enrolled (db_tabs (snd (drop_registration sid cid s))) c =
    (if c = cid then enrolled (db_tabs s) cid - {sid} else enrolled (db_tabs s) c)"
proof (rule set_eqI)
  fix x
  show "x \<in> enrolled (db_tabs (snd (drop_registration sid cid s))) c \<longleftrightarrow>
      x \<in> (if c = cid then enrolled (db_tabs s) cid - {sid} else enrolled (db_tabs s) c)"
    by (auto simp: enrolled_iff drop_registration_def step_write_def update_reg_rows_def bex_sql_update)
qed

section \<open>Rows seen through the joins\<close>

lemma row_to_registration_total:
  assumes "wf_tables t" "r \<in> set (t_regs t)"
  shows "\<exists>q. row_to_registration t r = Some q \<and> r_id q = rr_id r \<and> r_student_id q = rr_student_id r \<and>
    r_course_id q = rr_course_id r \<and> r_status q = rr_status r"
proof -
  have "find (\<lambda>u. ur_id u = rr_student_id r) (t_users t) \<noteq> None"
    using wf_reg(3) [OF assms] by (simp add: find_None_iff_key user_ids_def)
  moreover have "find (\<lambda>c. cr_id c = rr_course_id r) (t_courses t) \<noteq> None"
    using wf_reg(4) [OF assms] by (simp add: find_None_iff_key course_ids_def)
  ultimately show ?thesis by (auto simp: row_to_registration_def)
qed

lemma reg_select_wf:
  assumes "wf_tables t"
  shows "map r_student_id (reg_select P t) = map rr_student_id (filter P (t_regs t))"
proof -
  have "map r_student_id (List.map_filter (row_to_registration t) rs) = map rr_student_id rs"
    if "set rs \<subseteq> set (t_regs t)" for rs
    using that
  proof (induction rs)
    case (Cons r rs)
    then obtain q where "row_to_registration t r = Some q" "r_student_id q = rr_student_id r"
      using row_to_registration_total [OF assms, of r] by auto
    with Cons show ?case by simp
  qed simp
  then show ?thesis by (simp add: reg_select_def)
qed

lemma set_reg_find_by_course:
  assumes "wf_tables t"
  shows "r_student_id ` set (reg_find_by_course cid ''active'' t) = enrolled t cid"
proof -
  have "c_str ''active'' = ''active''" by (rule c_str_id) simp
  then have "r_student_id ` set (reg_find_by_course cid ''active'' t) =
      set (map rr_student_id (filter (\<lambda>r. rr_course_id r = cid \<and> rr_status r = ''active'') (t_regs t)))"
    using reg_select_wf [OF assms]
    by (simp add: reg_find_by_course_def flip: set_map)
  then show ?thesis by (simp add: enrolled_def)
qed

lemma length_reg_find_by_course:
  assumes "wf_tables t"
  shows "int (length (reg_find_by_course cid ''active'' t)) = active_count t cid"
proof -
  have "c_str ''active'' = ''active''" by (rule c_str_id) simp
  then show ?thesis
    using arg_cong [OF reg_select_wf [OF assms], of length]
    by (simp add: reg_find_by_course_def active_count_def sql_count_def)
qed

end
