(* ===== verification/Registration_Service.thy ===== *)
theory Registration_Service
  imports Registration_Repository
begin

text \<open>
  \<^verbatim>\<open>backend/include/services/RegistrationService.hpp\<close>: registering for and dropping
  a course, each inside a transaction. This theory is the sequential behaviour of one call;
  the per-course mutexes and the interleaving of calls are in \<open>Shared_Connection\<close>.

  \<open>seats\<close> is the abstract view of the database these calls promise to work on: a capacity
  and a set of students per course. \<open>spec_register\<close> and \<open>spec_drop\<close> are the promised
  behaviour on it.
\<close>

section \<open>The operations\<close>

record RegistrationResult =
  res_success :: bool
  res_registration_id :: int
  res_error :: string
  res_remaining_seats :: int

definition failed :: "string \<Rightarrow> int \<Rightarrow> RegistrationResult" where
  "failed msg n = \<lparr>res_success = False, res_registration_id = 0, res_error = msg,
     res_remaining_seats = n\<rparr>"

text \<open>The lambda that \<open>register_student\<close> runs inside the transaction.\<close>

definition register_body :: "int \<Rightarrow> int \<Rightarrow> (conn, RegistrationResult) op" where
  "register_body sid cid s = (case course_find_by_id cid (db_tabs s) of
       None \<Rightarrow> (Inr (failed ''Course not found'' 0), s)
     | Some course \<Rightarrow>
         if reg_exists sid cid (db_tabs s)
         then (Inr (failed ''Already enrolled in this course''
                 (c_capacity course - c_enrolled_count course)), s)
         else let remaining = c_capacity course - get_enrolled_count cid (db_tabs s)
              in if remaining \<le> 0 then (Inr (failed ''Course is full'' 0), s)
                 else (case reg_create sid cid s of
                     (Inl e, s') \<Rightarrow> (Inl e, s')
                   | (Inr reg_id, s') \<Rightarrow>
                       (Inr \<lparr>res_success = True, res_registration_id = reg_id, res_error = [],
                             res_remaining_seats = remaining - 1\<rparr>, s')))"

definition register_student :: "int \<Rightarrow> int \<Rightarrow> conn \<Rightarrow> RegistrationResult \<times> conn" where
  "register_student sid cid s = (case transaction (register_body sid cid) s of
       (Inr r, s') \<Rightarrow> (r, s')
     | (Inl e, s') \<Rightarrow> (failed (''Registration failed: '' @ what e) 0, s'))"

definition drop_body :: "int \<Rightarrow> int \<Rightarrow> (conn, RegistrationResult) op" where
  "drop_body sid cid s =
     (if \<not> reg_exists sid cid (db_tabs s) then (Inr (failed ''Not enrolled in this course'' 0), s)
      else let s1 = snd (drop_registration sid cid s);
               remaining = (case course_find_by_id cid (db_tabs s1) of
                   None \<Rightarrow> 0
                 | Some course \<Rightarrow> c_capacity course - c_enrolled_count course + 1)
           in (Inr \<lparr>res_success = True, res_registration_id = 0, res_error = [],
                    res_remaining_seats = remaining\<rparr>, s1))"

definition drop_student :: "int \<Rightarrow> int \<Rightarrow> conn \<Rightarrow> RegistrationResult \<times> conn" where
  "drop_student sid cid s = (case transaction (drop_body sid cid) s of
       (Inr r, s') \<Rightarrow> (r, s')
     | (Inl e, s') \<Rightarrow> (failed (''Drop failed: '' @ what e) 0, s'))"

definition get_student_registrations :: "int \<Rightarrow> tables \<Rightarrow> Registration list" where
  "get_student_registrations sid t = reg_find_by_student sid ''active'' t"

definition get_course_enrollments :: "int \<Rightarrow> tables \<Rightarrow> Registration list" where
  "get_course_enrollments cid t = reg_find_by_course cid ''active'' t"

definition get_statistics :: "'j json_api \<Rightarrow> tables \<Rightarrow> 'j" where
  "get_statistics api t = j_obj api [(''total_active_registrations'', j_int api (count_active t))]"

section \<open>The bodies run inside a transaction\<close>

lemma register_body_frame: "stmt_frame s (snd (register_body sid cid s))"
proof -
  have "stmt_frame s s'" if "reg_create sid cid s = (r, s')" for r s'
    using reg_create_frame [of s sid cid] that by simp
  then show ?thesis
    by (auto simp: register_body_def Let_def split: option.split prod.split sum.split)
qed

lemma drop_body_frame: "stmt_frame s (snd (drop_body sid cid s))"
  by (simp add: drop_body_def Let_def)

interpretation register_txn: txn_body "register_body sid cid" for sid cid
  by unfold_locales (use register_body_frame in \<open>auto simp: stmt_frame_def\<close>)

interpretation drop_txn: txn_body "drop_body sid cid" for sid cid
  by unfold_locales (use drop_body_frame in \<open>auto simp: stmt_frame_def\<close>)

section \<open>The abstract specification\<close>

record seats =
  s_capacity :: "int \<Rightarrow> int option"
  s_enrolled :: "int \<Rightarrow> int set"

definition capacity_of :: "tables \<Rightarrow> int \<Rightarrow> int option" where
  "capacity_of t cid = map_option cr_capacity (find (\<lambda>r. cr_id r = cid) (t_courses t))"

definition seats_of :: "tables \<Rightarrow> seats" where
  "seats_of t = \<lparr>s_capacity = capacity_of t, s_enrolled = enrolled t\<rparr>"

datatype outcome = Done | Not_Found | Already | Full | Not_Enrolled

definition spec_register :: "int \<Rightarrow> int \<Rightarrow> seats \<Rightarrow> outcome \<times> int \<times> seats" where
  "spec_register sid cid a = (case s_capacity a cid of
       None \<Rightarrow> (Not_Found, 0, a)
     | Some cap \<Rightarrow>
         let taken = int (card (s_enrolled a cid))
         in if sid \<in> s_enrolled a cid then (Already, cap - taken, a)
            else if cap \<le> taken then (Full, 0, a)
            else (Done, cap - taken - 1,
                  a\<lparr>s_enrolled := (s_enrolled a)(cid := insert sid (s_enrolled a cid))\<rparr>))"

definition spec_drop :: "int \<Rightarrow> int \<Rightarrow> seats \<Rightarrow> outcome \<times> seats" where
  "spec_drop sid cid a =
     (if sid \<notin> s_enrolled a cid then (Not_Enrolled, a)
      else (Done, a\<lparr>s_enrolled := (s_enrolled a)(cid := s_enrolled a cid - {sid})\<rparr>))"

text \<open>The outcome a result stands for.\<close>

fun shows_outcome :: "RegistrationResult \<Rightarrow> outcome \<Rightarrow> bool" where
  "shows_outcome r Done \<longleftrightarrow> res_success r \<and> res_error r = []"
| "shows_outcome r Not_Found \<longleftrightarrow> \<not> res_success r \<and> res_error r = ''Course not found''"
| "shows_outcome r Already \<longleftrightarrow> \<not> res_success r \<and> res_error r = ''Already enrolled in this course''"
| "shows_outcome r Full \<longleftrightarrow> \<not> res_success r \<and> res_error r = ''Course is full''"
| "shows_outcome r Not_Enrolled \<longleftrightarrow> \<not> res_success r \<and> res_error r = ''Not enrolled in this course''"

lemma capacity_of_None_iff: "capacity_of t cid = None \<longleftrightarrow> cid \<notin> course_ids t"
  by (auto simp: capacity_of_def course_ids_def find_None_iff)

lemma capacity_of_catalogue: "same_catalogue t t' \<Longrightarrow> capacity_of t' = capacity_of t"
  by (simp add: capacity_of_def same_catalogue_def fun_eq_iff)

text \<open>What the queries read in a database that satisfies its schema and has no course overfull.\<close>

lemma course_reads:
  assumes "db_ok t" "capacity_of t cid = Some cap"
  shows "\<exists>c. course_find_by_id cid t = Some c \<and> c_capacity c = cap \<and>
      c_enrolled_count c = int (card (enrolled t cid))"
    "get_enrolled_count cid t = int (card (enrolled t cid))"
    "0 < cap" "cap \<le> i32_max" "int (card (enrolled t cid)) \<le> cap"
proof -
  have wf: "wf_tables t" using assms(1) by (rule db_okD)
  obtain r where r: "find (\<lambda>r. cr_id r = cid) (t_courses t) = Some r" "cr_capacity r = cap"
    using assms(2) by (auto simp: capacity_of_def)
  then have mem: "r \<in> set (t_courses t)" "cr_id r = cid" by (auto simp: find_Some_iff)
  then have cid: "cid \<in> course_ids t" by (auto simp: course_ids_def)
  note card = active_count_card [OF wf, of cid]
  show g: "get_enrolled_count cid t = int (card (enrolled t cid))"
    using enrolled_count_read [OF assms(1) cid] card by simp
  then have "to_i32 (active_count t cid) = int (card (enrolled t cid))"
    by (simp add: get_enrolled_count_def)
  then show "\<exists>c. course_find_by_id cid t = Some c \<and> c_capacity c = cap \<and>
      c_enrolled_count c = int (card (enrolled t cid))"
    using r mem course_capacity_read [OF wf mem(1)] by (simp add: course_find_by_id_def)
  show "0 < cap" "cap \<le> i32_max" using wf_course(3,4) [OF wf mem(1)] r(2) by simp_all
  have "active_count t (cr_id r) \<le> cr_capacity r"
    using assms(1) mem(1) by (auto simp: db_ok_def seats_ok_iff)
  with mem(2) r(2) card show "int (card (enrolled t cid)) \<le> cap" by simp
qed

section \<open>The database invariant\<close>

text \<open>The tables are consistent, and so is the snapshot a rollback would restore.\<close>

definition conn_ok :: "conn \<Rightarrow> bool" where
  "conn_ok s \<longleftrightarrow> db_ok (db_tabs s) \<and> (case db_txn s of None \<Rightarrow> True | Some t \<Rightarrow> db_ok t)"

lemma conn_ok_tabs: "conn_ok s \<Longrightarrow> db_ok (db_tabs s)"
  by (simp add: conn_ok_def)

lemma conn_ok_frame: "conn_ok s \<Longrightarrow> stmt_frame s s' \<Longrightarrow> db_ok (db_tabs s') \<Longrightarrow> conn_ok s'"
  by (simp add: conn_ok_def stmt_frame_def)

lemma txn_engine_conn_ok: "conn_ok s \<Longrightarrow> txn_engine cmd s = Inr s' \<Longrightarrow> conn_ok s'"
  by (auto simp: conn_ok_def txn_engine.simps split: option.splits txn_cmd.splits)

lemma execute_conn_ok: "conn_ok s \<Longrightarrow> conn_ok (snd (execute cmd s))"
  by (auto simp: execute_def dest: txn_engine_conn_ok split: sum.split)

lemma transaction_conn_ok:
  assumes "conn_ok s" and "\<And>s. conn_ok s \<Longrightarrow> conn_ok (snd (body s))"
  shows "conn_ok (snd (transaction body s))"
proof -
  have e: "conn_ok s'" if "execute cmd q = (r, s')" "conn_ok q" for cmd q r s'
    using execute_conn_ok [of q cmd] that by simp
  have b: "conn_ok s'" if "body q = (r, s')" "conn_ok q" for q r s'
    using assms(2) [of q] that by simp
  show ?thesis
    using assms(1)
    by (auto simp: transaction_def begin_transaction_def commit_def rollback_def
        dest: e b execute_conn_ok split: prod.split sum.split)
qed

lemma seats_ok_enrolled:
  assumes "wf_tables t"
  shows "seats_ok t \<longleftrightarrow> (\<forall>c \<in> set (t_courses t). int (card (enrolled t (cr_id c))) \<le> cr_capacity c)"
  by (simp add: seats_ok_iff active_count_card [OF assms])

lemma reg_create_db_ok:
  assumes "db_ok (db_tabs s)"
    and "\<And>c. c \<in> set (t_courses (db_tabs s)) \<Longrightarrow> cr_id c = cid \<Longrightarrow>
      int (card (enrolled (db_tabs s) cid)) < cr_capacity c"
  shows "db_ok (db_tabs (snd (reg_create sid cid s)))"
proof (cases "reg_create sid cid s")
  case (Pair r s')
  let ?t = "db_tabs s" and ?t' = "db_tabs s'"
  have wf: "wf_tables ?t" "seats_ok ?t" using assms(1) by (auto simp: db_ok_def)
  have wf': "wf_tables ?t'" using reg_create_wf [OF wf(1), of sid cid] Pair by simp
  have cat: "same_catalogue ?t ?t'" using reg_create_catalogue [of s sid cid] Pair by simp
  have "seats_ok ?t'"
  proof (cases r)
    case (Inl e)
    then have "?t' = ?t" using reg_create_Inl(1) Pair by blast
    then show ?thesis using wf(2) by simp
  next
    case (Inr i)
    then have en: "enrolled ?t' c = (if c = cid then insert sid (enrolled ?t cid) else enrolled ?t c)" for c
      using reg_create_Inr Pair by blast
    have "card (insert sid (enrolled ?t cid)) \<le> Suc (card (enrolled ?t cid))"
      by (rule card_insert_le_m1) simp_all
    then have "int (card (insert sid (enrolled ?t cid))) \<le> int (card (enrolled ?t cid)) + 1"
      by linarith
    with wf cat assms(2) show ?thesis
      unfolding seats_ok_enrolled [OF wf'] seats_ok_enrolled [OF wf(1)]
      by (fastforce simp: en same_catalogue_def)
  qed
  with wf' Pair show ?thesis by (simp add: db_ok_def)
qed

lemma register_body_db_ok:
  assumes "db_ok (db_tabs s)"
  shows "db_ok (db_tabs (snd (register_body sid cid s)))"
proof (cases "capacity_of (db_tabs s) cid")
  case None
  then have "course_find_by_id cid (db_tabs s) = None"
    by (simp add: capacity_of_None_iff course_find_by_id_None_iff)
  then show ?thesis using assms by (simp add: register_body_def)
next
  case (Some cap)
  note rd = course_reads [OF assms Some]
  obtain c where c: "course_find_by_id cid (db_tabs s) = Some c" "c_capacity c = cap"
    using rd(1) by blast
  have cap: "cr_capacity r = cap" if "r \<in> set (t_courses (db_tabs s))" "cr_id r = cid" for r
    using Some that find_key_Some [OF wf_distinct(3) [OF db_okD(1) [OF assms]] that(1)]
    by (simp add: capacity_of_def)
  show ?thesis
  proof (cases "int (card (enrolled (db_tabs s) cid)) < cap")
    case True
    then have "db_ok (db_tabs (snd (reg_create sid cid s)))"
      using reg_create_db_ok [OF assms, of cid sid] cap by simp
    then show ?thesis
      using assms by (auto simp: register_body_def c Let_def split: prod.split sum.split)
  next
    case False
    with rd(2) show ?thesis using assms by (simp add: register_body_def c Let_def)
  qed
qed

lemma drop_registration_db_ok [wf_rules]:
  assumes "db_ok (db_tabs s)"
  shows "db_ok (db_tabs (snd (drop_registration sid cid s)))"
proof -
  let ?t = "db_tabs s" and ?t' = "db_tabs (snd (drop_registration sid cid s))"
  have wf: "wf_tables ?t" "wf_tables ?t'" using assms by (auto simp: db_ok_def drop_registration_wf)
  have cs: "t_courses ?t' = t_courses ?t"
    using drop_registration_catalogue [of s sid cid] by (simp add: same_catalogue_def)
  have "card (enrolled ?t' c) \<le> card (enrolled ?t c)" for c
    by (rule card_mono) (auto simp: enrolled_drop)
  then have "seats_ok ?t'"
    using assms unfolding db_ok_def seats_ok_enrolled [OF wf(1)] seats_ok_enrolled [OF wf(2)] cs
    by (meson of_nat_mono order_trans)
  with wf show ?thesis by (simp add: db_ok_def)
qed

lemma drop_body_db_ok:
  assumes "db_ok (db_tabs s)"
  shows "db_ok (db_tabs (snd (drop_body sid cid s)))"
  using assms drop_registration_db_ok [OF assms] by (simp add: drop_body_def Let_def)

lemma snd_register_student: "snd (register_student sid cid s) = snd (transaction (register_body sid cid) s)"
  by (simp add: register_student_def split: prod.split sum.split)

lemma register_student_conn_ok [wf_rules]:
  assumes "conn_ok s"
  shows "conn_ok (snd (register_student sid cid s))"
proof -
  have "conn_ok (snd (register_body sid cid q))" if "conn_ok q" for q
    using conn_ok_frame [OF that register_body_frame register_body_db_ok [OF conn_ok_tabs [OF that]]] .
  from transaction_conn_ok [OF assms this]
  show ?thesis by (simp add: snd_register_student)
qed

lemma snd_drop_student: "snd (drop_student sid cid s) = snd (transaction (drop_body sid cid) s)"
  by (simp add: drop_student_def split: prod.split sum.split)

lemma drop_student_conn_ok [wf_rules]:
  assumes "conn_ok s"
  shows "conn_ok (snd (drop_student sid cid s))"
proof -
  have "conn_ok (snd (drop_body sid cid q))" if "conn_ok q" for q
    using conn_ok_frame [OF that drop_body_frame drop_body_db_ok [OF conn_ok_tabs [OF that]]] .
  from transaction_conn_ok [OF assms this]
  show ?thesis by (simp add: snd_drop_student)
qed

section \<open>The operations meet the specification\<close>

lemma register_student_idle:
  assumes "idle s" "engine_ok s"
  shows "register_student sid cid s =
    (case register_body sid cid (s\<lparr>db_txn := Some (db_tabs s)\<rparr>) of
       (Inl e, s2) \<Rightarrow> (failed (''Registration failed: '' @ what e) 0, s2\<lparr>db_tabs := db_tabs s, db_txn := None\<rparr>)
     | (Inr r, s2) \<Rightarrow> (r, s2\<lparr>db_txn := None\<rparr>))"
  unfolding register_student_def register_txn.commits [OF assms]
  by (simp split: prod.split sum.split)

lemma drop_student_idle:
  assumes "idle s" "engine_ok s"
  shows "drop_student sid cid s =
    (case drop_body sid cid (s\<lparr>db_txn := Some (db_tabs s)\<rparr>) of
       (Inl e, s2) \<Rightarrow> (failed (''Drop failed: '' @ what e) 0, s2\<lparr>db_tabs := db_tabs s, db_txn := None\<rparr>)
     | (Inr r, s2) \<Rightarrow> (r, s2\<lparr>db_txn := None\<rparr>))"
  unfolding drop_student_def drop_txn.commits [OF assms]
  by (simp split: prod.split sum.split)

text \<open>A call leaves no transaction open.\<close>

lemma register_student_engine [simp]:
  assumes "idle s" "engine_ok s"
  shows "idle (snd (register_student sid cid s))" "engine_ok (snd (register_student sid cid s))"
proof -
  have "db_refuse q = db_refuse s" if "register_body sid cid (s\<lparr>db_txn := Some (db_tabs s)\<rparr>) = (r, q)" for r q
    using register_body_frame [of "s\<lparr>db_txn := Some (db_tabs s)\<rparr>" sid cid] that
    by (simp add: stmt_frame_def)
  then show "idle (snd (register_student sid cid s))" "engine_ok (snd (register_student sid cid s))"
    using assms(2)
    by (auto simp: register_student_idle [OF assms] idle_def engine_ok_def split: prod.split sum.split)
qed

lemma drop_student_engine [simp]:
  assumes "idle s" "engine_ok s"
  shows "idle (snd (drop_student sid cid s))" "engine_ok (snd (drop_student sid cid s))"
proof -
  have "db_refuse q = db_refuse s" if "drop_body sid cid (s\<lparr>db_txn := Some (db_tabs s)\<rparr>) = (r, q)" for r q
    using drop_body_frame [of "s\<lparr>db_txn := Some (db_tabs s)\<rparr>" sid cid] that
    by (simp add: stmt_frame_def)
  then show "idle (snd (drop_student sid cid s))" "engine_ok (snd (drop_student sid cid s))"
    using assms(2)
    by (auto simp: drop_student_idle [OF assms] idle_def engine_ok_def split: prod.split sum.split)
qed

text \<open>Room for a new row: AUTOINCREMENT has not reached the largest 64-bit integer.\<close>

definition reg_ids_left :: "tables \<Rightarrow> bool" where
  "reg_ids_left t \<longleftrightarrow> t_reg_seq t < i64_max"

lemma register_refines:
  assumes ok: "db_ok (db_tabs s)" and idle: "idle s" "engine_ok s"
    and sid: "sid \<in> user_ids (db_tabs s)" and seq: "reg_ids_left (db_tabs s)"
    and call: "register_student sid cid s = (r, s')"
    and spec: "spec_register sid cid (seats_of (db_tabs s)) = (oc, n, a)"
  shows "shows_outcome r oc \<and> res_remaining_seats r = n \<and> seats_of (db_tabs s') = a"
proof -
  let ?t = "db_tabs s" and ?s1 = "s\<lparr>db_txn := Some (db_tabs s)\<rparr>"
  have wf: "wf_tables ?t" using ok by (rule db_okD)
  note run = call [unfolded register_student_idle [OF idle]]
  show ?thesis
  proof (cases "capacity_of ?t cid")
    case None
    then have "course_find_by_id cid ?t = None"
      by (simp add: capacity_of_None_iff course_find_by_id_None_iff)
    with None run spec show ?thesis
      by (auto simp: register_body_def spec_register_def seats_of_def failed_def)
  next
    case (Some cap)
    note rd = course_reads [OF ok Some]
    obtain c where c: "course_find_by_id cid ?t = Some c" "c_capacity c = cap"
      "c_enrolled_count c = int (card (enrolled ?t cid))"
      using rd(1) by blast
    have ex: "reg_exists sid cid ?t \<longleftrightarrow> sid \<in> enrolled ?t cid" by (rule reg_exists_iff [OF wf])
    consider "sid \<in> enrolled ?t cid" | "sid \<notin> enrolled ?t cid" "cap \<le> int (card (enrolled ?t cid))"
      | "sid \<notin> enrolled ?t cid" "int (card (enrolled ?t cid)) < cap"
      by linarith
    then show ?thesis
    proof cases
      case 1
      with c ex Some run spec show ?thesis
        by (auto simp: register_body_def spec_register_def seats_of_def failed_def)
    next
      case 2
      with c ex rd(2) Some run spec show ?thesis
        by (auto simp: register_body_def spec_register_def seats_of_def failed_def)
    next
      case 3
      have cid: "cid \<in> course_ids ?t" using Some capacity_of_None_iff [of ?t cid] by auto
      obtain i s2 where cr: "reg_create sid cid ?s1 = (Inr i, s2)"
        using reg_create_succeeds [of ?s1 sid cid] wf sid cid 3(1) seq by (auto simp: reg_ids_left_def)
      have en: "enrolled (db_tabs s2) = (enrolled ?t)(cid := insert sid (enrolled ?t cid))"
        using reg_create_Inr [OF cr] by (auto simp: fun_eq_iff)
      have "same_catalogue ?t (db_tabs s2)" using reg_create_catalogue [of ?s1 sid cid] cr by simp
      then have "capacity_of (db_tabs s2) = capacity_of ?t" by (rule capacity_of_catalogue)
      with 3 c ex rd(2) Some run spec cr en show ?thesis
        by (auto simp: register_body_def spec_register_def seats_of_def)
    qed
  qed
qed

lemma drop_refines:
  assumes ok: "db_ok (db_tabs s)" and idle: "idle s" "engine_ok s"
    and call: "drop_student sid cid s = (r, s')"
    and spec: "spec_drop sid cid (seats_of (db_tabs s)) = (oc, a)"
  shows "shows_outcome r oc \<and> seats_of (db_tabs s') = a"
proof -
  let ?t = "db_tabs s" and ?s1 = "s\<lparr>db_txn := Some (db_tabs s)\<rparr>"
  have ex: "reg_exists sid cid ?t \<longleftrightarrow> sid \<in> enrolled ?t cid"
    by (rule reg_exists_iff [OF db_okD(1) [OF ok]])
  note run = call [unfolded drop_student_idle [OF idle]]
  have en: "enrolled (db_tabs (snd (drop_registration sid cid ?s1))) =
      (enrolled ?t)(cid := enrolled ?t cid - {sid})"
    by (auto simp: fun_eq_iff enrolled_drop)
  have "capacity_of (db_tabs (snd (drop_registration sid cid ?s1))) = capacity_of ?t"
    using capacity_of_catalogue [OF drop_registration_catalogue [of ?s1 sid cid]] by simp
  with ex run spec en show ?thesis
    by (auto simp: drop_body_def spec_drop_def seats_of_def failed_def Let_def split: if_splits)
qed

end
