(* ===== verification/Sample_Database.thy ===== *)
theory Sample_Database
  imports Registration_Service
begin

text \<open>
  A small database on which the closed examples of the other theories run: an
  administrator (1), a lecturer (2) and two students (3, 4), one course with two seats and
  one seat taken, and a session of the lecturer. Its clock renders an instant as that many
  strokes, which orders texts as instants.
\<close>

definition sample_user :: "int \<Rightarrow> string \<Rightarrow> string \<Rightarrow> user_row" where
  "sample_user i name role = \<lparr>ur_id = i, ur_username = name, ur_password_hash = ''h'',
     ur_role = role, ur_name = name, ur_email = [], ur_active = 1, ur_created_at = []\<rparr>"

definition sample_course :: course_row where
  "sample_course = \<lparr>cr_id = 1, cr_course_code = ''CS301'', cr_course_name = ''Operating Systems'',
     cr_credits = 4, cr_faculty_id = Some 2, cr_capacity = 2, cr_schedule = [], cr_created_at = []\<rparr>"

definition sample_reg :: reg_row where
  "sample_reg = \<lparr>rr_id = 1, rr_student_id = 3, rr_course_id = 1, rr_status = ''active'',
     rr_registered_at = []\<rparr>"

definition sample_session :: session_row where
  "sample_session = \<lparr>sr_rowid = 1, sr_token = ''t2'', sr_user_id = 2, sr_created_at = [],
     sr_expires_at = None\<rparr>"

definition sample_tabs :: tables where
  "sample_tabs = \<lparr>t_users = [sample_user 1 ''root'' ''admin'', sample_user 2 ''prof'' ''faculty'',
       sample_user 3 ''ann'' ''student'', sample_user 4 ''bob'' ''student''],
     t_courses = [sample_course], t_regs = [sample_reg], t_sessions = [sample_session],
     t_user_seq = 4, t_course_seq = 1, t_reg_seq = 1\<rparr>"

definition tally :: "int \<Rightarrow> string" where
  "tally n = replicate (nat n) (CHR ''x'')"

definition sample :: conn where
  "sample = \<lparr>db_tabs = sample_tabs, db_txn = None, db_changes = 0, db_last_id = 0, db_clock = 0,
     db_datetime = tally, db_refuse = (\<lambda>_. None)\<rparr>"

lemmas sample_rows = sample_user_def sample_course_def sample_reg_def sample_session_def

lemma sample_simps [simp]:
  "db_tabs sample = sample_tabs" "db_txn sample = None" "db_datetime sample = tally"
  "db_clock sample = 0" "db_refuse sample = (\<lambda>_. None)"
  by (simp_all add: sample_def)

lemma sample_idle [simp]: "idle sample" "engine_ok sample"
  by (simp_all add: idle_def engine_ok_def)

lemma sample_user_ids [simp]: "user_ids sample_tabs = {1, 2, 3, 4}"
  by (auto simp: user_ids_def sample_tabs_def sample_rows)

lemma sample_course_ids [simp]: "course_ids sample_tabs = {1}"
  by (simp add: course_ids_def sample_tabs_def sample_rows)

lemma sample_reg_ids_left [simp]: "reg_ids_left sample_tabs"
  by (simp add: reg_ids_left_def sample_tabs_def i64_max_def)

lemma sample_seqs [simp]:
  "t_user_seq sample_tabs = 4" "t_course_seq sample_tabs = 1" "t_reg_seq sample_tabs = 1"
  by (simp_all add: sample_tabs_def)

lemma sample_enrolled [simp]: "enrolled sample_tabs c = (if c = 1 then {3} else {})"
  by (auto simp: enrolled_iff sample_tabs_def sample_rows)

lemma sample_capacity [simp]: "capacity_of sample_tabs c = (if c = 1 then Some 2 else None)"
  by (simp add: capacity_of_def sample_tabs_def sample_rows)

lemma sample_db_ok [simp]: "db_ok sample_tabs"
  by (simp add: db_ok_def wf_defs seats_ok_def active_count_def faculty_ref_ok_def user_ids_def
      course_ids_def sample_tabs_def sample_rows role_names_def reg_statuses_def i32_max_def i64_max_def)

lemma sample_wf [simp]: "wf_tables sample_tabs"
  using sample_db_ok by (rule db_okD)

lemma sample_conn_ok [simp]: "conn_ok sample"
  by (simp add: conn_ok_def)

lemma tally_less:
  assumes "0 \<le> a" "a < b"
  shows "tally a < tally b"
proof -
  have "replicate m (CHR ''x'') < replicate n (CHR ''x'')" if "m < n" for m n :: nat
    using that
  proof (induction m arbitrary: n)
    case 0
    then show ?case by (cases n) simp_all
  next
    case (Suc m)
    then show ?case by (cases n) simp_all
  qed
  then show ?thesis unfolding tally_def using assms by simp
qed

end
