(* ===== verification/Registration_Correctness.thy ===== *)
theory Registration_Correctness
  imports Sample_Database
begin

text \<open>
  What registration promises: refinement of the abstract specification, the outcome of a
  rush of students for one course, atomicity of failures, the round trips of register and
  drop, and the number of seats that a drop reports.
\<close>

section \<open>What a call leaves alone\<close>

lemma register_body_catalogue: "same_catalogue (db_tabs s) (db_tabs (snd (register_body sid cid s)))"
proof -
  have "same_catalogue (db_tabs s) (db_tabs s')" if "reg_create sid cid s = (r, s')" for r s'
    using reg_create_catalogue [of s sid cid] that by simp
  moreover have "same_catalogue (db_tabs s) (db_tabs s)" by (simp add: same_catalogue_def)
  ultimately show ?thesis
    by (auto simp: register_body_def Let_def split: option.split prod.split sum.split)
qed

lemma reactivate_seq [simp]: "t_reg_seq (db_tabs (snd (reactivate sid cid s))) = t_reg_seq (db_tabs s)"
  by (simp add: reactivate_eq)

lemma insert_registration_seq:
  "t_reg_seq (db_tabs (snd (insert_registration sid cid s))) \<le> t_reg_seq (db_tabs s) + 1"
  by (auto simp: insert_registration_def step_insert_def insert_reg_row_def Let_def split: option.split)

lemma register_body_seq: "t_reg_seq (db_tabs (snd (register_body sid cid s))) \<le> t_reg_seq (db_tabs s) + 1"
proof -
  have "t_reg_seq (db_tabs (snd (reg_create sid cid s))) \<le> t_reg_seq (db_tabs s) + 1"
    using insert_registration_seq [of sid cid "snd (reactivate sid cid s)"]
    by (cases rule: reg_create_cases [of sid cid s]) simp_all
  then show ?thesis
    by (auto simp: register_body_def Let_def split: option.split prod.split sum.split)
qed

lemma register_student_leaves:
  assumes "idle s" "engine_ok s"
  shows "same_catalogue (db_tabs s) (db_tabs (snd (register_student sid cid s)))"
    "t_reg_seq (db_tabs (snd (register_student sid cid s))) \<le> t_reg_seq (db_tabs s) + 1"
  using register_body_catalogue [of "s\<lparr>db_txn := Some (db_tabs s)\<rparr>" sid cid]
    register_body_seq [of sid cid "s\<lparr>db_txn := Some (db_tabs s)\<rparr>"]
  by (auto simp: register_student_idle [OF assms] same_catalogue_def split: prod.split sum.split)

lemma register_ok:
  assumes "db_ok (db_tabs s)" "idle s" "engine_ok s"
  shows "db_ok (db_tabs (snd (register_student sid cid s)))"
  using register_student_conn_ok [of s sid cid] assms by (simp add: conn_ok_def idle_def)

lemma drop_ok:
  assumes "db_ok (db_tabs s)" "idle s" "engine_ok s"
  shows "db_ok (db_tabs (snd (drop_student sid cid s)))"
  using drop_student_conn_ok [of s sid cid] assms by (simp add: conn_ok_def idle_def)

section \<open>Refinement\<close>

text \<open>C1: Registering a known student on an idle connection behaves as the abstract specification
  says: same outcome, same number of remaining seats, and the database represents the
  specified seats afterwards; the schema, the seat limit and the idle connection are kept.\<close>

theorem register_meets_spec:
  assumes "db_ok (db_tabs s)" "idle s" "engine_ok s" "sid \<in> user_ids (db_tabs s)"
    "reg_ids_left (db_tabs s)"
  shows "case register_student sid cid s of (r, s') \<Rightarrow>
    (case spec_register sid cid (seats_of (db_tabs s)) of (oc, n, a) \<Rightarrow>
       shows_outcome r oc \<and> res_remaining_seats r = n \<and> seats_of (db_tabs s') = a \<and>
       db_ok (db_tabs s') \<and> idle s' \<and> engine_ok s')"
proof -
  obtain r s' where call: "register_student sid cid s = (r, s')" by fastforce
  obtain oc n a where spec: "spec_register sid cid (seats_of (db_tabs s)) = (oc, n, a)"
    by (metis prod_cases3)
  show ?thesis
    using register_refines [OF assms call spec] register_ok [OF assms(1-3), of sid cid]
      register_student_engine [OF assms(2,3), of sid cid]
    by (simp add: call spec)
qed

theorem register_meets_spec_witness:
  "spec_register 4 1 (seats_of (db_tabs sample)) =
     (Done, 0, (seats_of sample_tabs)\<lparr>s_enrolled := (enrolled sample_tabs)(1 := {3, 4})\<rparr>) \<and>
   res_success (fst (register_student 4 1 sample)) \<and>
   enrolled (db_tabs (snd (register_student 4 1 sample))) 1 = {3, 4}"
proof -
  have spec: "spec_register 4 1 (seats_of (db_tabs sample)) =
     (Done, 0, (seats_of sample_tabs)\<lparr>s_enrolled := (enrolled sample_tabs)(1 := {3, 4})\<rparr>)"
    by (simp add: spec_register_def seats_of_def insert_commute)
  have "case register_student 4 1 sample of (r, s') \<Rightarrow>
    (case spec_register 4 1 (seats_of (db_tabs sample)) of (oc, n, a) \<Rightarrow>
       shows_outcome r oc \<and> res_remaining_seats r = n \<and> seats_of (db_tabs s') = a \<and>
       db_ok (db_tabs s') \<and> idle s' \<and> engine_ok s')"
    by (rule register_meets_spec) simp_all
  then show ?thesis
    unfolding spec by (auto simp: seats_of_def split: prod.splits)
qed

text \<open>C11: Dropping a course on an idle connection behaves as the abstract specification says, for
  every student and course, known or not.\<close>

theorem drop_meets_spec:
  assumes "db_ok (db_tabs s)" "idle s" "engine_ok s"
  shows "case drop_student sid cid s of (r, s') \<Rightarrow>
    (case spec_drop sid cid (seats_of (db_tabs s)) of (oc, a) \<Rightarrow>
       shows_outcome r oc \<and> seats_of (db_tabs s') = a \<and>
       db_ok (db_tabs s') \<and> idle s' \<and> engine_ok s')"
proof -
  obtain r s' where call: "drop_student sid cid s = (r, s')" by fastforce
  obtain oc a where spec: "spec_drop sid cid (seats_of (db_tabs s)) = (oc, a)" by fastforce
  show ?thesis
    using drop_refines [OF assms call spec] drop_ok [OF assms, of sid cid]
      drop_student_engine [OF assms(2,3), of sid cid]
    by (simp add: call spec)
qed

theorem drop_meets_spec_witness:
  "res_success (fst (drop_student 3 1 sample)) \<and>
   enrolled (db_tabs (snd (drop_student 3 1 sample))) 1 = {}"
proof -
  have "spec_drop 3 1 (seats_of (db_tabs sample)) =
     (Done, (seats_of sample_tabs)\<lparr>s_enrolled := (enrolled sample_tabs)(1 := {})\<rparr>)"
    by (simp add: spec_drop_def seats_of_def)
  moreover have "case drop_student 3 1 sample of (r, s') \<Rightarrow>
    (case spec_drop 3 1 (seats_of (db_tabs sample)) of (oc, a) \<Rightarrow>
       shows_outcome r oc \<and> seats_of (db_tabs s') = a \<and>
       db_ok (db_tabs s') \<and> idle s' \<and> engine_ok s')"
    by (rule drop_meets_spec) simp_all
  ultimately show ?thesis by (auto simp: seats_of_def split: prod.splits)
qed

section \<open>A rush for one course\<close>

text \<open>The calls of many students for one course, one after the other.\<close>

fun register_all :: "int list \<Rightarrow> int \<Rightarrow> conn \<Rightarrow> RegistrationResult list \<times> conn" where
  "register_all [] cid s = ([], s)"
| "register_all (sid # sids) cid s =
     (case register_student sid cid s of (r, s1) \<Rightarrow>
      (case register_all sids cid s1 of (rs, s2) \<Rightarrow> (r # rs, s2)))"

definition successes :: "RegistrationResult list \<Rightarrow> nat" where
  "successes rs = length (filter res_success rs)"

lemma register_all_count:
  assumes "db_ok (db_tabs s)" "idle s" "engine_ok s" "set sids \<subseteq> user_ids (db_tabs s)"
    "distinct sids" "set sids \<inter> enrolled (db_tabs s) cid = {}"
    "capacity_of (db_tabs s) cid = Some cap" "t_reg_seq (db_tabs s) + int (length sids) \<le> i64_max"
    "register_all sids cid s = (rs, s')"
  shows "successes rs = min (length sids) (nat cap - card (enrolled (db_tabs s) cid)) \<and>
    card (enrolled (db_tabs s') cid) = card (enrolled (db_tabs s) cid) + successes rs"
  using assms
proof (induction sids arbitrary: s rs)
  case Nil
  then show ?case by (simp add: successes_def)
next
  case (Cons sid sids)
  let ?t = "db_tabs s"
  obtain r s1 where r: "register_student sid cid s = (r, s1)" by fastforce
  obtain rs1 where rs: "register_all sids cid s1 = (rs1, s')" "rs = r # rs1"
    using Cons.prems(9) r by (auto split: prod.splits)
  have seq: "reg_ids_left ?t" using Cons.prems(8) by (simp add: reg_ids_left_def)
  have new: "sid \<notin> enrolled ?t cid" "sid \<in> user_ids ?t" using Cons.prems(4,6) by auto
  note ok = Cons.prems(1-3)
  have cat: "same_catalogue ?t (db_tabs s1)" and seq1: "t_reg_seq (db_tabs s1) \<le> t_reg_seq ?t + 1"
    using register_student_leaves [OF ok(2,3), of sid cid] r by simp_all
  have ok1: "db_ok (db_tabs s1)" "idle s1" "engine_ok s1"
    using register_ok [OF ok, of sid cid] register_student_engine [OF ok(2,3), of sid cid] r by simp_all
  note full = course_reads(3-5) [OF ok(1) Cons.prems(7)]
  have IH: "successes rs1 = min (length sids) (nat cap - card (enrolled (db_tabs s1) cid)) \<and>
      card (enrolled (db_tabs s') cid) = card (enrolled (db_tabs s1) cid) + successes rs1"
    if "set sids \<inter> enrolled (db_tabs s1) cid = {}"
    using Cons.IH [OF ok1 _ _ that _ _ rs(1)] Cons.prems(4,5,7,8) seq1
      same_catalogue_ids(1) [OF cat] capacity_of_catalogue [OF cat] by simp
  show ?case
  proof (cases "int (card (enrolled ?t cid)) < cap")
    case True
    then have "spec_register sid cid (seats_of ?t) = (Done, cap - int (card (enrolled ?t cid)) - 1,
        (seats_of ?t)\<lparr>s_enrolled := (enrolled ?t)(cid := insert sid (enrolled ?t cid))\<rparr>)"
      using new Cons.prems(7) by (simp add: spec_register_def seats_of_def)
    from register_refines [OF ok new(2) seq r this]
    have "res_success r" "enrolled (db_tabs s1) cid = insert sid (enrolled ?t cid)"
      by (auto simp: seats_of_def)
    with IH new Cons.prems(5,6) rs(2) True full show ?thesis
      by (simp add: successes_def min_def) linarith
  next
    case False
    then have "spec_register sid cid (seats_of ?t) = (Full, 0, seats_of ?t)"
      using new Cons.prems(7) by (simp add: spec_register_def seats_of_def)
    from register_refines [OF ok new(2) seq r this]
    have "\<not> res_success r" "enrolled (db_tabs s1) cid = enrolled ?t cid"
      by (auto simp: seats_of_def)
    with IH Cons.prems(6) rs(2) False full show ?thesis by (simp add: successes_def)
  qed
qed

text \<open>C2: When distinct students who are not yet enrolled register for a course one after the
  other, exactly as many succeed as there are free seats (or students, if fewer), and the
  enrolment grows by that number: the course is neither overbooked nor left underfull.\<close>

theorem rush_fills_course_exactly:
  assumes "db_ok (db_tabs s)" "idle s" "engine_ok s" "set sids \<subseteq> user_ids (db_tabs s)"
    "distinct sids" "set sids \<inter> enrolled (db_tabs s) cid = {}"
    "capacity_of (db_tabs s) cid = Some cap" "t_reg_seq (db_tabs s) + int (length sids) \<le> i64_max"
  shows "successes (fst (register_all sids cid s)) =
      min (length sids) (nat cap - card (enrolled (db_tabs s) cid)) \<and>
    card (enrolled (db_tabs (snd (register_all sids cid s))) cid) =
      card (enrolled (db_tabs s) cid) + successes (fst (register_all sids cid s))"
  using register_all_count [OF assms, of "fst (register_all sids cid s)" "snd (register_all sids cid s)"]
  by simp

theorem rush_fills_course_exactly_witness:
  "successes (fst (register_all [4, 1, 2] 1 sample)) = 1"
proof -
  have "successes (fst (register_all [4, 1, 2] 1 sample)) =
      min (length [4, 1, 2 :: int]) (nat 2 - card (enrolled (db_tabs sample) 1)) \<and>
    card (enrolled (db_tabs (snd (register_all [4, 1, 2] 1 sample))) 1) =
      card (enrolled (db_tabs sample) 1) + successes (fst (register_all [4, 1, 2] 1 sample))"
    by (rule rush_fills_course_exactly) (simp_all add: i64_max_def)
  then show ?thesis by simp
qed

section \<open>Failures\<close>

lemma register_body_failure:
  assumes "register_body sid cid s = (Inr r, s')" "\<not> res_success r"
  shows "db_tabs s' = db_tabs s"
  using assms
  by (auto simp: register_body_def Let_def split: option.splits if_splits prod.splits sum.splits)

lemma drop_body_failure:
  assumes "drop_body sid cid s = (Inr r, s')" "\<not> res_success r"
  shows "s' = s"
  using assms by (auto simp: drop_body_def Let_def split: if_splits)

lemma transaction_Inr_committed:
  assumes "transaction body s = (Inr r, s')" "idle s" "\<And>q. db_txn (snd (body q)) = db_txn q"
  shows "\<exists>s2. body (s\<lparr>db_txn := Some (db_tabs s)\<rparr>) = (Inr r, s2) \<and> db_tabs s' = db_tabs s2"
proof -
  obtain u s1 where b: "begin_transaction s = (Inr u, s1)"
    using assms(1) by (auto simp: transaction_def split: prod.splits sum.splits)
  then have s1: "s1 = s\<lparr>db_txn := Some (db_tabs s)\<rparr>"
    using assms(2) by (auto simp: begin_transaction_def execute_def txn_engine.simps idle_def
        split: sum.splits option.splits)
  obtain s2 where f: "body s1 = (Inr r, s2)" "commit s2 = (Inr (), s')"
    using assms(1) b by (auto simp: transaction_def split: prod.splits sum.splits)
  moreover have "db_tabs s' = db_tabs s2"
    using f(2) by (auto simp: commit_def execute_def txn_engine.simps split: sum.splits option.splits)
  ultimately show ?thesis by (simp add: s1)
qed

text \<open>A registration that does not succeed changes no table, whether it was refused by a check
  or failed with an exception (a constraint violation, a transaction that the engine refuses
  to start or to commit), as long as the engine can roll back.\<close>

theorem failed_registration_changes_nothing:
  assumes "idle s" "db_refuse s Rollback = None" "\<not> res_success (fst (register_student sid cid s))"
  shows "db_tabs (snd (register_student sid cid s)) = db_tabs s"
proof (cases "transaction (register_body sid cid) s")
  case (Pair r s')
  show ?thesis
  proof (cases r)
    case (Inl e)
    with Pair have "transaction (register_body sid cid) s = (Inl e, s')" by simp
    from register_txn.throw_is_atomic [OF assms(1,2) this] show ?thesis
      by (simp add: snd_register_student Pair)
  next
    case (Inr a)
    then have "\<not> res_success a" using assms(3) Pair by (simp add: register_student_def)
    moreover obtain s2 where "register_body sid cid (s\<lparr>db_txn := Some (db_tabs s)\<rparr>) = (Inr a, s2)"
      "db_tabs s' = db_tabs s2"
      using transaction_Inr_committed [of "register_body sid cid" s a s'] Pair Inr assms(1)
        register_txn.keeps_txn by auto
    ultimately show ?thesis
      using register_body_failure by (fastforce simp: snd_register_student Pair)
  qed
qed

theorem failed_registration_changes_nothing_witness:
  "db_tabs (snd (register_student 3 1 (sample\<lparr>db_refuse := (\<lambda>_. None)(Commit := Some ''disk full'')\<rparr>)))
     = sample_tabs"
proof -
  let ?s = "sample\<lparr>db_refuse := (\<lambda>_. None)(Commit := Some ''disk full'')\<rparr>"
  have "\<not> res_success (fst (register_student 3 1 ?s))"
    by (simp add: register_student_def transaction_def begin_transaction_def commit_def
        execute_def txn_engine.simps register_body_def failed_def reg_exists_iff
        course_find_by_id_def
        split: option.split sum.split prod.split)
  then show ?thesis
    using failed_registration_changes_nothing [of ?s 3 1] by (simp add: idle_def)
qed

text \<open>A student whose account no longer exists cannot register: with a free seat the foreign key
  refuses the row, the call answers with the exception's text and the database is unchanged.\<close>

theorem unknown_student_is_rejected:
  assumes "db_ok (db_tabs s)" "idle s" "engine_ok s" "sid \<notin> user_ids (db_tabs s)"
    "capacity_of (db_tabs s) cid = Some cap" "int (card (enrolled (db_tabs s) cid)) < cap"
  shows "fst (register_student sid cid s) =
      failed ''Registration failed: Failed to create registration'' 0 \<and>
    db_tabs (snd (register_student sid cid s)) = db_tabs s"
proof -
  let ?t = "db_tabs s" and ?s1 = "s\<lparr>db_txn := Some (db_tabs s)\<rparr>"
  have wf: "wf_tables ?t" using assms(1) by (rule db_okD)
  note rd = course_reads [OF assms(1,5)]
  have "\<not> reg_exists sid cid ?t"
    using reg_exists_iff [OF wf] enrolled_users [OF wf] assms(4) by blast
  moreover obtain s2 where
    "reg_create sid cid ?s1 = (Inl (Runtime_Error ''Failed to create registration''), s2)"
    using reg_create_unknown_student [of ?s1 sid cid] wf assms(4) by auto
  ultimately show ?thesis
    using rd(1,2) assms(6)
    by (auto simp: register_student_idle [OF assms(2,3)] register_body_def Let_def)
qed

theorem unknown_student_is_rejected_witness:
  "res_error (fst (register_student 9 1 sample)) =
     ''Registration failed: Failed to create registration''"
proof -
  have "fst (register_student 9 1 sample) =
      failed ''Registration failed: Failed to create registration'' 0 \<and>
    db_tabs (snd (register_student 9 1 sample)) = db_tabs sample"
    by (rule unknown_student_is_rejected [where cap = 2]) simp_all
  then show ?thesis by (simp add: failed_def)
qed

section \<open>Dropping\<close>

lemma drop_success:
  assumes "db_ok (db_tabs s)" "idle s" "engine_ok s" "sid \<in> enrolled (db_tabs s) cid"
  shows "drop_student sid cid s =
    (let s1 = snd (drop_registration sid cid (s\<lparr>db_txn := Some (db_tabs s)\<rparr>))
     in (\<lparr>res_success = True, res_registration_id = 0, res_error = [],
         res_remaining_seats = (case course_find_by_id cid (db_tabs s1) of None \<Rightarrow> 0
            | Some course \<Rightarrow> c_capacity course - c_enrolled_count course + 1)\<rparr>, s1\<lparr>db_txn := None\<rparr>))"
proof -
  have "reg_exists sid cid (db_tabs s)"
    using reg_exists_iff [OF db_okD(1) [OF assms(1)]] assms(4) by simp
  then show ?thesis by (simp add: drop_student_idle [OF assms(2,3)] drop_body_def Let_def)
qed

text \<open>A successful drop reports one seat more than the course has free afterwards: the enrolled
  count is read after the row has been marked as dropped, and one is added to it again.\<close>

theorem drop_reports_one_seat_too_many:
  assumes "db_ok (db_tabs s)" "idle s" "engine_ok s" "sid \<in> enrolled (db_tabs s) cid"
    "capacity_of (db_tabs s) cid = Some cap"
  shows "res_success (fst (drop_student sid cid s)) \<and>
    res_remaining_seats (fst (drop_student sid cid s)) =
      (cap - int (card (enrolled (db_tabs (snd (drop_student sid cid s))) cid))) + 1"
proof -
  let ?s1 = "snd (drop_registration sid cid (s\<lparr>db_txn := Some (db_tabs s)\<rparr>))"
  have ok: "db_ok (db_tabs ?s1)"
    using drop_registration_db_ok [of "s\<lparr>db_txn := Some (db_tabs s)\<rparr>"] assms(1) by simp
  have "capacity_of (db_tabs ?s1) cid = Some cap"
    using capacity_of_catalogue [OF drop_registration_catalogue [of "s\<lparr>db_txn := Some (db_tabs s)\<rparr>" sid cid]]
      assms(5) by simp
  from course_reads(1) [OF ok this] show ?thesis
    by (auto simp: drop_success [OF assms(1-4)] Let_def)
qed

theorem drop_reports_one_seat_too_many_witness:
  "res_remaining_seats (fst (drop_student 3 1 sample)) = 3 \<and>
   capacity_of (db_tabs (snd (drop_student 3 1 sample))) 1 = Some 2"
proof -
  have r: "res_success (fst (drop_student 3 1 sample)) \<and>
    res_remaining_seats (fst (drop_student 3 1 sample)) =
      (2 - int (card (enrolled (db_tabs (snd (drop_student 3 1 sample))) 1))) + 1"
    by (rule drop_reports_one_seat_too_many) simp_all
  have "enrolled (db_tabs (snd (drop_student 3 1 sample))) 1 = {}"
    "capacity_of (db_tabs (snd (drop_student 3 1 sample))) 1 = Some 2"
    using enrolled_drop [of 3 1 "sample\<lparr>db_txn := Some sample_tabs\<rparr>" 1]
      capacity_of_catalogue [OF drop_registration_catalogue [of "sample\<lparr>db_txn := Some sample_tabs\<rparr>" 3 1]]
    by (simp_all add: drop_success Let_def)
  with r show ?thesis by simp
qed

section \<open>Round trips\<close>

lemma reg_id_of_update:
  assumes "\<And>r. rr_id (f r) = rr_id r" "\<And>r. rr_student_id (f r) = rr_student_id r"
    "\<And>r. rr_course_id (f r) = rr_course_id r"
  shows "reg_id_of sid cid (t\<lparr>t_regs := sql_update P f rs\<rparr>) = reg_id_of sid cid (t\<lparr>t_regs := rs\<rparr>)"
  by (induction rs) (auto simp: reg_id_of_def sql_update_def assms)

lemma reg_id_of_drop:
  "reg_id_of sid cid (db_tabs (snd (drop_registration sid cid s))) = reg_id_of sid cid (db_tabs s)"
  using reg_id_of_update [where t = "db_tabs s" and rs = "t_regs (db_tabs s)"]
  by (simp add: drop_registration_def step_write_def update_reg_rows_def)

lemma reg_id_of_reactivate:
  "reg_id_of sid cid (db_tabs (snd (reactivate sid cid s))) = reg_id_of sid cid (db_tabs s)"
  using reg_id_of_update [where t = "db_tabs s" and rs = "t_regs (db_tabs s)"]
  by (simp add: reactivate_eq)

lemma dropped_row_exists:
  assumes "sid \<in> enrolled (db_tabs s) cid"
  shows "\<exists>r \<in> set (t_regs (db_tabs (snd (drop_registration sid cid s)))).
    rr_student_id r = sid \<and> rr_course_id r = cid \<and> rr_status r = ''dropped''"
  using assms
  by (fastforce simp: drop_registration_def step_write_def update_reg_rows_def bex_sql_update enrolled_iff)

text \<open>A student who drops a course and registers for it again gets the seat back under the old
  registration id, and the seats of all courses are as before: the unique constraint on
  student and course never stands in the way.\<close>

theorem drop_then_register_again:
  assumes "db_ok (db_tabs s)" "idle s" "engine_ok s" "sid \<in> enrolled (db_tabs s) cid"
    "capacity_of (db_tabs s) cid = Some cap"
  shows "case register_student sid cid (snd (drop_student sid cid s)) of (r, s') \<Rightarrow>
    res_success r \<and> res_registration_id r = reg_id_of sid cid (db_tabs s) \<and>
    seats_of (db_tabs s') = seats_of (db_tabs s)"
proof -
  let ?s0 = "s\<lparr>db_txn := Some (db_tabs s)\<rparr>"
  let ?d = "snd (drop_registration sid cid ?s0)"
  let ?s1 = "snd (drop_student sid cid s)"
  have s1: "db_tabs ?s1 = db_tabs ?d" by (simp add: drop_success [OF assms(1-4)] Let_def)
  have ok: "db_ok (db_tabs ?s1)" "idle ?s1" "engine_ok ?s1"
    using drop_ok [OF assms(1-3)] drop_student_engine [OF assms(2,3)] by simp_all
  have en: "enrolled (db_tabs ?s1) = (enrolled (db_tabs s))(cid := enrolled (db_tabs s) cid - {sid})"
    by (auto simp: s1 enrolled_drop fun_eq_iff)
  have cap: "capacity_of (db_tabs ?s1) = capacity_of (db_tabs s)"
    using capacity_of_catalogue [OF drop_registration_catalogue [of ?s0 sid cid]] by (simp add: s1)
  have less: "int (card (enrolled (db_tabs ?s1) cid)) < cap"
  proof -
    have "card (enrolled (db_tabs s) cid - {sid}) < card (enrolled (db_tabs s) cid)"
      using assms(4) by (intro card_Diff1_less) simp_all
    with course_reads(5) [OF assms(1,5)] show ?thesis by (simp add: en)
  qed
  let ?q = "?s1\<lparr>db_txn := Some (db_tabs ?s1)\<rparr>"
  have row: "\<exists>r \<in> set (t_regs (db_tabs ?q)). rr_student_id r = sid \<and> rr_course_id r = cid \<and>
      rr_status r = ''dropped''"
    using dropped_row_exists [of sid ?s0 cid] assms(4) by (simp add: s1)
  have cr: "reg_create sid cid ?q = (Inr (reg_id_of sid cid (db_tabs s)), snd (reactivate sid cid ?q))"
    using row reg_id_of_reactivate [of sid cid ?q] reg_id_of_drop [of sid cid ?s0]
    by (simp add: reg_create_shape s1)
  have en2: "enrolled (db_tabs (snd (reactivate sid cid ?q))) = enrolled (db_tabs s)"
    using reg_create_Inr [OF cr] assms(4) by (auto simp: en fun_eq_iff)
  have "same_catalogue (db_tabs ?q) (db_tabs (snd (reactivate sid cid ?q)))"
    using reg_create_catalogue [of ?q sid cid] cr by simp
  then have cap2: "capacity_of (db_tabs (snd (reactivate sid cid ?q))) = capacity_of (db_tabs s)"
    using capacity_of_catalogue [of "db_tabs ?q"] cap by simp
  have "\<not> reg_exists sid cid (db_tabs ?s1)"
    using reg_exists_iff [OF db_okD(1) [OF ok(1)]] by (simp add: en)
  moreover note course_reads(1,2) [OF ok(1), of cid cap]
  ultimately show ?thesis
    using cap assms(5) less cr en2 cap2
    by (auto simp: register_student_idle [OF ok(2,3)] register_body_def Let_def seats_of_def)
qed

theorem drop_then_register_again_witness:
  "res_registration_id (fst (register_student 3 1 (snd (drop_student 3 1 sample)))) = 1"
proof -
  have "case register_student 3 1 (snd (drop_student 3 1 sample)) of (r, s') \<Rightarrow>
    res_success r \<and> res_registration_id r = reg_id_of 3 1 (db_tabs sample) \<and>
    seats_of (db_tabs s') = seats_of (db_tabs sample)"
    by (rule drop_then_register_again [where cap = 2]) simp_all
  moreover have "reg_id_of 3 1 sample_tabs = 1"
    by (simp add: reg_id_of_def sample_tabs_def sample_rows)
  ultimately show ?thesis by (auto split: prod.splits)
qed

end
