(* ===== verification/Sha256.thy ===== *)
theory Sha256
  imports Models "HOL-Library.Word"
begin

text \<open>
  \<open>AuthService::sha256\<close> and \<open>hash_password\<close> of
  \<^verbatim>\<open>backend/include/services/AuthService.hpp\<close>. The code-shaped definitions work on
  32-bit words in the order of the C++ loops; \<open>ref_schedule\<close> and \<open>ref_rounds\<close> state the
  hash standard's recurrences, and the loops are shown to compute them.
\<close>

unbundle bit_operations_syntax

type_synonym u8 = "8 word"
type_synonym u32 = "32 word"
type_synonym u64 = "64 word"

section \<open>The code\<close>

definition sha_k :: "u32 list" where
  "sha_k = [
     0x428a2f98, 0x71374491, 0xb5c0fbcf, 0xe9b5dba5,
     0x3956c25b, 0x59f111f1, 0x923f82a4, 0xab1c5ed5,
     0xd807aa98, 0x12835b01, 0x243185be, 0x550c7dc3,
     0x72be5d74, 0x80deb1fe, 0x9bdc06a7, 0xc19bf174,
     0xe49b69c1, 0xefbe4786, 0x0fc19dc6, 0x240ca1cc,
     0x2de92c6f, 0x4a7484aa, 0x5cb0a9dc, 0x76f988da,
     0x983e5152, 0xa831c66d, 0xb00327c8, 0xbf597fc7,
     0xc6e00bf3, 0xd5a79147, 0x06ca6351, 0x14292967,
     0x27b70a85, 0x2e1b2138, 0x4d2c6dfc, 0x53380d13,
     0x650a7354, 0x766a0abb, 0x81c2c92e, 0x92722c85,
     0xa2bfe8a1, 0xa81a664b, 0xc24b8b70, 0xc76c51a3,
     0xd192e819, 0xd6990624, 0xf40e3585, 0x106aa070,
     0x19a4c116, 0x1e376c08, 0x2748774c, 0x34b0bcb5,
     0x391c0cb3, 0x4ed8aa4a, 0x5b9cca4f, 0x682e6ff3,
     0x748f82ee, 0x78a5636f, 0x84c87814, 0x8cc70208,
     0x90befffa, 0xa4506ceb, 0xbef9a3f7, 0xc67178f2]"

definition rotr :: "u32 \<Rightarrow> nat \<Rightarrow> u32" where
  "rotr x n = drop_bit n x OR push_bit (32 - n) x"

definition msg_bytes :: "string \<Rightarrow> u8 list" where
  "msg_bytes input = map (\<lambda>c. of_char c) input"

text \<open>\<open>while (msg.size() % 64 != 56) msg.push_back(0);\<close>\<close>

function pad_zeros :: "u8 list \<Rightarrow> u8 list" where
  "pad_zeros msg = (if length msg mod 64 \<noteq> 56 then pad_zeros (msg @ [0]) else msg)"
  by pat_completeness auto
termination
proof (relation "measure (\<lambda>m. if length m mod 64 \<le> 56 then 56 - length m mod 64 else 120 - length m mod 64)")
  fix msg :: "u8 list"
  assume "length msg mod 64 \<noteq> 56"
  moreover have "length msg mod 64 < 64" by simp
  ultimately show "(msg @ [0], msg) \<in> measure
      (\<lambda>m. if length m mod 64 \<le> 56 then 56 - length m mod 64 else 120 - length m mod 64)"
    by (auto simp: mod_Suc)
qed simp

declare pad_zeros.simps [simp del]

definition len_bytes :: "u64 \<Rightarrow> u8 list" where
  "len_bytes bit_len = map (\<lambda>i. ucast (drop_bit (i * 8) bit_len AND 0xFF)) [7, 6, 5, 4, 3, 2, 1, 0]"

definition sha_pad :: "string \<Rightarrow> u8 list" where
  "sha_pad input =
     (let msg = msg_bytes input;
          bit_len = of_nat (length msg * 8)
      in pad_zeros (msg @ [0x80]) @ len_bytes bit_len)"

definition be_word :: "u8 list \<Rightarrow> nat \<Rightarrow> u32" where
  "be_word chunk i =
     push_bit 24 (ucast (chunk ! (i * 4))) OR push_bit 16 (ucast (chunk ! (i * 4 + 1))) OR
     push_bit 8 (ucast (chunk ! (i * 4 + 2))) OR ucast (chunk ! (i * 4 + 3))"

definition sched_next :: "u32 list \<Rightarrow> u32" where
  "sched_next w =
     (let i = length w;
          s0 = rotr (w ! (i - 15)) 7 XOR rotr (w ! (i - 15)) 18 XOR drop_bit 3 (w ! (i - 15));
          s1 = rotr (w ! (i - 2)) 17 XOR rotr (w ! (i - 2)) 19 XOR drop_bit 10 (w ! (i - 2))
      in w ! (i - 16) + s0 + w ! (i - 7) + s1)"

text \<open>The loop for \<open>w[16]\<close> to \<open>w[63]\<close>: \<open>n\<close> more words.\<close>

fun sched_extend :: "nat \<Rightarrow> u32 list \<Rightarrow> u32 list" where
  "sched_extend 0 w = w"
| "sched_extend (Suc n) w = sched_extend n (w @ [sched_next w])"

definition schedule :: "u8 list \<Rightarrow> u32 list" where
  "schedule chunk = sched_extend 48 (map (be_word chunk) [0..<16])"

type_synonym regs = "u32 \<times> u32 \<times> u32 \<times> u32 \<times> u32 \<times> u32 \<times> u32 \<times> u32"

fun sha_round :: "u32 \<times> u32 \<Rightarrow> regs \<Rightarrow> regs" where
  "sha_round (ki, wi) (a, b, c, d, e, f, g, hh) =
     (let S1 = rotr e 6 XOR rotr e 11 XOR rotr e 25;
          ch = (e AND f) XOR (NOT e AND g);
          temp1 = hh + S1 + ch + ki + wi;
          S0 = rotr a 2 XOR rotr a 13 XOR rotr a 22;
          maj = (a AND b) XOR (a AND c) XOR (b AND c);
          temp2 = S0 + maj
      in (temp1 + temp2, a, b, c, d + temp1, e, f, g))"

fun add_regs :: "regs \<Rightarrow> regs \<Rightarrow> regs" where
  "add_regs (h0, h1, h2, h3, h4, h5, h6, h7) (a, b, c, d, e, f, g, hh) =
     (h0 + a, h1 + b, h2 + c, h3 + d, h4 + e, h5 + f, h6 + g, h7 + hh)"

definition sha_chunk :: "u8 list \<Rightarrow> regs \<Rightarrow> regs" where
  "sha_chunk chunk h = add_regs h (fold sha_round (zip sha_k (schedule chunk)) h)"

function sha_chunks :: "u8 list \<Rightarrow> regs \<Rightarrow> regs" where
  "sha_chunks msg h = (if msg = [] then h else sha_chunks (drop 64 msg) (sha_chunk (take 64 msg) h))"
  by pat_completeness auto
termination
  by (relation "measure (\<lambda>(m, h). length m)") auto

declare sha_chunks.simps [simp del]

definition sha_init :: regs where
  "sha_init = (0x6a09e667, 0xbb67ae85, 0x3c6ef372, 0xa54ff53a,
               0x510e527f, 0x9b05688c, 0x1f83d9ab, 0x5be0cd19)"

definition hex_digit :: "int \<Rightarrow> char" where
  "hex_digit d = ''0123456789abcdef'' ! nat d"

function hex_int :: "int \<Rightarrow> string" where
  "hex_int n = (if n < 16 then [hex_digit n] else hex_int (n div 16) @ [hex_digit (n mod 16)])"
  by pat_completeness auto
termination by (relation "measure nat") auto

declare hex_int.simps [simp del]

text \<open>\<open>std::hex << std::setfill('0') << std::setw(8) << val\<close>.\<close>

definition hex8 :: "u32 \<Rightarrow> string" where
  "hex8 v = replicate (8 - length (hex_int (uint v))) (CHR ''0'') @ hex_int (uint v)"

fun hex_regs :: "regs \<Rightarrow> string" where
  "hex_regs (h0, h1, h2, h3, h4, h5, h6, h7) =
     hex8 h0 @ hex8 h1 @ hex8 h2 @ hex8 h3 @ hex8 h4 @ hex8 h5 @ hex8 h6 @ hex8 h7"

definition sha256 :: "string \<Rightarrow> string" where
  "sha256 input = hex_regs (sha_chunks (sha_pad input) sha_init)"

definition hash_password :: "string \<Rightarrow> string" where
  "hash_password password = sha256 (''academia_salt_'' @ password)"

section \<open>The standard's recurrences\<close>

definition ref_sigma0 :: "u32 \<Rightarrow> u32" where
  "ref_sigma0 x = word_rotr 7 x XOR word_rotr 18 x XOR drop_bit 3 x"

definition ref_sigma1 :: "u32 \<Rightarrow> u32" where
  "ref_sigma1 x = word_rotr 17 x XOR word_rotr 19 x XOR drop_bit 10 x"

function ref_w :: "u8 list \<Rightarrow> nat \<Rightarrow> u32" where
  "ref_w chunk i =
     (if i < 16 then be_word chunk i
      else ref_sigma1 (ref_w chunk (i - 2)) + ref_w chunk (i - 7) +
           ref_sigma0 (ref_w chunk (i - 15)) + ref_w chunk (i - 16))"
  by pat_completeness auto
termination by (relation "measure snd") auto

declare ref_w.simps [simp del]

lemma rotr_is_word_rotr:
  assumes "0 < n" "n < 32"
  shows "rotr x n = word_rotr n x"
proof (rule bit_word_eqI)
  fix i assume "i < LENGTH(32)"
  then have i: "i < 32" by simp
  show "bit (rotr x n) i = bit (word_rotr n x) i"
  proof (cases "i + n < 32")
    case True
    moreover have "\<not> 32 - n \<le> i" using True by simp
    ultimately show ?thesis using i assms by (simp add: rotr_def bit_simps add.commute)
  next
    case False
    then have "(i + n) mod 32 = i - (32 - n)" using i assms by (simp add: mod_if)
    moreover have "\<not> bit x (n + i)" using False by (simp add: bit_word.rep_eq)
    moreover have "32 - n \<le> i" using False by simp
    ultimately show ?thesis using i assms False by (simp add: rotr_def bit_simps)
  qed
qed

lemma sched_next_recurrence:
  assumes "w = map (ref_w chunk) [0..<n]" "16 \<le> n"
  shows "sched_next w = ref_w chunk n"
  using assms
  by (subst ref_w.simps)
    (simp add: sched_next_def rotr_is_word_rotr ref_sigma0_def ref_sigma1_def Let_def ac_simps)

lemma sched_extend_recurrence:
  "16 \<le> n \<Longrightarrow> sched_extend k (map (ref_w chunk) [0..<n]) = map (ref_w chunk) [0..<n + k]"
proof (induction k arbitrary: n)
  case (Suc k)
  then have "map (ref_w chunk) [0..<n] @ [sched_next (map (ref_w chunk) [0..<n])]
      = map (ref_w chunk) [0..<Suc n]"
    by (simp add: sched_next_recurrence)
  with Suc.IH [of "Suc n"] Suc.prems show ?case by (simp del: upt_Suc)
qed simp

lemma schedule_recurrence: "schedule chunk = map (ref_w chunk) [0..<64]"
proof -
  have "map (be_word chunk) [0..<16] = map (ref_w chunk) [0..<16]"
    by (rule map_cong [OF refl]) (simp add: ref_w.simps)
  then have "schedule chunk = sched_extend 48 (map (ref_w chunk) [0..<16])"
    unfolding schedule_def by (rule arg_cong)
  also have "\<dots> = map (ref_w chunk) [0..<16 + 48]"
    by (rule sched_extend_recurrence) simp
  finally show ?thesis by (simp del: upt_rec_numeral)
qed

section \<open>Padding\<close>

definition pad_count :: "nat \<Rightarrow> nat" where
  "pad_count n = (if n mod 64 \<le> 56 then 56 - n mod 64 else 120 - n mod 64)"

lemma pad_count_Suc: "n mod 64 \<noteq> 56 \<Longrightarrow> pad_count n = Suc (pad_count (Suc n))"
proof -
  assume "n mod 64 \<noteq> 56"
  moreover have "n mod 64 < 64" by simp
  ultimately show ?thesis by (auto simp: pad_count_def mod_Suc)
qed

lemma pad_zeros_closed: "pad_zeros msg = msg @ replicate (pad_count (length msg)) 0"
proof (induction msg rule: pad_zeros.induct)
  case (1 msg)
  show ?case
  proof (cases "length msg mod 64 = 56")
    case True
    then show ?thesis by (simp add: pad_zeros.simps pad_count_def)
  next
    case False
    then show ?thesis using 1 pad_count_Suc [OF False] by (simp add: pad_zeros.simps [of msg])
  qed
qed

lemma pad_count_mod: "(n + pad_count n) mod 64 = 56"
proof -
  define q r where "q = n div 64" and "r = n mod 64"
  have n: "n = 64 * q + r" and r: "r < 64" by (simp_all add: q_def r_def)
  have c: "pad_count n = (if r \<le> 56 then 56 - r else 120 - r)"
    unfolding pad_count_def r_def by (rule refl)
  have "n + pad_count n = 56 + 64 * q \<or> n + pad_count n = 56 + 64 * (q + 1)"
    unfolding c using n r by (cases "r \<le> 56") simp_all
  then show ?thesis by (elim disjE) (simp_all only: mod_mult_self2, simp_all)
qed

lemma pad_count_less: "pad_count n < 64"
proof -
  have "n mod 64 < 64" by simp
  then show ?thesis by (auto simp: pad_count_def)
qed

lemma length_msg_bytes [simp]: "length (msg_bytes s) = length s"
  by (simp add: msg_bytes_def)

lemma length_len_bytes [simp]: "length (len_bytes v) = 8"
  by (simp add: len_bytes_def)

lemma sha_pad_closed:
  "sha_pad s = msg_bytes s @ [0x80] @ replicate (pad_count (Suc (length s))) 0
      @ len_bytes (of_nat (length s * 8))"
  by (simp add: sha_pad_def pad_zeros_closed msg_bytes_def Let_def)

lemma sha_pad_length: "length (sha_pad s) mod 64 = 0"
proof -
  let ?n = "Suc (length s)"
  have "length (sha_pad s) = (?n + pad_count ?n) + 8"
    by (simp add: sha_pad_closed)
  then have "length (sha_pad s) mod 64 = ((?n + pad_count ?n) mod 64 + 8) mod 64"
    by (simp only: mod_add_left_eq)
  also have "\<dots> = (56 + 8) mod 64" by (simp only: pad_count_mod)
  finally show ?thesis by simp
qed

text \<open>The number the eight length bytes encode, most significant byte first.\<close>

definition be_value :: "u8 list \<Rightarrow> nat" where
  "be_value bs = fold (\<lambda>b n. n * 256 + unat b) bs 0"

section \<open>The digest as text\<close>

definition lower_hex :: "char \<Rightarrow> bool" where
  "lower_hex c \<longleftrightarrow> c \<in> set ''0123456789abcdef''"

lemma lower_hex_not_nul: "list_all lower_hex s \<Longrightarrow> CHR 0x00 \<notin> set s"
proof -
  have "\<not> lower_hex (CHR 0x00)" by code_simp
  then show "list_all lower_hex s \<Longrightarrow> CHR 0x00 \<notin> set s" unfolding list_all_iff by blast
qed

lemma hex_digit_lower:
  assumes "0 \<le> d" "d < 16"
  shows "lower_hex (hex_digit d)"
proof -
  have "nat d < 16" using assms by linarith
  then have "nat d < length ''0123456789abcdef''" by simp
  then show ?thesis unfolding lower_hex_def hex_digit_def by (rule nth_mem)
qed

lemma hex_int_lower: "0 \<le> n \<Longrightarrow> list_all lower_hex (hex_int n)"
proof (induction n rule: hex_int.induct)
  case (1 n)
  show ?case
  proof (cases "n < 16")
    case True
    then show ?thesis using 1 by (subst hex_int.simps) (simp add: hex_digit_lower)
  next
    case False
    then show ?thesis using 1 by (subst hex_int.simps) (simp add: hex_digit_lower)
  qed
qed

lemma hex_int_length: "n < 16 ^ Suc k \<Longrightarrow> length (hex_int n) \<le> Suc k"
proof (induction k arbitrary: n)
  case 0
  then show ?case by (simp add: hex_int.simps)
next
  case (Suc k)
  then have "n div 16 < 16 ^ Suc k" by (simp add: div_less_iff_less_mult mult.commute)
  then have "length (hex_int (n div 16)) \<le> Suc k" by (rule Suc.IH)
  then show ?case by (subst hex_int.simps) simp
qed

lemma hex8_shape: "length (hex8 v) = 8" "list_all lower_hex (hex8 v)"
proof -
  have "uint v < 16 ^ Suc 7" using uint_lt2p [of v] by simp
  then have "length (hex_int (uint v)) \<le> Suc 7" by (rule hex_int_length)
  then show "length (hex8 v) = 8" by (simp add: hex8_def)
  have "list_all lower_hex (replicate n (CHR ''0''))" for n
    by (induction n) (simp_all add: lower_hex_def)
  then show "list_all lower_hex (hex8 v)" by (simp add: hex8_def hex_int_lower)
qed

lemma sha256_shape: "length (sha256 s) = 64" "list_all lower_hex (sha256 s)"
proof -
  obtain a b c d e f g h where r: "sha_chunks (sha_pad s) sha_init = (a, b, c, d, e, f, g, h)"
    by (rule hex_regs.cases)
  show "length (sha256 s) = 64" unfolding sha256_def r by (simp only: hex_regs.simps length_append hex8_shape)
  show "list_all lower_hex (sha256 s)"
    unfolding sha256_def r by (simp only: hex_regs.simps list_all_append hex8_shape simp_thms)
qed

lemma hash_password_c_str [simp]: "c_str (hash_password p) = hash_password p"
  unfolding hash_password_def by (intro c_str_id lower_hex_not_nul sha256_shape)

section \<open>The standard's hash\<close>

fun ref_state :: "(nat \<Rightarrow> u32) \<Rightarrow> regs \<Rightarrow> nat \<Rightarrow> regs" where
  "ref_state w v 0 = v"
| "ref_state w v (Suc t) =
     (case ref_state w v t of (a, b, c, d, e, f, g, h) \<Rightarrow>
        let big1 = word_rotr 6 e XOR word_rotr 11 e XOR word_rotr 25 e;
            big0 = word_rotr 2 a XOR word_rotr 13 a XOR word_rotr 22 a;
            t1 = h + big1 + ((e AND f) XOR (NOT e AND g)) + sha_k ! t + w t;
            t2 = big0 + ((a AND b) XOR (a AND c) XOR (b AND c))
        in (t1 + t2, a, b, c, d + t1, e, f, g))"

definition ref_blocks :: "u8 list \<Rightarrow> u8 list list" where
  "ref_blocks m = map (\<lambda>i. take 64 (drop (64 * i) m)) [0..<length m div 64]"

definition ref_padded :: "string \<Rightarrow> u8 list" where
  "ref_padded s = msg_bytes s @ [0x80] @ replicate ((119 - length s mod 64) mod 64) 0
     @ len_bytes (of_nat (length s * 8))"

definition ref_sha256 :: "string \<Rightarrow> string" where
  "ref_sha256 s = hex_regs (fold (\<lambda>block h. add_regs h (ref_state (ref_w block) h 64))
     (ref_blocks (ref_padded s)) sha_init)"

lemma sha_round_ref_state: "sha_round (sha_k ! t, w t) (ref_state w v t) = ref_state w v (Suc t)"
  by (cases "ref_state w v t" rule: hex_regs.cases)
    (simp add: Let_def rotr_is_word_rotr)

lemma length_sha_k [simp]: "length sha_k = 64"
  by (simp add: sha_k_def)

lemma rounds_ref_state:
  "n \<le> 64 \<Longrightarrow> fold sha_round (zip (take n sha_k) (map w [0..<n])) v = ref_state w v n"
proof (induction n)
  case (Suc n)
  then have "zip (take (Suc n) sha_k) (map w [0..<Suc n]) =
      zip (take n sha_k) (map w [0..<n]) @ [(sha_k ! n, w n)]"
    by (simp add: take_Suc_conv_app_nth)
  with Suc show ?case by (simp only: fold_append o_apply fold_simps sha_round_ref_state id_apply Suc_leD)
qed simp

lemma sha_chunk_ref: "sha_chunk chunk h = add_regs h (ref_state (ref_w chunk) h 64)"
  unfolding sha_chunk_def schedule_recurrence
  using rounds_ref_state [of 64 "ref_w chunk" h] by (simp only: order_refl take_all length_sha_k)

lemma sha_chunks_blocks:
  "length m = 64 * n \<Longrightarrow> sha_chunks m h = fold sha_chunk (ref_blocks m) h"
proof (induction n arbitrary: m h)
  case 0
  then show ?case by (simp add: sha_chunks.simps ref_blocks_def)
next
  case (Suc n)
  have div: "length m div 64 = Suc n" "length (drop 64 m) div 64 = n"
    using Suc.prems by simp_all
  have "ref_blocks m = take 64 m # ref_blocks (drop 64 m)"
    unfolding ref_blocks_def div
    by (simp only: upt_conv_Cons [OF zero_less_Suc] map_Suc_upt [symmetric] list.map map_map o_def)
      (simp add: add.commute)
  moreover have "sha_chunks m h = sha_chunks (drop 64 m) (sha_chunk (take 64 m) h)"
    using Suc.prems by (subst sha_chunks.simps) auto
  moreover have "length (drop 64 m) = 64 * n" using Suc.prems by simp
  ultimately show ?case using Suc.IH by simp
qed

lemma pad_count_ref: "pad_count (Suc n) = (119 - n mod 64) mod 64"
proof -
  define r where "r = n mod 64"
  have r: "r < 64" by (simp add: r_def)
  have s: "Suc n mod 64 = (if r = 63 then 0 else Suc r)" by (simp add: mod_Suc r_def)
  show ?thesis
  proof (cases "r \<le> 55")
    case True
    then have "119 - r = (55 - r) + 64" by simp
    then have "(119 - r) mod 64 = 55 - r" by (simp only: mod_add_self2) simp
    moreover have "pad_count (Suc n) = 55 - r" unfolding pad_count_def s using True by simp
    ultimately show ?thesis unfolding r_def by simp
  next
    case False
    then have "(119 - r) mod 64 = 119 - r" by simp
    moreover have "pad_count (Suc n) = 119 - r" unfolding pad_count_def s using False r by auto
    ultimately show ?thesis unfolding r_def by simp
  qed
qed

end
