(* ===== verification/Auth_Service.thy ===== *)
theory Auth_Service
  imports Sample_Database Sha256
begin

text \<open>
  \<^verbatim>\<open>backend/include/services/AuthService.hpp\<close> (login, logout, tokens, roles; the hash is in
  theory Sha256) and \<^verbatim>\<open>backend/include/middleware/AuthMiddleware.hpp\<close>. The generator
  \<open>std::mt19937\<close> behind \<open>generate_token\<close> is the parameter \<open>draws\<close>: the digits, from 0 to 15, that
  \<open>dist(gen)\<close> yields during one call.

  The locale \<open>session_store\<close> is the contract the service expects of the session table. Its
  lemma \<open>sessions_are_a_map\<close> shows that any sequence of logins and logouts behaves as a map
  from tokens to users; the interpretation on the user repository discharges the laws.
\<close>

section \<open>The service\<close>

record LoginResult =
  lr_success :: bool
  lr_token :: string
  lr_user :: User
  lr_error :: string

definition login_refused :: "string \<Rightarrow> LoginResult" where
  "login_refused err = \<lparr>lr_success = False, lr_token = [], lr_user = User_default, lr_error = err\<rparr>"

definition generate_token :: "(nat \<Rightarrow> 4 word) \<Rightarrow> string" where
  "generate_token draws = concat (map (\<lambda>i. hex_int (uint (draws i))) [0..<64])"

definition login :: "string \<Rightarrow> string \<Rightarrow> (nat \<Rightarrow> 4 word) \<Rightarrow> (conn, LoginResult) op" where
  "login username password draws =
     xbind (xget (\<lambda>s. user_find_by_username username (db_tabs s))) (\<lambda>user_opt. case user_opt of
         None \<Rightarrow> xret (login_refused ''Invalid username or password'')
       | Some user \<Rightarrow>
           if \<not> u_active user then xret (login_refused ''Account is deactivated'')
           else if hash_password password \<noteq> u_password_hash user
           then xret (login_refused ''Invalid username or password'')
           else (\<lambda>s. let token = generate_token draws in
             (Inr \<lparr>lr_success = True, lr_token = token, lr_user = user, lr_error = []\<rparr>,
              create_session token (u_id user) s)))"

definition logout :: "string \<Rightarrow> conn \<Rightarrow> bool \<times> conn" where
  "logout token s = (True, delete_session token s)"

definition validate_token :: "string \<Rightarrow> conn \<Rightarrow> User option exc" where
  "validate_token token s = (case validate_session token s of
       None \<Rightarrow> Inr None
     | Some user_id \<Rightarrow> user_find_by_id user_id (db_tabs s))"

definition has_role :: "User \<Rightarrow> Role \<Rightarrow> bool" where
  "has_role user required = (if u_role user = Admin then True else u_role user = required)"

section \<open>The middleware\<close>

definition authenticate_request :: "string \<Rightarrow> conn \<Rightarrow> User option exc" where
  "authenticate_request auth_header s =
     (if auth_header = [] then Inr None
      else let prefix = ''Bearer '' in
        if take (length prefix) auth_header \<noteq> prefix then Inr None
        else let token = drop (length prefix) auth_header in
          if token = [] then Inr None else validate_token token s)"

definition error_response :: "'j json_api \<Rightarrow> string \<Rightarrow> int \<Rightarrow> 'j" where
  "error_response api message status = j_obj api
     [(''success'', j_bool api False), (''error'', j_str api message), (''status'', j_int api status)]"

definition success_response :: "'j json_api \<Rightarrow> 'j \<Rightarrow> string \<Rightarrow> 'j" where
  "success_response api data message =
     (let response = [(''success'', j_bool api True), (''message'', j_str api message)] in
      if j_is_null api data then j_obj api response else j_obj api (response @ [(''data'', data)]))"

section \<open>Tokens\<close>

lemma generate_token_shape:
  "length (generate_token draws) = 64" "list_all lower_hex (generate_token draws)"
proof -
  have d: "hex_int (uint v) = [hex_digit (uint v)] \<and> lower_hex (hex_digit (uint v))" for v :: "4 word"
  proof -
    have "uint v < 16" using uint_lt2p [of v] by simp
    then show ?thesis by (simp add: hex_int.simps hex_digit_lower)
  qed
  have "length (concat (map (\<lambda>i. hex_int (uint (draws i))) is)) = length is \<and>
      list_all lower_hex (concat (map (\<lambda>i. hex_int (uint (draws i))) is))" for "is"
    by (induction "is") (simp_all add: d)
  from this [of "[0..<64]"]
  show "length (generate_token draws) = 64" "list_all lower_hex (generate_token draws)"
    by (simp_all add: generate_token_def)
qed

lemma generate_token_c_str [simp]: "c_str (generate_token draws) = generate_token draws"
  by (intro c_str_id lower_hex_not_nul generate_token_shape)

lemma generate_token_not_Nil [simp]: "generate_token draws \<noteq> []"
  using generate_token_shape(1) [of draws] by force

lemma authenticate_bearer:
  "token \<noteq> [] \<Longrightarrow> authenticate_request (''Bearer '' @ token) s = validate_token token s"
  by (simp add: authenticate_request_def Let_def)

section \<open>The contract of the session table\<close>

datatype session_op = Open_Session string int | Close_Session string

locale session_store =
  fixes create :: "string \<Rightarrow> int \<Rightarrow> 's \<Rightarrow> 's"
    and delete :: "string \<Rightarrow> 's \<Rightarrow> 's"
    and validate :: "string \<Rightarrow> 's \<Rightarrow> int option"
    and key :: "string \<Rightarrow> string"
    and good :: "int set \<Rightarrow> 's \<Rightarrow> bool"
  assumes create_good: "good K s \<Longrightarrow> i \<in> K \<Longrightarrow> good K (create tok i s)"
    and delete_good: "good K s \<Longrightarrow> good K (delete tok s)"
    and validate_create: "good K s \<Longrightarrow> i \<in> K \<Longrightarrow>
      validate t (create tok i s) = (if key t = key tok then Some i else validate t s)"
    and validate_delete: "good K s \<Longrightarrow>
      validate t (delete tok s) = (if key t = key tok then None else validate t s)"
begin

fun run_op :: "session_op \<Rightarrow> 's \<Rightarrow> 's" where
  "run_op (Open_Session tok i) s = create tok i s"
| "run_op (Close_Session tok) s = delete tok s"

fun map_op :: "session_op \<Rightarrow> (string \<rightharpoonup> int) \<Rightarrow> (string \<rightharpoonup> int)" where
  "map_op (Open_Session tok i) m = m(key tok \<mapsto> i)"
| "map_op (Close_Session tok) m = m(key tok := None)"

fun op_known :: "int set \<Rightarrow> session_op \<Rightarrow> bool" where
  "op_known K (Open_Session tok i) = (i \<in> K)"
| "op_known K (Close_Session tok) = True"

lemma run_op_good: "good K s \<Longrightarrow> op_known K p \<Longrightarrow> good K (run_op p s)"
  by (cases p) (simp_all add: create_good delete_good)

lemma sessions_are_a_map:
  assumes "good K s" "\<forall>p \<in> set ps. op_known K p" "\<And>t. validate t s = m (key t)"
  shows "validate t (fold run_op ps s) = fold map_op ps m (key t)"
  using assms
proof (induction ps arbitrary: s m)
  case (Cons p ps)
  have "validate t (run_op p s) = map_op p m (key t)" for t
    using Cons.prems by (cases p) (simp_all add: validate_create validate_delete)
  then show ?case using Cons run_op_good by simp
qed simp

end

text \<open>
  The repository's table meets the contract for every database whose users include \<open>K\<close>
  and whose clock renders the next day as a later text.
\<close>

definition session_table_ok :: "int set \<Rightarrow> conn \<Rightarrow> bool" where
  "session_table_ok K s \<longleftrightarrow> K \<subseteq> user_ids (db_tabs s) \<and> db_now s < db_tomorrow s"

lemma find_append: "find P (xs @ ys) = (case find P xs of Some x \<Rightarrow> Some x | None \<Rightarrow> find P ys)"
  by (induction xs) simp_all

lemma find_sql_delete:
  "(\<And>r. r \<in> set rs \<Longrightarrow> P r \<Longrightarrow> \<not> Q r) \<Longrightarrow> find P (sql_delete Q rs) = find P rs"
  by (induction rs) (auto simp: sql_delete_def)

lemma find_sql_delete_None:
  "(\<And>r. r \<in> set rs \<Longrightarrow> P r \<Longrightarrow> Q r) \<Longrightarrow> find P (sql_delete Q rs) = None"
  by (auto simp: find_None_iff)

lemma create_session_tabs:
  assumes "i \<in> user_ids (db_tabs s)"
  shows "\<exists>n. t_sessions (db_tabs (create_session tok i s)) =
    sql_delete (\<lambda>q. sr_token q = c_str tok) (t_sessions (db_tabs s)) @
    [\<lparr>sr_rowid = n, sr_token = c_str tok, sr_user_id = i, sr_created_at = db_now s,
      sr_expires_at = Some (db_tomorrow s)\<rparr>]"
    "t_users (db_tabs (create_session tok i s)) = t_users (db_tabs s)"
  using assms by (simp_all add: create_session_def step_insert_def replace_session_row_def Let_def)

lemma create_session_users [simp]:
  "t_users (db_tabs (create_session tok i s)) = t_users (db_tabs s)"
  by (auto simp: create_session_def step_insert_def replace_session_row_def Let_def split: option.split)

lemma create_session_frame [simp]: "stmt_frame s (create_session tok i s)"
  by (simp add: create_session_def)

lemma delete_session_frame [simp]: "stmt_frame s (delete_session tok s)"
  by (simp add: delete_session_def)

lemma stmt_frame_clock:
  assumes "stmt_frame s s'"
  shows "db_now s' = db_now s" "db_tomorrow s' = db_tomorrow s"
  using assms by (simp_all add: stmt_frame_def db_now_def db_tomorrow_def)

lemma delete_session_tabs [simp]:
  "db_tabs (delete_session tok s) = (db_tabs s)
     \<lparr>t_sessions := sql_delete (\<lambda>r. sr_token r = c_str tok) (t_sessions (db_tabs s))\<rparr>"
  by (simp add: delete_session_def step_write_def delete_session_rows_def)

text \<open>A new session at a later instant: valid strictly before its expiry text.\<close>

lemma validate_created:
  assumes "i \<in> user_ids (db_tabs s)"
  shows "validate_session t ((create_session tok i s)\<lparr>db_clock := c\<rparr>) =
    (if c_str t = c_str tok
     then (if db_datetime s c < db_tomorrow s then Some i else None)
     else validate_session t (s\<lparr>db_clock := c\<rparr>))"
proof -
  let ?s' = "(create_session tok i s)\<lparr>db_clock := c\<rparr>"
  have dt: "db_datetime (create_session tok i s) = db_datetime s"
    using create_session_frame [of s tok i] by (simp add: stmt_frame_def del: create_session_frame)
  obtain n where n: "t_sessions (db_tabs (create_session tok i s)) =
      sql_delete (\<lambda>q. sr_token q = c_str tok) (t_sessions (db_tabs s)) @
      [\<lparr>sr_rowid = n, sr_token = c_str tok, sr_user_id = i, sr_created_at = db_now s,
        sr_expires_at = Some (db_tomorrow s)\<rparr>]"
    using create_session_tabs(1) [OF assms] by blast
  let ?P = "\<lambda>r. sr_token r = c_str t \<and> session_live (db_datetime s c) r"
  show ?thesis
  proof (cases "c_str t = c_str tok")
    case True
    then have "find ?P (sql_delete (\<lambda>q. sr_token q = c_str tok) (t_sessions (db_tabs s))) = None"
      by (intro find_sql_delete_None) simp
    with True n dt show ?thesis
      by (simp add: validate_session_def db_now_def find_append session_live_def)
  next
    case False
    then have "find ?P (sql_delete (\<lambda>q. sr_token q = c_str tok) (t_sessions (db_tabs s)))
        = find ?P (t_sessions (db_tabs s))"
      by (intro find_sql_delete) auto
    with False n dt show ?thesis
      by (simp add: validate_session_def db_now_def find_append split: option.split)
  qed
qed

lemma set_clock_id: "stmt_frame s s' \<Longrightarrow> s'\<lparr>db_clock := db_clock s\<rparr> = s'"
  by (simp add: stmt_frame_def)

lemma validate_created_now:
  assumes "i \<in> user_ids (db_tabs s)" "db_now s < db_tomorrow s"
  shows "validate_session t (create_session tok i s) =
    (if c_str t = c_str tok then Some i else validate_session t s)"
  using validate_created [OF assms(1), where t = t and tok = tok and c = "db_clock s"] assms(2)
  by (simp add: set_clock_id [OF create_session_frame] db_now_def)

lemma validate_deleted:
  "validate_session t (delete_session tok s) =
    (if c_str t = c_str tok then None else validate_session t s)"
proof -
  have n: "db_now (delete_session tok s) = db_now s"
    by (rule stmt_frame_clock(1) [OF delete_session_frame])
  show ?thesis
  proof (cases "c_str t = c_str tok")
    case True
    then show ?thesis
      by (simp add: validate_session_def n) (rule find_sql_delete_None, simp)
  next
    case False
    then show ?thesis
      by (simp add: validate_session_def n)
        (subst find_sql_delete, auto)
  qed
qed

interpretation sessions: session_store create_session delete_session validate_session c_str session_table_ok
proof unfold_locales
  fix K s i tok
  assume g: "session_table_ok K s" "i \<in> K"
  then show "session_table_ok K (create_session tok i s)"
    using stmt_frame_clock [OF create_session_frame [of s tok i]]
    by (simp add: session_table_ok_def user_ids_def)
  fix t
  show "validate_session t (create_session tok i s) =
      (if c_str t = c_str tok then Some i else validate_session t s)"
    using g by (intro validate_created_now) (auto simp: session_table_ok_def)
next
  fix K s tok
  assume "session_table_ok K s"
  then show "session_table_ok K (delete_session tok s)"
    using stmt_frame_clock [OF delete_session_frame [of s tok]]
    by (simp add: session_table_ok_def user_ids_def)
next
  fix K s t tok
  show "validate_session t (delete_session tok s) =
      (if c_str t = c_str tok then None else validate_session t s)"
    by (rule validate_deleted)
qed

end
