(* ===== verification/Course_Service.thy ===== *)
theory Course_Service
  imports Auth_Service
begin

text \<open>
  \<^verbatim>\<open>backend/include/services/CourseService.hpp\<close>: the course catalogue with its role checks
  and validations, and the schema facts that make it correct. The utilization percentage is a
  \<open>real\<close>; the rounding of \<open>double\<close> is not modelled.
\<close>

record CourseResult =
  cres_success :: bool
  cres_course_id :: int
  cres_error :: string

definition course_error :: "string \<Rightarrow> CourseResult" where
  "course_error err = \<lparr>cres_success = False, cres_course_id = 0, cres_error = err\<rparr>"

definition course_done :: "int \<Rightarrow> CourseResult" where
  "course_done i = \<lparr>cres_success = True, cres_course_id = i, cres_error = []\<rparr>"

definition get_all_courses :: "tables \<Rightarrow> Course list" where
  "get_all_courses t = course_find_all t"

definition get_course :: "int \<Rightarrow> tables \<Rightarrow> Course option" where
  "get_course i t = course_find_by_id i t"

definition search_courses :: "string \<Rightarrow> tables \<Rightarrow> Course list" where
  "search_courses query t = course_search query t"

definition get_faculty_courses :: "int \<Rightarrow> tables \<Rightarrow> Course list" where
  "get_faculty_courses faculty_id t = course_find_by_faculty faculty_id t"

definition create_course :: "Course \<Rightarrow> User \<Rightarrow> conn \<Rightarrow> CourseResult \<times> conn" where
  "create_course course requester s =
     (if u_role requester \<noteq> Admin \<and> u_role requester \<noteq> Faculty
      then (course_error ''Unauthorized: only admin or faculty can create courses'', s)
      else if c_course_code course = [] then (course_error ''Course code is required'', s)
      else if c_course_name course = [] then (course_error ''Course name is required'', s)
      else if c_capacity course \<le> 0 then (course_error ''Capacity must be positive'', s)
      else if c_credits course \<le> 0 \<or> 6 < c_credits course
      then (course_error ''Credits must be between 1 and 6'', s)
      else if course_find_by_code (c_course_code course) (db_tabs s) \<noteq> None
      then (course_error ''Course code already exists'', s)
      else (case course_create course s of
          (Inr i, s') \<Rightarrow> (course_done i, s')
        | (Inl e, s') \<Rightarrow> (course_error ''Failed to create course'', s')))"

definition update_course :: "Course \<Rightarrow> User \<Rightarrow> conn \<Rightarrow> CourseResult \<times> conn" where
  "update_course course requester s =
     (case course_find_by_id (c_id course) (db_tabs s) of
        None \<Rightarrow> (course_error ''Course not found'', s)
      | Some existing \<Rightarrow>
          if u_role requester = Faculty \<and> c_faculty_id existing \<noteq> u_id requester
          then (course_error ''You can only update your own courses'', s)
          else if c_course_name course = [] then (course_error ''Course name is required'', s)
          else if c_capacity course \<le> 0 then (course_error ''Capacity must be positive'', s)
          else let enrolled = get_enrolled_count (c_id course) (db_tabs s) in
            if c_capacity course < enrolled
            then (course_error (''Cannot reduce capacity below current enrollment ('' @
                    to_string enrolled @ '')''), s)
            else (course_done (c_id course), snd (course_update course s)))"

definition delete_course :: "int \<Rightarrow> User \<Rightarrow> conn \<Rightarrow> CourseResult \<times> conn" where
  "delete_course i requester s =
     (let refusal = (if u_role requester \<noteq> Admin then
            (case course_find_by_id i (db_tabs s) of
               None \<Rightarrow> Some ''Course not found''
             | Some existing \<Rightarrow>
                 if u_role requester = Faculty \<and> c_faculty_id existing \<noteq> u_id requester
                 then Some ''You can only delete your own courses'' else None)
          else None)
      in case refusal of
           Some err \<Rightarrow> (course_error err, s)
         | None \<Rightarrow> (course_done i, snd (course_remove i s)))"

definition get_course_statistics :: "'j json_api \<Rightarrow> int \<Rightarrow> tables \<Rightarrow> 'j" where
  "get_course_statistics api course_id t = (case course_find_by_id course_id t of
       None \<Rightarrow> j_obj api [(''error'', j_str api ''Course not found'')]
     | Some course \<Rightarrow>
         let students = reg_find_by_course course_id ''active'' t;
             utilization = (if 0 < c_capacity course
               then of_int (c_enrolled_count course) / of_int (c_capacity course) * 100 else 0)
         in j_obj api
              [(''course'', Course_to_json api course),
               (''enrolled_students'', j_int api (to_i32 (int (length students)))),
               (''utilization_percent'', j_real api utilization),
               (''available_seats'', j_int api (c_capacity course - c_enrolled_count course))])"

section \<open>What the service keeps\<close>

text \<open>The values the \<open>int\<close> members of a C++ \<open>Course\<close> can hold.\<close>

definition course_ints :: "Course \<Rightarrow> bool" where
  "course_ints c \<longleftrightarrow> to_i32 (c_capacity c) = c_capacity c \<and> to_i32 (c_credits c) = c_credits c"

lemma read_field_Inr:
  assumes "read_field api j k get upd x = Inr y"
  shows "y = x \<or> (\<exists>v w. get w = Inr v \<and> y = upd v x)"
  using assms by (auto simp: read_field_def emap_Inr_iff split: if_splits)

lemma get_i32_Inr: "get_i32 api w = Inr v \<Longrightarrow> to_i32 v = v"
  by (auto simp: get_i32_def emap_Inr_iff)

lemma course_ints_updates [simp]:
  "course_ints (c\<lparr>c_id := i\<rparr>) = course_ints c"
  "course_ints (c\<lparr>c_course_code := x\<rparr>) = course_ints c"
  "course_ints (c\<lparr>c_course_name := x\<rparr>) = course_ints c"
  "course_ints (c\<lparr>c_schedule := x\<rparr>) = course_ints c"
  "course_ints (c\<lparr>c_faculty_id := i\<rparr>) = course_ints c"
  by (simp_all add: course_ints_def)

lemma read_field_course_ints:
  assumes "read_field api j k get upd c = Inr c'" "course_ints c"
    and "\<And>v w. get w = Inr v \<Longrightarrow> course_ints (upd v c)"
  shows "course_ints c'"
  using read_field_Inr [OF assms(1)] assms(2,3) by auto

lemma Course_from_json_ints:
  assumes "Course_from_json api j = Inr c"
  shows "course_ints c"
proof -
  have "to_i32 3 = 3" by (rule to_i32_id) (simp_all add: i32_max_def)
  moreover have "to_i32 0 = 0" by (rule to_i32_id) (simp_all add: i32_max_def)
  ultimately have d: "course_ints Course_default" by (simp add: course_ints_def Course_default_def)
  obtain c1 c2 c3 c4 c5 c6 where
    "read_field api j ''id'' (as_int api) (\<lambda>v c. c\<lparr>c_id := v\<rparr>) Course_default = Inr c1"
    "read_field api j ''course_code'' (as_string api) (\<lambda>v c. c\<lparr>c_course_code := v\<rparr>) c1 = Inr c2"
    "read_field api j ''course_name'' (as_string api) (\<lambda>v c. c\<lparr>c_course_name := v\<rparr>) c2 = Inr c3"
    and c4: "read_field api j ''credits'' (get_i32 api) (\<lambda>v c. c\<lparr>c_credits := v\<rparr>) c3 = Inr c4"
    and c5: "read_field api j ''faculty_id'' (as_int api) (\<lambda>v c. c\<lparr>c_faculty_id := v\<rparr>) c4 = Inr c5"
    and c6: "read_field api j ''capacity'' (get_i32 api) (\<lambda>v c. c\<lparr>c_capacity := v\<rparr>) c5 = Inr c6"
    and c7: "read_field api j ''schedule'' (as_string api) (\<lambda>v c. c\<lparr>c_schedule := v\<rparr>) c6 = Inr c"
    using assms unfolding Course_from_json_def ebind_Inr_iff by blast
  then have c3: "course_ints c3" using d by (auto dest!: read_field_Inr)
  have "course_ints c4"
    by (rule read_field_course_ints [OF c4 c3]) (use c3 in \<open>auto simp: course_ints_def dest: get_i32_Inr\<close>)
  then have "course_ints c5" using c5 by (auto dest!: read_field_Inr)
  then have "course_ints c6"
    by (rule read_field_course_ints [OF c6])
      (use \<open>course_ints c5\<close> in \<open>auto simp: course_ints_def dest: get_i32_Inr\<close>)
  then show ?thesis using c7 by (auto dest!: read_field_Inr)
qed

lemma create_course_db_ok [wf_rules]:
  assumes "db_ok (db_tabs s)"
  shows "db_ok (db_tabs (snd (create_course c u s)))"
proof -
  have "snd (create_course c u s) = s \<or> snd (create_course c u s) = snd (course_create c s)"
    by (auto simp: create_course_def split: prod.split sum.split)
  then show ?thesis using course_create_db_ok [OF assms] assms by auto
qed

lemma create_course_frame: "stmt_frame s (snd (create_course c u s))"
proof -
  have "snd (create_course c u s) = s \<or> snd (create_course c u s) = snd (course_create c s)"
    by (auto simp: create_course_def split: prod.split sum.split)
  then show ?thesis by (auto simp: snd_course_create)
qed

lemma update_course_cases:
  obtains (refused) e where "update_course c u s = (course_error e, s)"
  | (written) r where "update_course c u s = (course_done (c_id c), snd (course_update c s))"
      "course_find_by_id (c_id c) (db_tabs s) = Some r"
      "u_role u = Faculty \<Longrightarrow> c_faculty_id r = u_id u" "c_course_name c \<noteq> []"
      "0 < c_capacity c" "get_enrolled_count (c_id c) (db_tabs s) \<le> c_capacity c"
proof (cases "course_find_by_id (c_id c) (db_tabs s)")
  case None
  then show ?thesis using refused by (simp add: update_course_def)
next
  case (Some r)
  let ?refusal = "(u_role u = Faculty \<and> c_faculty_id r \<noteq> u_id u) \<or> c_course_name c = [] \<or>
      c_capacity c \<le> 0 \<or> c_capacity c < get_enrolled_count (c_id c) (db_tabs s)"
  show ?thesis
  proof (cases ?refusal)
    case True
    then have "\<exists>e. update_course c u s = (course_error e, s)"
      using Some by (auto simp only: update_course_def Let_def option.case if_True if_False split: if_split)
    then show ?thesis using refused by blast
  next
    case False
    then have "update_course c u s = (course_done (c_id c), snd (course_update c s))"
      using Some by (auto simp: update_course_def Let_def not_less)
    then show ?thesis using written [OF _ Some] False by (auto simp: not_le not_less)
  qed
qed

lemma update_course_db_ok [wf_rules]:
  assumes "db_ok (db_tabs s)" "course_ints c"
  shows "db_ok (db_tabs (snd (update_course c u s)))"
proof (cases rule: update_course_cases [of c u s])
  case (refused e)
  then show ?thesis using assms(1) by simp
next
  case (written r)
  then have "c_id c \<in> course_ids (db_tabs s)"
    using course_find_by_id_None_iff [of "c_id c" "db_tabs s"] by auto
  then have "active_count (db_tabs s) (c_id c) \<le> to_i32 (c_capacity c)"
    using written(6) enrolled_count_read [OF assms(1)] assms(2) by (simp add: course_ints_def)
  then show ?thesis using written(1) course_update_db_ok [OF assms(1)] by simp
qed

lemma update_course_frame: "stmt_frame s (snd (update_course c u s))"
  by (cases rule: update_course_cases [of c u s]) (simp_all add: course_update_def)


lemma snd_delete_course: "snd (delete_course i u s) = s \<or> snd (delete_course i u s) = snd (course_remove i s)"
  by (auto simp: delete_course_def Let_def split: option.split)

lemma delete_course_db_ok [wf_rules]:
  assumes "db_ok (db_tabs s)"
  shows "db_ok (db_tabs (snd (delete_course i u s)))"
  using snd_delete_course [of i u s] course_remove_db_ok [OF assms] assms by auto

lemma delete_course_frame: "stmt_frame s (snd (delete_course i u s))"
  using snd_delete_course [of i u s] by (auto simp: course_remove_def)

end
