(* ===== verification/Auth_Correctness.thy ===== *)
theory Auth_Correctness
  imports Course_Service
begin

text \<open>
  What authentication promises: the hash is the standard's, a login succeeds exactly for the
  stored credentials of an active account and its token then authenticates that account,
  sessions are a map from tokens to users with an expiry, and what deactivating an account
  does not do.
\<close>

section \<open>The hash\<close>


section \<open>Login\<close>

definition has_credentials :: "string \<Rightarrow> string \<Rightarrow> tables \<Rightarrow> bool" where
  "has_credentials name pw t \<longleftrightarrow> (\<exists>q \<in> set (t_users t). ur_username q = c_str name \<and>
     ur_active q \<noteq> 0 \<and> ur_password_hash q = hash_password pw)"

definition is_deactivated :: "string \<Rightarrow> tables \<Rightarrow> bool" where
  "is_deactivated name t \<longleftrightarrow> (\<exists>q \<in> set (t_users t). ur_username q = c_str name \<and> ur_active q = 0)"

lemma find_username:
  assumes "wf_tables t" "q \<in> set (t_users t)" "ur_username q = c_str name"
  shows "\<exists>u. user_find_by_username name t = Inr (Some u) \<and> row_to_user q = Inr u \<and> u_id u = ur_id q"
proof -
  obtain u where u: "row_to_user q = Inr u" "u_id u = ur_id q"
    using row_to_user_total [OF assms(1,2)] by blast
  have "find (\<lambda>r. ur_username r = ur_username q) (t_users t) = Some q"
    by (rule find_key_Some [OF wf_distinct(2) [OF assms(1)] assms(2)])
  then show ?thesis using u assms(3) by (simp add: user_find_by_username_def first_user_def)
qed

lemma row_to_user_fields:
  assumes "row_to_user q = Inr u"
  shows "u_id u = ur_id q" "u_active u \<longleftrightarrow> ur_active q \<noteq> 0" "u_password_hash u = ur_password_hash q"
    "u_username u = ur_username q" "ur_role q = role_to_string (u_role u)"
  using assms by (auto simp: row_to_user_def emap_Inr_iff string_to_role_Inr_iff)

lemma same_username:
  assumes "wf_tables t" "q \<in> set (t_users t)" "q' \<in> set (t_users t)" "ur_username q = ur_username q'"
  shows "q = q'"
  using distinct_map_eqD [OF wf_distinct(2) [OF assms(1)] assms(2,3,4)] .

lemma login_cases:
  assumes "wf_tables (db_tabs s)"
  obtains (unknown) "login name pw draws s = (Inr (login_refused ''Invalid username or password''), s)"
      "\<not> has_credentials name pw (db_tabs s)" "\<not> is_deactivated name (db_tabs s)"
  | (inactive) "login name pw draws s = (Inr (login_refused ''Account is deactivated''), s)"
      "\<not> has_credentials name pw (db_tabs s)" "is_deactivated name (db_tabs s)"
  | (success) q u where "login name pw draws s =
        (Inr \<lparr>lr_success = True, lr_token = generate_token draws, lr_user = u, lr_error = []\<rparr>,
         create_session (generate_token draws) (u_id u) s)"
      "has_credentials name pw (db_tabs s)" "q \<in> set (t_users (db_tabs s))" "row_to_user q = Inr u"
      "ur_username q = c_str name" "ur_active q \<noteq> 0"
proof (cases "\<exists>q \<in> set (t_users (db_tabs s)). ur_username q = c_str name")
  case False
  then have "find (\<lambda>r. ur_username r = c_str name) (t_users (db_tabs s)) = None"
    by (auto simp: find_None_iff)
  then have "login name pw draws s = (Inr (login_refused ''Invalid username or password''), s)"
    by (simp add: login_def op_simps user_find_by_username_def first_user_def)
  then show ?thesis using unknown False by (auto simp: has_credentials_def is_deactivated_def)
next
  case True
  then obtain q where q: "q \<in> set (t_users (db_tabs s))" "ur_username q = c_str name" by blast
  obtain u where u: "user_find_by_username name (db_tabs s) = Inr (Some u)" "row_to_user q = Inr u"
    using find_username [OF assms q] by blast
  note uq = row_to_user_fields [OF u(2)]
  have only: "q' = q" if "q' \<in> set (t_users (db_tabs s))" "ur_username q' = c_str name" for q'
    using same_username [OF assms that(1) q(1)] that(2) q(2) by simp
  have cred: "has_credentials name pw (db_tabs s) \<longleftrightarrow>
      ur_active q \<noteq> 0 \<and> ur_password_hash q = hash_password pw"
    unfolding has_credentials_def using q only by blast
  have off: "is_deactivated name (db_tabs s) \<longleftrightarrow> ur_active q = 0"
    unfolding is_deactivated_def using q only by blast
  consider "ur_active q = 0" | "ur_active q \<noteq> 0" "ur_password_hash q \<noteq> hash_password pw"
    | "ur_active q \<noteq> 0" "ur_password_hash q = hash_password pw" by blast
  then show ?thesis
  proof cases
    case 1
    then have "login name pw draws s = (Inr (login_refused ''Account is deactivated''), s)"
      using u(1) uq by (simp add: login_def op_simps)
    then show ?thesis using inactive cred off 1 by simp
  next
    case 2
    then have "login name pw draws s = (Inr (login_refused ''Invalid username or password''), s)"
      using u(1) uq by (simp add: login_def op_simps)
    then show ?thesis using unknown cred off 2 by simp
  next
    case 3
    then have "login name pw draws s =
        (Inr \<lparr>lr_success = True, lr_token = generate_token draws, lr_user = u, lr_error = []\<rparr>,
         create_session (generate_token draws) (u_id u) s)"
      using u(1) uq by (simp add: login_def op_simps Let_def)
    then show ?thesis using success cred 3 q u(2) by blast
  qed
qed

lemma login_db_ok [wf_rules]:
  assumes "db_ok (db_tabs s)"
  shows "db_ok (db_tabs (snd (login name pw draws s)))"
  using db_okD(1) [OF assms]
  by (cases rule: login_cases [of s name pw draws]) (simp_all add: assms create_session_db_ok)

lemma login_frame: "stmt_frame s (snd (login name pw draws s))"
  by (auto simp: login_def op_simps Let_def split: sum.split option.split)

lemma login_decides_raw:
  assumes "db_ok (db_tabs s)" "db_now s < db_tomorrow s"
  shows "\<exists>r s'. login name pw draws s = (Inr r, s') \<and>
    lr_success r = has_credentials name pw (db_tabs s) \<and>
    (if lr_success r
     then authenticate_request (''Bearer '' @ lr_token r) s' = Inr (Some (lr_user r)) \<and>
       u_username (lr_user r) = c_str name \<and> length (lr_token r) = 64 \<and> list_all lower_hex (lr_token r)
     else s' = s \<and> lr_token r = [] \<and>
       lr_error r = (if is_deactivated name (db_tabs s) then ''Account is deactivated''
                     else ''Invalid username or password''))"
proof -
  have wf: "wf_tables (db_tabs s)" using assms(1) by (rule db_okD)
  show ?thesis
    using wf
  proof (cases rule: login_cases [of s name pw draws])
    case unknown
    then show ?thesis by (simp add: login_refused_def)
  next
    case inactive
    then show ?thesis by (simp add: login_refused_def)
  next
    case (success q u)
    let ?tok = "generate_token draws"
    let ?s' = "create_session ?tok (u_id u) s"
    note uq = row_to_user_fields [OF success(4)]
    have i: "u_id u \<in> user_ids (db_tabs s)" using success(3) uq by (auto simp: user_ids_def)
    have "validate_session ?tok ?s' = Some (u_id u)"
      using validate_created_now [OF i assms(2)] by simp
    moreover have "user_find_by_id (u_id u) (db_tabs ?s') = Inr (Some u)"
      using success(3,4) uq find_key_Some [OF wf_distinct(1) [OF wf] success(3)]
      by (simp add: user_find_by_id_def first_user_def)
    ultimately have "authenticate_request (''Bearer '' @ ?tok) ?s' = Inr (Some u)"
      by (simp only: authenticate_bearer generate_token_not_Nil not_False_eq_True validate_token_def
          option.case)
    then show ?thesis using success uq by (simp add: generate_token_shape)
  qed
qed

text \<open>C9: On a database that satisfies the schema a login returns, never throws, and succeeds
  exactly when the stored row of that name is active and holds the hash of the password. A
  successful login yields 64 lower case hexadecimal digits that, sent as a bearer token,
  authenticate the account; a refused login changes nothing and tells a deactivated account
  from all other failures, which it does not tell apart.\<close>

theorem login_decides:
  assumes "db_ok (db_tabs s)" "db_now s < db_tomorrow s"
  shows "\<exists>r s'. login name pw draws s = (Inr r, s') \<and>
    lr_success r = has_credentials name pw (db_tabs s) \<and>
    (if lr_success r
     then authenticate_request (''Bearer '' @ lr_token r) s' = Inr (Some (lr_user r)) \<and>
       u_username (lr_user r) = c_str name \<and> length (lr_token r) = 64 \<and> list_all lower_hex (lr_token r)
     else s' = s \<and> lr_token r = [] \<and>
       lr_error r = (if is_deactivated name (db_tabs s) then ''Account is deactivated''
                     else ''Invalid username or password''))"
  using assms by (rule login_decides_raw)

lemma sample_clock [simp]: "db_now sample < db_tomorrow sample"
  using tally_less [of 0 86400] by (simp add: db_now_def db_tomorrow_def)

definition sample_eve :: conn where
  "sample_eve = snd (user_create (User_default\<lparr>u_username := ''eve'', u_name := ''Eve'',
     u_password_hash := hash_password ''pw''\<rparr>) sample)"

lemma sample_eve_row:
  "db_tabs sample_eve = sample_tabs\<lparr>t_users := t_users sample_tabs @
     [\<lparr>ur_id = 5, ur_username = ''eve'', ur_password_hash = hash_password ''pw'',
       ur_role = ''student'', ur_name = ''Eve'', ur_email = [], ur_active = 1,
       ur_created_at = db_now sample\<rparr>], t_user_seq := 5\<rparr>"
proof -
  have "''eve'' \<notin> ur_username ` set (t_users sample_tabs)"
    by (simp add: sample_tabs_def sample_rows)
  moreover have "''student'' \<in> set role_names" by (simp add: role_names_def)
  ultimately show ?thesis
    unfolding sample_eve_def snd_user_create
    by (simp add: step_insert_def insert_user_row_def user_row_of_def User_default_def
        i64_max_def c_str_def [of "''eve''"] c_str_def [of "''Eve''"] c_str_def [of "[]"] Let_def)
qed

lemma sample_eve_ok: "db_ok (db_tabs sample_eve)" "db_now sample_eve < db_tomorrow sample_eve"
proof -
  show "db_ok (db_tabs sample_eve)" unfolding sample_eve_def by (rule user_create_db_ok) simp
  have "stmt_frame sample sample_eve" by (simp add: sample_eve_def snd_user_create)
  then show "db_now sample_eve < db_tomorrow sample_eve" by (simp only: stmt_frame_clock sample_clock)
qed

theorem login_decides_witness:
  "\<exists>r s'. login ''eve'' ''pw'' (\<lambda>_. 7) sample_eve = (Inr r, s') \<and> lr_success r \<and>
     authenticate_request (''Bearer '' @ lr_token r) s' = Inr (Some (lr_user r))"
proof -
  have c: "has_credentials ''eve'' ''pw'' (db_tabs sample_eve)"
    by (simp add: has_credentials_def sample_eve_row c_str_def)
  show ?thesis
    using login_decides [OF sample_eve_ok, of "''eve''" "''pw''" "\<lambda>_. 7"] c
    by (elim exE conjE) (intro exI conjI, assumption, simp, simp only: if_True)
qed

section \<open>Sessions\<close>

fun session_step :: "session_op \<Rightarrow> conn \<Rightarrow> conn" where
  "session_step (Open_Session tok i) s = create_session tok i s"
| "session_step (Close_Session tok) s = snd (logout tok s)"

fun session_map_step :: "session_op \<Rightarrow> (string \<rightharpoonup> int) \<Rightarrow> (string \<rightharpoonup> int)" where
  "session_map_step (Open_Session tok i) m = m(c_str tok \<mapsto> i)"
| "session_map_step (Close_Session tok) m = m(c_str tok := None)"

fun session_user_known :: "tables \<Rightarrow> session_op \<Rightarrow> bool" where
  "session_user_known t (Open_Session tok i) = (i \<in> user_ids t)"
| "session_user_known t (Close_Session tok) = True"

lemma session_step_run: "session_step p = sessions.run_op p"
  by (cases p) (simp_all add: fun_eq_iff logout_def)

lemma session_map_step_run: "session_map_step p = sessions.map_op p"
  by (cases p) (simp_all add: fun_eq_iff)

lemma session_user_known_run: "session_user_known t p = sessions.op_known (user_ids t) p"
  by (cases p) simp_all

lemma validate_c_str [simp]: "validate_session (c_str t) s = validate_session t s"
  by (simp add: validate_session_def)

text \<open>C19: However many sessions are opened and closed within a day, in whatever order, the
  session table answers as a map from tokens to users does; a token is known up to its first
  NUL byte.\<close>

theorem sessions_refine_a_map:
  assumes "list_all (session_user_known (db_tabs s)) ps" "db_now s < db_tomorrow s"
  shows "validate_session t (fold session_step ps s) =
    fold session_map_step ps (\<lambda>k. validate_session k s) (c_str t)"
proof -
  have "session_step = sessions.run_op" "session_map_step = sessions.map_op"
    by (intro ext, simp add: session_step_run session_map_step_run)+
  moreover have "session_table_ok (user_ids (db_tabs s)) s"
    using assms(2) by (simp add: session_table_ok_def)
  moreover have "\<forall>p \<in> set ps. sessions.op_known (user_ids (db_tabs s)) p"
    using assms(1) by (simp add: list_all_iff session_user_known_run)
  ultimately show ?thesis
    using sessions.sessions_are_a_map [of "user_ids (db_tabs s)" s ps "\<lambda>k. validate_session k s"]
    by simp
qed

theorem sessions_refine_a_map_witness:
  "validate_session ''a''
     (fold session_step [Open_Session ''a'' 3, Open_Session ''b'' 4, Close_Session ''b''] sample) = Some 3"
  by (subst sessions_refine_a_map) (simp_all add: c_str_def)

text \<open>C20: A session is live at an instant exactly when that instant's text is smaller than that
  of the login's next day, and removing expired sessions is invisible to every token at
  the instant it runs.\<close>

theorem session_expiry:
  assumes "i \<in> user_ids (db_tabs s)"
  shows "validate_session tok ((create_session tok i s)\<lparr>db_clock := c\<rparr>) =
      (if db_datetime s c < db_datetime s (db_clock s + 86400) then Some i else None) \<and>
    validate_session t (cleanup_expired_sessions s) = validate_session t s"
proof
  show "validate_session tok ((create_session tok i s)\<lparr>db_clock := c\<rparr>) =
      (if db_datetime s c < db_datetime s (db_clock s + 86400) then Some i else None)"
    using validate_created [OF assms, where t = tok and tok = tok and c = c]
    by (simp add: db_tomorrow_def)
  let ?P = "\<lambda>r. case sr_expires_at r of None \<Rightarrow> False | Some e \<Rightarrow> e < db_now s"
  let ?L = "\<lambda>r. sr_token r = c_str t \<and> session_live (db_now s) r"
  have e: "t_sessions (db_tabs (cleanup_expired_sessions s)) = sql_delete ?P (t_sessions (db_tabs s))"
    "db_now (cleanup_expired_sessions s) = db_now s"
    by (simp_all add: cleanup_expired_sessions_def step_write_def delete_session_rows_def db_now_def)
  have "find ?L (sql_delete ?P (t_sessions (db_tabs s))) = find ?L (t_sessions (db_tabs s))"
    by (rule find_sql_delete) (auto simp: session_live_def split: option.splits)
  then show "validate_session t (cleanup_expired_sessions s) = validate_session t s"
    by (simp add: validate_session_def e)
qed

theorem session_expiry_witness:
  "validate_session ''a'' ((create_session ''a'' 3 sample)\<lparr>db_clock := 100000\<rparr>) = None"
proof -
  have "\<not> tally 100000 < tally 86400" using tally_less [of 86400 100000] by (auto dest: less_asym)
  then show ?thesis using session_expiry [of 3 sample "''a''" 100000] by simp
qed

section \<open>Deactivated accounts\<close>

lemma find_sql_update_key:
  assumes "\<And>r. g (f r) = g r"
  shows "find (\<lambda>r. g r = k) (sql_update P f rs) =
    map_option (\<lambda>r. if P r then f r else r) (find (\<lambda>r. g r = k) rs)"
  by (induction rs) (auto simp: sql_update_def assms)

text \<open>Deactivating an account through the user repository leaves its sessions alone, and
  validating a token does not look at the flag: the bearer of a live token of a deactivated
  account stays authenticated.\<close>

theorem deactivation_keeps_sessions:
  assumes "validate_token tok s = Inr (Some u)"
  shows "validate_token tok (snd (user_update (u\<lparr>u_active := False\<rparr>) s)) =
    Inr (Some (u\<lparr>u_active := False, u_name := c_str (u_name u), u_email := c_str (u_email u)\<rparr>))"
proof -
  let ?f = "\<lambda>r. r\<lparr>ur_name := c_str (u_name u), ur_email := c_str (u_email u), ur_active := 0\<rparr>"
  let ?s' = "snd (user_update (u\<lparr>u_active := False\<rparr>) s)"
  obtain i where i: "validate_session tok s = Some i" "user_find_by_id i (db_tabs s) = Inr (Some u)"
    using assms by (auto simp: validate_token_def split: option.splits)
  then obtain q where q: "find (\<lambda>r. ur_id r = i) (t_users (db_tabs s)) = Some q" "row_to_user q = Inr u"
    by (auto simp: user_find_by_id_def first_user_def emap_Inr_iff split: option.splits)
  have qi: "ur_id q = i" using q(1) by (auto simp: find_Some_iff)
  have ui: "u_id u = i" using row_to_user_fields(1) [OF q(2)] qi by simp
  have s': "db_tabs ?s' = (db_tabs s)\<lparr>t_users := sql_update (\<lambda>r. ur_id r = i) ?f (t_users (db_tabs s))\<rparr>"
    "db_now ?s' = db_now s"
    using ui by (simp_all add: user_update_def step_write_def update_user_rows_def db_now_def)
  have v: "validate_session tok ?s' = Some i" using i(1) s' by (simp add: validate_session_def)
  have "find (\<lambda>r. ur_id r = i) (t_users (db_tabs ?s')) = Some (?f q)"
    using q(1) qi s'(1) by (simp add: find_sql_update_key [where g = ur_id])
  moreover have "row_to_user (?f q) =
      Inr (u\<lparr>u_active := False, u_name := c_str (u_name u), u_email := c_str (u_email u)\<rparr>)"
    using q(2) by (auto simp: row_to_user_def emap_Inr_iff)
  ultimately show ?thesis using v
    by (simp add: validate_token_def user_find_by_id_def first_user_def)
qed

lemma sample_prof: "validate_token ''t2'' sample = Inr (Some \<lparr>u_id = 2, u_username = ''prof'',
    u_password_hash = ''h'', u_role = Faculty, u_name = ''prof'', u_email = [], u_active = True,
    u_created_at = []\<rparr>)"
  by (simp add: validate_token_def validate_session_def session_live_def user_find_by_id_def
      first_user_def row_to_user_def string_to_role_def sample_tabs_def sample_rows c_str_def)

theorem deactivation_keeps_sessions_witness:
  "\<exists>u. validate_token ''t2'' (snd (user_update (u\<lparr>u_active := False\<rparr>) sample)) =
     Inr (Some (u\<lparr>u_active := False, u_name := c_str (u_name u), u_email := c_str (u_email u)\<rparr>))"
  using deactivation_keeps_sessions [OF sample_prof] by blast

end
