(* ===== verification/Course_Correctness.thy ===== *)
theory Course_Correctness
  imports Course_Service
begin

text \<open>
  What the course service promises: when an update is accepted and what it writes, when it
  reports a success without writing, what a created course reads back as, and the bounds of
  the statistics.
\<close>

section \<open>Updates\<close>

lemma course_idsI: "r \<in> set (t_courses t) \<Longrightarrow> cr_id r = i \<Longrightarrow> i \<in> course_ids t"
  by (auto simp: course_ids_def)

text \<open>The conditions under which an update is accepted.\<close>

definition may_update :: "Course \<Rightarrow> User \<Rightarrow> tables \<Rightarrow> bool" where
  "may_update c u t \<longleftrightarrow> (\<exists>r \<in> set (t_courses t). cr_id r = c_id c \<and>
     (u_role u = Faculty \<longrightarrow> (case cr_faculty_id r of None \<Rightarrow> 0 | Some f \<Rightarrow> f) = u_id u)) \<and>
     c_course_name c \<noteq> [] \<and> 0 < c_capacity c \<and> active_count t (c_id c) \<le> c_capacity c"

lemma update_course_success_iff:
  assumes "db_ok (db_tabs s)"
  shows "cres_success (fst (update_course c u s)) \<longleftrightarrow> may_update c u (db_tabs s)"
proof -
  let ?t = "db_tabs s"
  have wf: "wf_tables ?t" using assms by (rule db_okD)
  show ?thesis
  proof (cases "course_find_by_id (c_id c) ?t")
    case None
    then have "c_id c \<notin> cr_id ` set (t_courses ?t)"
      by (simp add: course_find_by_id_None_iff course_ids_def)
    then have "\<not> may_update c u ?t" by (metis may_update_def image_eqI)
    with None show ?thesis by (simp add: update_course_def course_error_def)
  next
    case (Some e)
    then obtain r where r: "r \<in> set (t_courses ?t)" "cr_id r = c_id c" "e = row_to_course ?t r"
      using course_find_by_id_Some by blast
    have only: "q = r" if "q \<in> set (t_courses ?t)" "cr_id q = c_id c" for q
      using distinct_map_eqD [OF wf_distinct(3) [OF wf] that(1) r(1)] that(2) r(2) by simp
    have "c_id c \<in> course_ids ?t" using r(1,2) by (rule course_idsI)
    then have count: "get_enrolled_count (c_id c) ?t = active_count ?t (c_id c)"
      by (rule enrolled_count_read [OF assms])
    have own: "(\<exists>r \<in> set (t_courses ?t). cr_id r = c_id c \<and>
        (u_role u = Faculty \<longrightarrow> (case cr_faculty_id r of None \<Rightarrow> 0 | Some f \<Rightarrow> f) = u_id u)) \<longleftrightarrow>
        (u_role u = Faculty \<longrightarrow> c_faculty_id e = u_id u)"
      using r only by (metis row_to_course_simps(7))
    show ?thesis
      unfolding update_course_def may_update_def own Some option.case count Let_def
      by (auto simp: course_error_def course_done_def)
  qed
qed

text \<open>C21: On a consistent database an update is accepted exactly when the course exists, the
  requester is not another lecturer, the name is given and the capacity covers the active
  registrations. An accepted update that names an existing user as lecturer writes the
  given fields to that course and nothing else; a refused one changes nothing; either way
  no course ends up with more registrations than seats.\<close>

theorem update_course_decides:
  assumes "db_ok (db_tabs s)" "course_ints c" "c_faculty_id c \<in> user_ids (db_tabs s)"
  shows "case update_course c u s of (r, s') \<Rightarrow>
    cres_success r = may_update c u (db_tabs s) \<and>
    (if cres_success r
     then db_tabs s' = (db_tabs s)\<lparr>t_courses :=
       sql_update (\<lambda>q. cr_id q = c_id c) (set_course_row c) (t_courses (db_tabs s))\<rparr>
     else s' = s) \<and> db_ok (db_tabs s')"
proof -
  obtain r s' where call: "update_course c u s = (r, s')" by fastforce
  have ok: "db_ok (db_tabs s')" using update_course_db_ok [OF assms(1,2), of u] call by simp
  have iff: "cres_success r = may_update c u (db_tabs s)"
    using update_course_success_iff [OF assms(1), of c u] call by simp
  show ?thesis
  proof (cases rule: update_course_cases [of c u s])
    case (refused e)
    then show ?thesis using call ok iff by (auto simp: course_error_def)
  next
    case (written q)
    have "c_capacity c \<le> i32_max"
      using assms(2) to_i32_range(2) [of "c_capacity c"] by (simp add: course_ints_def)
    then have "db_tabs s' = (db_tabs s)\<lparr>t_courses :=
       sql_update (\<lambda>q. cr_id q = c_id c) (set_course_row c) (t_courses (db_tabs s))\<rparr>"
      using written(1,5) call course_update_effect [OF written(5) _ assms(3)] by simp
    then show ?thesis using written(1) call ok iff by (auto simp: course_done_def)
  qed
qed

definition wider_course :: Course where
  "wider_course = Course_default\<lparr>c_id := 1, c_course_name := ''OS'', c_faculty_id := 2, c_capacity := 5\<rparr>"

lemma wider_course_ints: "course_ints wider_course"
proof -
  have "to_i32 5 = 5" "to_i32 3 = 3" by (rule to_i32_id; simp add: i32_max_def)+
  then show ?thesis by (simp add: course_ints_def wider_course_def Course_default_def)
qed

lemma sample_active [simp]: "active_count sample_tabs 1 = 1"
  by (simp add: active_count_def sample_tabs_def sample_rows)

theorem update_course_decides_witness:
  "cres_success (fst (update_course wider_course (User_default\<lparr>u_role := Admin\<rparr>) sample)) \<and>
   capacity_of (db_tabs (snd (update_course wider_course (User_default\<lparr>u_role := Admin\<rparr>) sample))) 1 = Some 5"
proof -
  let ?u = "User_default\<lparr>u_role := Admin\<rparr>"
  have m: "may_update wider_course ?u sample_tabs"
    using sample_active by (simp add: may_update_def wider_course_def Course_default_def User_default_def
        sample_tabs_def sample_rows active_count_def)
  have 5: "to_i32 5 = 5" by (rule to_i32_id) (simp_all add: i32_max_def)
  have w: "case update_course wider_course ?u sample of (r, s') \<Rightarrow>
    cres_success r = may_update wider_course ?u (db_tabs sample) \<and>
    (if cres_success r
     then db_tabs s' = (db_tabs sample)\<lparr>t_courses :=
       sql_update (\<lambda>q. cr_id q = c_id wider_course) (set_course_row wider_course) (t_courses (db_tabs sample))\<rparr>
     else s' = sample) \<and> db_ok (db_tabs s')"
    by (rule update_course_decides) (simp_all add: wider_course_ints, simp add: wider_course_def)
  have "capacity_of (sample_tabs\<lparr>t_courses := sql_update (\<lambda>q. cr_id q = c_id wider_course)
      (set_course_row wider_course) (t_courses sample_tabs)\<rparr>) 1 = Some 5"
    by (simp add: capacity_of_def sample_tabs_def sample_rows sql_update_def)
      (simp add: wider_course_def 5)
  then show ?thesis using w m by (auto split: prod.splits)
qed

text \<open>An accepted update that names no existing user as lecturer, such as the default
  faculty id 0 of a body without that key, is reported as a success although the
  statement was refused and no table changed.\<close>

theorem update_course_silently_fails:
  assumes "db_ok (db_tabs s)" "may_update c u (db_tabs s)" "c_faculty_id c \<notin> user_ids (db_tabs s)"
  shows "case update_course c u s of (r, s') \<Rightarrow>
    cres_success r \<and> cres_error r = [] \<and> db_tabs s' = db_tabs s"
proof -
  have succ: "cres_success (fst (update_course c u s))"
    using assms(1,2) by (simp add: update_course_success_iff)
  have "c_id c \<in> course_ids (db_tabs s)"
    using assms(2) by (auto simp: may_update_def intro: course_idsI)
  then show ?thesis
    using succ course_update_bad_faculty [OF _ assms(3)]
    by (cases rule: update_course_cases [of c u s]) (auto simp: course_error_def course_done_def)
qed

theorem update_course_silently_fails_witness:
  "case update_course (wider_course\<lparr>c_faculty_id := 0\<rparr>) (User_default\<lparr>u_role := Admin\<rparr>) sample of (r, s') \<Rightarrow>
    cres_success r \<and> cres_error r = [] \<and> db_tabs s' = sample_tabs"
proof -
  have m: "may_update (wider_course\<lparr>c_faculty_id := 0\<rparr>) (User_default\<lparr>u_role := Admin\<rparr>) sample_tabs"
    by (simp add: may_update_def wider_course_def Course_default_def User_default_def
        sample_tabs_def sample_rows active_count_def)
  show ?thesis
    using update_course_silently_fails [of sample "wider_course\<lparr>c_faculty_id := 0\<rparr>" "User_default\<lparr>u_role := Admin\<rparr>"] m
    by simp
qed

section \<open>Creation\<close>

definition may_create :: "Course \<Rightarrow> User \<Rightarrow> tables \<Rightarrow> bool" where
  "may_create c u t \<longleftrightarrow> u_role u \<noteq> Student \<and> c_course_code c \<noteq> [] \<and> c_course_name c \<noteq> [] \<and>
     0 < c_capacity c \<and> 1 \<le> c_credits c \<and> c_credits c \<le> 6 \<and>
     c_str (c_course_code c) \<notin> cr_course_code ` set (t_courses t) \<and>
     c_faculty_id c \<in> user_ids t \<and> t_course_seq t < i64_max"

lemma course_create_result:
  assumes "course_ints c"
  shows "course_create c s =
    (if c_str (c_course_code c) \<notin> cr_course_code ` set (t_courses (db_tabs s)) \<and> 0 < c_capacity c \<and>
        c_faculty_id c \<in> user_ids (db_tabs s) \<and> t_course_seq (db_tabs s) < i64_max
     then let i = t_course_seq (db_tabs s) + 1 in
       (Inr i, s\<lparr>db_tabs := (db_tabs s)\<lparr>t_courses := t_courses (db_tabs s) @ [(course_row_of c s)\<lparr>cr_id := i\<rparr>],
          t_course_seq := i\<rparr>, db_last_id := i, db_changes := 1\<rparr>)
     else (Inl (Runtime_Error ''Failed to create course''), s\<lparr>db_changes := 0\<rparr>))"
  using assms
  by (auto simp: course_create_def step_insert_def insert_course_row_def course_row_of_def
      course_ints_def faculty_ref_ok_def last_insert_id_def Let_def not_le)

lemma create_course_refused:
  assumes "course_ints c" "\<not> may_create c u (db_tabs s)"
  shows "\<exists>e. create_course c u s = (course_error e, s) \<or>
      create_course c u s = (course_error e, s\<lparr>db_changes := 0\<rparr>)"
proof (cases "u_role u \<noteq> Student \<and> c_course_code c \<noteq> [] \<and> c_course_name c \<noteq> [] \<and>
     0 < c_capacity c \<and> 1 \<le> c_credits c \<and> c_credits c \<le> 6 \<and>
     course_find_by_code (c_course_code c) (db_tabs s) = None")
  case False
  then show ?thesis by (cases "u_role u") (auto simp: create_course_def)
next
  case True
  then have "u_role u = Admin \<or> u_role u = Faculty" by (cases "u_role u") auto
  with True have "create_course c u s = (case course_create c s of
      (Inr i, s') \<Rightarrow> (course_done i, s') | (Inl e, s') \<Rightarrow> (course_error ''Failed to create course'', s'))"
    by (auto simp: create_course_def)
  moreover have "course_create c s = (Inl (Runtime_Error ''Failed to create course''), s\<lparr>db_changes := 0\<rparr>)"
    using True assms(2) unfolding course_create_result [OF assms(1)] may_create_def
      course_find_by_code_None_iff by (intro if_not_P) blast
  ultimately show ?thesis by auto
qed

text \<open>C22: A creation succeeds exactly under the conditions of the schema and the service; the new
  course has an id no course had, reads back with the given fields, its code and name cut
  at a NUL byte, and no registrations; otherwise no table changes.\<close>

theorem create_course_decides:
  assumes "db_ok (db_tabs s)" "course_ints c"
  shows "case create_course c u s of (r, s') \<Rightarrow>
    cres_success r = may_create c u (db_tabs s) \<and>
    (if cres_success r
     then cres_course_id r \<notin> course_ids (db_tabs s) \<and>
       (\<exists>n. course_find_by_id (cres_course_id r) (db_tabs s') = Some (c\<lparr>c_id := cres_course_id r,
          c_course_code := c_str (c_course_code c), c_course_name := c_str (c_course_name c),
          c_schedule := c_str (c_schedule c), c_faculty_name := n, c_enrolled_count := 0,
          c_created_at := db_now s\<rparr>))
     else db_tabs s' = db_tabs s)"
proof (cases "may_create c u (db_tabs s)")
  case False
  then have "\<exists>e. create_course c u s = (course_error e, s) \<or>
      create_course c u s = (course_error e, s\<lparr>db_changes := 0\<rparr>)"
    by (rule create_course_refused [OF assms(2)])
  then show ?thesis using False by (auto simp: course_error_def)
next
  case True
  let ?t = "db_tabs s" and ?i = "t_course_seq (db_tabs s) + 1"
  let ?row = "(course_row_of c s)\<lparr>cr_id := ?i\<rparr>"
  let ?t' = "?t\<lparr>t_courses := t_courses ?t @ [?row], t_course_seq := ?i\<rparr>"
  have wf: "wf_tables ?t" using assms(1) by (rule db_okD)
  have new: "?i \<notin> course_ids ?t" by (rule course_seq_fresh [OF wf])
  have role: "u_role u = Admin \<or> u_role u = Faculty"
    using True by (cases "u_role u") (auto simp: may_create_def)
  have find: "course_find_by_code (c_course_code c) ?t = None"
    using True by (simp add: may_create_def course_find_by_code_None_iff)
  have "course_create c s = (Inr ?i, s\<lparr>db_tabs := ?t', db_last_id := ?i, db_changes := 1\<rparr>)"
    using True by (simp add: may_create_def course_create_result [OF assms(2)] Let_def)
  then have run: "create_course c u s = (course_done ?i, s\<lparr>db_tabs := ?t', db_last_id := ?i, db_changes := 1\<rparr>)"
    using True role find by (auto simp: create_course_def may_create_def)
  have "active_count ?t' ?i = 0"
    using active_count_no_course [OF wf new] by (simp add: active_count_def)
  moreover have "find (\<lambda>r. cr_id r = ?i) (t_courses ?t') = Some ?row"
  proof -
    have "find (\<lambda>r. cr_id r = ?i) (t_courses ?t) = None"
      using new by (simp add: find_None_iff_key course_ids_def)
    then show ?thesis by (simp add: find_append)
  qed
  moreover have "to_i32 0 = 0" by (rule to_i32_id) (simp_all add: i32_max_def)
  ultimately have "course_find_by_id ?i ?t' = Some (c\<lparr>c_id := ?i,
      c_course_code := c_str (c_course_code c), c_course_name := c_str (c_course_name c),
      c_schedule := c_str (c_schedule c),
      c_faculty_name := (case faculty_name_of ?t' ?row of None \<Rightarrow> [] | Some n \<Rightarrow> n), c_enrolled_count := 0,
      c_created_at := db_now s\<rparr>)"
    using assms(2)
    by (simp add: course_find_by_id_def row_to_course_def course_row_of_def course_ints_def)
  then show ?thesis using run new True by (auto simp: course_done_def)
qed

theorem create_course_decides_witness:
  "cres_success (fst (create_course (wider_course\<lparr>c_course_code := ''CS9''\<rparr>)
     (User_default\<lparr>u_role := Admin\<rparr>) sample))"
proof -
  have m: "may_create (wider_course\<lparr>c_course_code := ''CS9''\<rparr>) (User_default\<lparr>u_role := Admin\<rparr>) sample_tabs"
    by (simp add: may_create_def wider_course_def Course_default_def User_default_def c_str_def
        i64_max_def user_ids_def sample_tabs_def sample_rows)
  show ?thesis
    using create_course_decides [of sample "wider_course\<lparr>c_course_code := ''CS9''\<rparr>"
        "User_default\<lparr>u_role := Admin\<rparr>"] m wider_course_ints
    by (auto split: prod.splits)
qed

end
