(* ===== verification/Http_Api.thy ===== *)
theory Http_Api
  imports Course_Service
begin

text \<open>
  The REST handlers of \<^verbatim>\<open>backend/include/controllers\<close> and the two routes of
  \<^verbatim>\<open>backend/src/main.cpp\<close>. A handler is an operation on the connection that returns a
  response or lets an exception through to the web framework (Crow), which is not part of
  the repository. Crow's request gives three things to the handlers: the Authorization
  header (empty when absent), the body and the \<open>search\<close> parameter; its routing is the
  datatype \<open>api_call\<close>, one constructor for each \<open>CROW_ROUTE\<close> and method, with the
  \<open><int>\<close> of the path.
\<close>

record request =
  rq_authorization :: string
  rq_body :: string
  rq_search :: "string option"

record response =
  rs_code :: int
  rs_body :: string
  rs_headers :: "(string \<times> string) list"

definition reply :: "int \<Rightarrow> string \<Rightarrow> response" where
  "reply code body = \<lparr>rs_code = code, rs_body = body, rs_headers = []\<rparr>"

definition json_reply :: "int \<Rightarrow> string \<Rightarrow> response" where
  "json_reply code body =
     \<lparr>rs_code = code, rs_body = body, rs_headers = [(''Content-Type'', ''application/json'')]\<rparr>"

definition fail_with :: "'j json_api \<Rightarrow> int \<Rightarrow> string \<Rightarrow> response" where
  "fail_with api code message = reply code (j_dump api (error_response api message code))"

definition ok_with :: "'j json_api \<Rightarrow> int \<Rightarrow> 'j \<Rightarrow> string \<Rightarrow> response" where
  "ok_with api code data message = json_reply code (j_dump api (success_response api data message))"

text \<open>\<open>catch (const nlohmann::json::exception&)\<close>.\<close>

definition catch_json :: "('s, 'a) op \<Rightarrow> 'a \<Rightarrow> ('s, 'a) op" where
  "catch_json m handler s = (case m s of
       (Inl (Json_Error e), s') \<Rightarrow> (Inr handler, s')
     | r \<Rightarrow> r)"

definition authenticated :: "request \<Rightarrow> (conn, User option) op" where
  "authenticated req = xget (authenticate_request (rq_authorization req))"

definition on_tables :: "(tables \<Rightarrow> 'a) \<Rightarrow> (conn, 'a) op" where
  "on_tables f = xget (\<lambda>s. Inr (f (db_tabs s)))"

definition on_conn :: "(conn \<Rightarrow> 'a \<times> conn) \<Rightarrow> (conn, 'a) op" where
  "on_conn f s = (case f s of (a, s') \<Rightarrow> (Inr a, s'))"

definition lift_exc :: "'a exc \<Rightarrow> (conn, 'a) op" where
  "lift_exc r = xget (\<lambda>_. r)"

definition json_array :: "'j json_api \<Rightarrow> ('a \<Rightarrow> 'j) \<Rightarrow> 'a list \<Rightarrow> 'j" where
  "json_array api to_json xs = j_arr api (map to_json xs)"

text \<open>\<open>x ? x->to_json() : nlohmann::json{}\<close>.\<close>

definition json_or_null :: "'j json_api \<Rightarrow> ('a \<Rightarrow> 'j) \<Rightarrow> 'a option \<Rightarrow> 'j" where
  "json_or_null api to_json x = (case x of None \<Rightarrow> j_null api | Some a \<Rightarrow> to_json a)"

section \<open>AuthController\<close>

definition post_login :: "'j json_api \<Rightarrow> (nat \<Rightarrow> 4 word) \<Rightarrow> request \<Rightarrow> (conn, response) op" where
  "post_login api draws req = catch_json
     (xbind (lift_exc (j_parse api (rq_body req))) (\<lambda>body.
      xbind (lift_exc (j_value_str api body ''username'' [])) (\<lambda>username.
      xbind (lift_exc (j_value_str api body ''password'' [])) (\<lambda>password.
        if username = [] \<or> password = []
        then xret (fail_with api 400 ''Username and password are required'')
        else xbind (login username password draws) (\<lambda>result.
          if \<not> lr_success result then xret (fail_with api 401 (lr_error result))
          else let data = j_obj api [(''token'', j_str api (lr_token result)),
                                     (''user'', User_to_json api (lr_user result))]
               in xret (ok_with api 200 data ''Login successful''))))))
     (fail_with api 400 ''Invalid JSON body'')"

definition post_logout :: "'j json_api \<Rightarrow> request \<Rightarrow> (conn, response) op" where
  "post_logout api req =
     (let auth = rq_authorization req in
      xbind (if 7 < length auth then on_conn (logout (drop 7 auth)) else xret True) (\<lambda>_.
        xret (ok_with api 200 (j_null api) ''Logged out'')))"

definition get_me :: "'j json_api \<Rightarrow> request \<Rightarrow> (conn, response) op" where
  "get_me api req = xbind (authenticated req) (\<lambda>user. case user of
       None \<Rightarrow> xret (fail_with api 401 ''Not authenticated'')
     | Some u \<Rightarrow> xret (ok_with api 200 (User_to_json api u) ''Success''))"

section \<open>CourseController\<close>

definition list_courses :: "'j json_api \<Rightarrow> request \<Rightarrow> (conn, response) op" where
  "list_courses api req = xbind (authenticated req) (\<lambda>user. case user of
       None \<Rightarrow> xret (fail_with api 401 ''Not authenticated'')
     | Some u \<Rightarrow>
         let search = (case rq_search req of None \<Rightarrow> [] | Some p \<Rightarrow> p) in
         xbind (on_tables (\<lambda>t. if search \<noteq> [] then search_courses search t else get_all_courses t))
           (\<lambda>courses. xret (ok_with api 200 (json_array api (Course_to_json api) courses) ''Success'')))"

definition show_course :: "'j json_api \<Rightarrow> int \<Rightarrow> request \<Rightarrow> (conn, response) op" where
  "show_course api i req = xbind (authenticated req) (\<lambda>user. case user of
       None \<Rightarrow> xret (fail_with api 401 ''Not authenticated'')
     | Some u \<Rightarrow> xbind (on_tables (get_course i)) (\<lambda>course. case course of
         None \<Rightarrow> xret (fail_with api 404 ''Course not found'')
       | Some c \<Rightarrow> xret (ok_with api 200 (Course_to_json api c) ''Success'')))"

definition post_course :: "'j json_api \<Rightarrow> request \<Rightarrow> (conn, response) op" where
  "post_course api req = xbind (authenticated req) (\<lambda>user. case user of
       None \<Rightarrow> xret (fail_with api 401 ''Not authenticated'')
     | Some u \<Rightarrow>
         if u_role u \<noteq> Faculty \<and> u_role u \<noteq> Admin then xret (fail_with api 403 ''Forbidden'')
         else catch_json
           (xbind (lift_exc (j_parse api (rq_body req))) (\<lambda>body.
            xbind (lift_exc (Course_from_json api body)) (\<lambda>course0.
              let course = (if u_role u = Faculty then course0\<lparr>c_faculty_id := u_id u\<rparr> else course0) in
              xbind (on_conn (create_course course u)) (\<lambda>result.
                if \<not> cres_success result then xret (fail_with api 400 (cres_error result))
                else xbind (on_tables (get_course (cres_course_id result))) (\<lambda>created.
                  xret (ok_with api 201 (json_or_null api (Course_to_json api) created)
                    ''Course created''))))))
           (fail_with api 400 ''Invalid JSON body''))"

definition put_course :: "'j json_api \<Rightarrow> int \<Rightarrow> request \<Rightarrow> (conn, response) op" where
  "put_course api i req = xbind (authenticated req) (\<lambda>user. case user of
       None \<Rightarrow> xret (fail_with api 401 ''Not authenticated'')
     | Some u \<Rightarrow>
         if u_role u \<noteq> Faculty \<and> u_role u \<noteq> Admin then xret (fail_with api 403 ''Forbidden'')
         else catch_json
           (xbind (lift_exc (j_parse api (rq_body req))) (\<lambda>body.
            xbind (lift_exc (Course_from_json api body)) (\<lambda>course0.
              let course = course0\<lparr>c_id := i\<rparr> in
              xbind (on_conn (update_course course u)) (\<lambda>result.
                if \<not> cres_success result then xret (fail_with api 400 (cres_error result))
                else xbind (on_tables (get_course i)) (\<lambda>updated.
                  xret (ok_with api 200 (json_or_null api (Course_to_json api) updated)
                    ''Course updated''))))))
           (fail_with api 400 ''Invalid JSON body''))"

definition remove_course :: "'j json_api \<Rightarrow> int \<Rightarrow> request \<Rightarrow> (conn, response) op" where
  "remove_course api i req = xbind (authenticated req) (\<lambda>user. case user of
       None \<Rightarrow> xret (fail_with api 401 ''Not authenticated'')
     | Some u \<Rightarrow> xbind (on_conn (delete_course i u)) (\<lambda>result.
         if \<not> cres_success result then xret (fail_with api 400 (cres_error result))
         else xret (ok_with api 200 (j_null api) ''Course deleted'')))"

section \<open>RegistrationController\<close>

text \<open>The status the handler reads off the text of the error; the last match wins.\<close>

definition register_status :: "string \<Rightarrow> int" where
  "register_status err =
     (let status = 400;
          status = (if has_sub ''full'' err then 409 else status);
          status = (if has_sub ''Already'' err then 409 else status);
          status = (if has_sub ''not found'' err then 404 else status)
      in status)"

definition post_register :: "'j json_api \<Rightarrow> int \<Rightarrow> request \<Rightarrow> (conn, response) op" where
  "post_register api course_id req = xbind (authenticated req) (\<lambda>user. case user of
       None \<Rightarrow> xret (fail_with api 401 ''Not authenticated'')
     | Some u \<Rightarrow>
         if u_role u \<noteq> Student then xret (fail_with api 403 ''Only students can register for courses'')
         else xbind (on_conn (register_student (u_id u) course_id)) (\<lambda>result.
           if \<not> res_success result
           then xret (fail_with api (register_status (res_error result)) (res_error result))
           else let data = j_obj api
                  [(''registration_id'', j_int api (res_registration_id result)),
                   (''remaining_seats'', j_int api (res_remaining_seats result))]
                in xret (ok_with api 201 data ''Registration successful'')))"

definition delete_register :: "'j json_api \<Rightarrow> int \<Rightarrow> request \<Rightarrow> (conn, response) op" where
  "delete_register api course_id req = xbind (authenticated req) (\<lambda>user. case user of
       None \<Rightarrow> xret (fail_with api 401 ''Not authenticated'')
     | Some u \<Rightarrow>
         if u_role u \<noteq> Student then xret (fail_with api 403 ''Only students can drop courses'')
         else xbind (on_conn (drop_student (u_id u) course_id)) (\<lambda>result.
           if \<not> res_success result then xret (fail_with api 400 (res_error result))
           else let data = j_obj api [(''remaining_seats'', j_int api (res_remaining_seats result))]
                in xret (ok_with api 200 data ''Course dropped'')))"

definition student_courses :: "'j json_api \<Rightarrow> int \<Rightarrow> request \<Rightarrow> (conn, response) op" where
  "student_courses api student_id req = xbind (authenticated req) (\<lambda>user. case user of
       None \<Rightarrow> xret (fail_with api 401 ''Not authenticated'')
     | Some u \<Rightarrow>
         if u_role u = Student \<and> u_id u \<noteq> student_id then xret (fail_with api 403 ''Forbidden'')
         else xbind (on_tables (get_student_registrations student_id)) (\<lambda>regs.
           xbind (on_tables (total_credits_for_student student_id)) (\<lambda>total_credits.
             let data = j_obj api
                  [(''registrations'', json_array api (Registration_to_json api) regs),
                   (''total_credits'', j_int api total_credits),
                   (''course_count'', j_int api (int (length regs)))]
             in xret (ok_with api 200 data ''Success''))))"

definition faculty_courses :: "'j json_api \<Rightarrow> int \<Rightarrow> request \<Rightarrow> (conn, response) op" where
  "faculty_courses api faculty_id req = xbind (authenticated req) (\<lambda>user. case user of
       None \<Rightarrow> xret (fail_with api 401 ''Not authenticated'')
     | Some u \<Rightarrow>
         if u_role u = Student then xret (fail_with api 403 ''Forbidden'')
         else xbind (on_tables (get_course_enrollments 0)) (\<lambda>courses.
           xret (ok_with api 200 (j_arr api []) ''Success'')))"

definition course_students :: "'j json_api \<Rightarrow> int \<Rightarrow> request \<Rightarrow> (conn, response) op" where
  "course_students api course_id req = xbind (authenticated req) (\<lambda>user. case user of
       None \<Rightarrow> xret (fail_with api 401 ''Not authenticated'')
     | Some u \<Rightarrow>
         if u_role u = Student then xret (fail_with api 403 ''Forbidden'')
         else xbind (on_tables (get_course_enrollments course_id)) (\<lambda>regs.
           xret (ok_with api 200 (json_array api (Registration_to_json api) regs) ''Success'')))"

end
