(* ===== verification/Admin_Api.thy ===== *)
theory Admin_Api
  imports Http_Api
begin

text \<open>
  \<^verbatim>\<open>backend/include/controllers/AdminController.hpp\<close>, the health and preflight routes of
  \<^verbatim>\<open>backend/src/main.cpp\<close>, and the dispatch over all routes. Adding C++ \<open>int\<close>s wraps in the
  model (\<open>to_i32\<close>); the percentages are \<open>real\<close>s.
\<close>

definition admin_only ::
  "'j json_api \<Rightarrow> request \<Rightarrow> (User \<Rightarrow> (conn, response) op) \<Rightarrow> (conn, response) op" where
  "admin_only api req k = xbind (authenticated req) (\<lambda>user. case user of
       None \<Rightarrow> xret (fail_with api 403 ''Admin access required'')
     | Some u \<Rightarrow> if u_role u \<noteq> Admin then xret (fail_with api 403 ''Admin access required'') else k u)"

definition list_users :: "'j json_api \<Rightarrow> request \<Rightarrow> (conn, response) op" where
  "list_users api req = admin_only api req (\<lambda>_.
     xbind (xget (\<lambda>s. user_find_all (db_tabs s))) (\<lambda>users.
       xret (ok_with api 200 (json_array api (User_to_json api) users) ''Success'')))"

definition post_user :: "'j json_api \<Rightarrow> request \<Rightarrow> (conn, response) op" where
  "post_user api req = admin_only api req (\<lambda>_. catch_json
     (xbind (lift_exc (j_parse api (rq_body req))) (\<lambda>body.
      xbind (lift_exc (User_from_json api body)) (\<lambda>new_user.
        if u_username new_user = [] then xret (fail_with api 400 ''Username is required'')
        else if u_name new_user = [] then xret (fail_with api 400 ''Name is required'')
        else xbind (lift_exc (j_value_str api body ''password'' [])) (\<lambda>password.
          if password = [] then xret (fail_with api 400 ''Password is required'')
          else xbind (xget (\<lambda>s. user_find_by_username (u_username new_user) (db_tabs s))) (\<lambda>present.
            if present \<noteq> None then xret (fail_with api 409 ''Username already exists'')
            else xbind (user_create (new_user\<lparr>u_password_hash := hash_password password\<rparr>)) (\<lambda>i.
              xbind (xget (\<lambda>s. user_find_by_id i (db_tabs s))) (\<lambda>created.
                xret (ok_with api 201 (json_or_null api (User_to_json api) created) ''User created''))))))))
     (fail_with api 400 ''Invalid JSON body''))"

definition put_user :: "'j json_api \<Rightarrow> int \<Rightarrow> request \<Rightarrow> (conn, response) op" where
  "put_user api i req = admin_only api req (\<lambda>_. catch_json
     (xbind (lift_exc (j_parse api (rq_body req))) (\<lambda>body.
      xbind (xget (\<lambda>s. user_find_by_id i (db_tabs s))) (\<lambda>existing0. case existing0 of
          None \<Rightarrow> xret (fail_with api 404 ''User not found'')
        | Some e0 \<Rightarrow>
            xbind (lift_exc (read_field api body ''name'' (as_string api) (\<lambda>v u. u\<lparr>u_name := v\<rparr>) e0)) (\<lambda>e1.
            xbind (lift_exc (read_field api body ''email'' (as_string api) (\<lambda>v u. u\<lparr>u_email := v\<rparr>) e1)) (\<lambda>e2.
            xbind (lift_exc (read_field api body ''active'' (as_bool api) (\<lambda>v u. u\<lparr>u_active := v\<rparr>) e2)) (\<lambda>e3.
            xbind (on_conn (user_update e3)) (\<lambda>_.
            xbind (if j_contains api body ''password''
                   then xbind (lift_exc (as_string api (j_at api body ''password''))) (\<lambda>password.
                     if password = [] then xret False
                     else on_conn (user_update_password i (hash_password password)))
                   else xret False) (\<lambda>_.
            xbind (xget (\<lambda>s. user_find_by_id i (db_tabs s))) (\<lambda>updated.
              xret (ok_with api 200 (json_or_null api (User_to_json api) updated) ''User updated''))))))))))
     (fail_with api 400 ''Invalid JSON body''))"

definition delete_user :: "'j json_api \<Rightarrow> int \<Rightarrow> request \<Rightarrow> (conn, response) op" where
  "delete_user api i req = admin_only api req (\<lambda>user.
     if u_id user = i then xret (fail_with api 400 ''Cannot delete your own account'')
     else xbind (on_conn (user_remove i)) (\<lambda>_.
       xret (ok_with api 200 (j_null api) ''User deleted'')))"

definition utilization :: "int \<Rightarrow> int \<Rightarrow> real" where
  "utilization taken capacity =
     (if 0 < capacity then of_int taken * 100 / of_int capacity else 0)"

definition course_usage :: "'j json_api \<Rightarrow> Course \<Rightarrow> 'j" where
  "course_usage api c = j_obj api
     [(''course_code'', j_str api (c_course_code c)),
      (''course_name'', j_str api (c_course_name c)),
      (''capacity'', j_int api (c_capacity c)),
      (''enrolled'', j_int api (c_enrolled_count c)),
      (''utilization'', j_real api (utilization (c_enrolled_count c) (c_capacity c)))]"

definition add_i32 :: "int \<Rightarrow> int \<Rightarrow> int" where
  "add_i32 a b = to_i32 (a + b)"

definition total_of :: "(Course \<Rightarrow> int) \<Rightarrow> Course list \<Rightarrow> int" where
  "total_of f courses = fold (\<lambda>c acc. add_i32 acc (f c)) courses 0"

definition statistics_json :: "'j json_api \<Rightarrow> tables \<Rightarrow> 'j" where
  "statistics_json api t =
     (let courses = course_find_all t;
          total_capacity = total_of c_capacity courses;
          total_enrolled = total_of c_enrolled_count courses
      in j_obj api
        [(''total_users'', j_int api (user_count t)),
         (''total_students'', j_int api (user_count_by_role Student t)),
         (''total_faculty'', j_int api (user_count_by_role Faculty t)),
         (''total_admins'', j_int api (user_count_by_role Admin t)),
         (''total_courses'', j_int api (course_count t)),
         (''total_registrations'', j_int api (count_active t)),
         (''course_utilization'', json_array api (course_usage api) courses),
         (''overall_capacity'', j_int api total_capacity),
         (''overall_enrolled'', j_int api total_enrolled),
         (''overall_utilization'', j_real api (utilization total_enrolled total_capacity))])"

definition admin_statistics :: "'j json_api \<Rightarrow> request \<Rightarrow> (conn, response) op" where
  "admin_statistics api req = admin_only api req (\<lambda>_.
     xbind (on_tables (statistics_json api)) (\<lambda>stats. xret (ok_with api 200 stats ''Success'')))"

section \<open>main.cpp\<close>

definition cors_preflight :: "(conn, response) op" where
  "cors_preflight = xret \<lparr>rs_code = 204, rs_body = [], rs_headers =
     [(''Access-Control-Allow-Origin'', ''*''),
      (''Access-Control-Allow-Methods'', ''GET, POST, PUT, DELETE, OPTIONS''),
      (''Access-Control-Allow-Headers'', ''Content-Type, Authorization''),
      (''Access-Control-Max-Age'', ''86400'')]\<rparr>"

definition health :: "'j json_api \<Rightarrow> (conn, response) op" where
  "health api = xret \<lparr>rs_code = 200, rs_body = j_dump api (j_obj api
       [(''status'', j_str api ''healthy''),
        (''service'', j_str api ''Academia Course Registration API''),
        (''version'', j_str api ''1.0.0'')]),
     rs_headers = [(''Content-Type'', ''application/json''), (''Access-Control-Allow-Origin'', ''*'')]\<rparr>"

datatype api_call =
    Login "nat \<Rightarrow> 4 word" | Logout | Me
  | List_Courses | Show_Course int | Post_Course | Put_Course int | Delete_Course int
  | Post_Register int | Delete_Register int | Student_Courses int | Faculty_Courses int
  | Course_Students int
  | List_Users | Post_User | Put_User int | Delete_User int | Statistics
  | Preflight | Health

fun handle :: "'j json_api \<Rightarrow> api_call \<Rightarrow> request \<Rightarrow> (conn, response) op" where
  "handle api (Login draws) req = post_login api draws req"
| "handle api Logout req = post_logout api req"
| "handle api Me req = get_me api req"
| "handle api List_Courses req = list_courses api req"
| "handle api (Show_Course i) req = show_course api i req"
| "handle api Post_Course req = post_course api req"
| "handle api (Put_Course i) req = put_course api i req"
| "handle api (Delete_Course i) req = remove_course api i req"
| "handle api (Post_Register c) req = post_register api c req"
| "handle api (Delete_Register c) req = delete_register api c req"
| "handle api (Student_Courses i) req = student_courses api i req"
| "handle api (Faculty_Courses i) req = faculty_courses api i req"
| "handle api (Course_Students c) req = course_students api c req"
| "handle api List_Users req = list_users api req"
| "handle api Post_User req = post_user api req"
| "handle api (Put_User i) req = put_user api i req"
| "handle api (Delete_User i) req = delete_user api i req"
| "handle api Statistics req = admin_statistics api req"
| "handle api Preflight req = cors_preflight"
| "handle api Health req = health api"

text \<open>
  Requests served one after the other, at instants the clock may move to between them; an
  exception ends its own request only.
\<close>

type_synonym event = "int \<times> api_call \<times> request"

fun serve :: "'j json_api \<Rightarrow> event \<Rightarrow> conn \<Rightarrow> conn" where
  "serve api (now, call, req) s = snd (handle api call req (s\<lparr>db_clock := now\<rparr>))"

end
