(* ===== verification/Request_Invariants.thy ===== *)
theory Request_Invariants
  imports Admin_Api Auth_Correctness Registration_Correctness
begin

text \<open>
  What every request keeps. \<open>keeps I m\<close> says that the operation \<open>m\<close> keeps the invariant
  \<open>I\<close>, whatever it returns or throws; the rules follow the combinators. The locale
  \<open>services\<close> is the interface between the controllers and the services and repositories:
  an invariant that every call a controller makes keeps. Its lemma says that every request,
  hence every sequence of requests, keeps it. It is interpreted three times: with the schema
  and seat limit, with the shape of the stored passwords, and with the role of an account.
\<close>

section \<open>Operations that keep an invariant\<close>

definition keeps :: "('s \<Rightarrow> bool) \<Rightarrow> ('s, 'a) op \<Rightarrow> bool" where
  "keeps I m \<longleftrightarrow> (\<forall>s. I s \<longrightarrow> I (snd (m s)))"

named_theorems keeps_rules "rules for operations that keep an invariant"

lemma keepsI: "(\<And>s. I s \<Longrightarrow> I (snd (m s))) \<Longrightarrow> keeps I m"
  by (simp add: keeps_def)

lemma keepsD: "keeps I m \<Longrightarrow> I s \<Longrightarrow> I (snd (m s))"
  by (simp add: keeps_def)

lemma keeps_xret [keeps_rules]: "keeps I (xret a)"
  by (simp add: keeps_def xret_def)

lemma keeps_xget [keeps_rules]: "keeps I (xget f)"
  by (simp add: keeps_def xget_def)

lemma keeps_xbind [keeps_rules]:
  assumes "keeps I m" "\<And>a. keeps I (f a)"
  shows "keeps I (xbind m f)"
proof (rule keepsI)
  fix s assume "I s"
  obtain r s' where m: "m s = (r, s')" by fastforce
  have s': "I s'" using keepsD [OF assms(1) \<open>I s\<close>] m by simp
  show "I (snd (xbind m f s))"
    using m s' keepsD [OF assms(2) s'] by (cases r) (simp_all add: xbind_def)
qed

lemma keeps_catch_json [keeps_rules]: "keeps I m \<Longrightarrow> keeps I (catch_json m h)"
proof (rule keepsI)
  fix s assume "keeps I m" "I s"
  then have "I (snd (m s))" by (rule keepsD)
  then show "I (snd (catch_json m h s))"
    by (auto simp: catch_json_def split: prod.splits sum.splits exn.splits)
qed

lemma keeps_authenticated [keeps_rules]: "keeps I (authenticated req)"
  by (simp add: authenticated_def keeps_xget)

lemma keeps_on_tables [keeps_rules]: "keeps I (on_tables f)"
  by (simp add: on_tables_def keeps_xget)

lemma keeps_lift_exc [keeps_rules]: "keeps I (lift_exc r)"
  by (simp add: lift_exc_def keeps_xget)

lemma keeps_lift_bind:
  "(\<And>a. r = Inr a \<Longrightarrow> keeps I (f a)) \<Longrightarrow> keeps I (xbind (lift_exc r) f)"
  by (cases r) (simp_all add: keeps_def xbind_def lift_exc_def xget_def)

lemma keeps_on_conn: "(\<And>s. I s \<Longrightarrow> I (snd (f s))) \<Longrightarrow> keeps I (on_conn f)"
  by (simp add: keeps_def on_conn_def case_prod_unfold)

lemma keeps_option [keeps_rules]:
  "keeps I m \<Longrightarrow> (\<And>a. keeps I (f a)) \<Longrightarrow> keeps I (case x of None \<Rightarrow> m | Some a \<Rightarrow> f a)"
  by (simp split: option.split)

lemma keeps_if [keeps_rules]:
  "(P \<Longrightarrow> keeps I m) \<Longrightarrow> (\<not> P \<Longrightarrow> keeps I m') \<Longrightarrow> keeps I (if P then m else m')"
  by simp

lemma keeps_let [keeps_rules]: "(\<And>a. keeps I (f a)) \<Longrightarrow> keeps I (let a = x in f a)"
  by simp

section \<open>The interface of the controllers\<close>

locale services =
  fixes I :: "conn \<Rightarrow> bool"
  assumes login_keeps: "I s \<Longrightarrow> I (snd (login name pw draws s))"
    and logout_keeps: "I s \<Longrightarrow> I (snd (logout tok s))"
    and create_course_keeps: "I s \<Longrightarrow> course_ints c \<Longrightarrow> I (snd (create_course c u s))"
    and update_course_keeps: "I s \<Longrightarrow> course_ints c \<Longrightarrow> I (snd (update_course c u s))"
    and delete_course_keeps: "I s \<Longrightarrow> I (snd (delete_course i u s))"
    and register_keeps: "I s \<Longrightarrow> I (snd (register_student sid cid s))"
    and drop_keeps: "I s \<Longrightarrow> I (snd (drop_student sid cid s))"
    and user_create_keeps: "I s \<Longrightarrow> I (snd (user_create (v\<lparr>u_password_hash := hash_password pw\<rparr>) s))"
    and user_update_keeps: "I s \<Longrightarrow> I (snd (user_update v s))"
    and password_keeps: "I s \<Longrightarrow> I (snd (user_update_password i (hash_password pw) s))"
    and user_remove_keeps: "I s \<Longrightarrow> authenticate_request h s = Inr (Some u) \<Longrightarrow> u_role u = Admin \<Longrightarrow> u_id u \<noteq> i \<Longrightarrow>
      I (snd (user_remove i s))"
    and clock_keeps: "I s \<Longrightarrow> I (s\<lparr>db_clock := now\<rparr>)"
begin

lemma keeps_admin_only: "(\<And>u. keeps I (k u)) \<Longrightarrow> keeps I (admin_only api req k)"
  unfolding admin_only_def by (intro keeps_rules)

lemma keeps_login: "keeps I (login name pw draws)"
  by (rule keepsI) (rule login_keeps)

lemma keeps_post_course: "keeps I (post_course api req)"
  unfolding post_course_def
  by (intro keeps_xbind keeps_authenticated keeps_option keeps_if keeps_xret keeps_catch_json keeps_lift_bind)
    (auto simp: Let_def intro!: keeps_rules keeps_on_conn create_course_keeps dest: Course_from_json_ints)

lemma keeps_put_course: "keeps I (put_course api i req)"
  unfolding put_course_def
  by (intro keeps_xbind keeps_authenticated keeps_option keeps_if keeps_xret keeps_catch_json keeps_lift_bind)
    (auto simp: Let_def intro!: keeps_rules keeps_on_conn update_course_keeps dest: Course_from_json_ints)

lemma keeps_post_user: "keeps I (post_user api req)"
  unfolding post_user_def
  by (intro keeps_admin_only keeps_rules) (auto simp: keeps_def intro: user_create_keeps)

lemma keeps_put_user: "keeps I (put_user api i req)"
  unfolding put_user_def
  by (intro keeps_admin_only keeps_rules keeps_on_conn) (auto intro: user_update_keeps password_keeps)

text \<open>The account that deletes another one is an administrator and stays.\<close>

lemma keeps_delete_user: "keeps I (delete_user api i req)"
proof (rule keepsI)
  fix s assume "I s"
  then have "I s'" if "user_remove i s = (b, s')" "authenticate_request (rq_authorization req) s = Inr (Some u)"
      "u_role u = Admin" "u_id u \<noteq> i" for b s' u
    using user_remove_keeps [OF _ that(2-4)] that(1) by simp
  then show "I (snd (delete_user api i req s))"
    using \<open>I s\<close> by (auto simp: delete_user_def admin_only_def authenticated_def on_conn_def op_simps
        split: sum.split option.split prod.split)
qed

lemma handle_keeps: "keeps I (handle api call req)"
proof (cases call)
  case (Login draws)
  then show ?thesis
    by (simp add: post_login_def Let_def) (intro keeps_rules keeps_login)
next
  case Logout
  then show ?thesis
    by (simp add: post_logout_def Let_def) (intro conjI impI keeps_rules keeps_on_conn logout_keeps)
next
  case (Delete_Course i)
  then show ?thesis
    by (simp add: remove_course_def) (intro keeps_rules keeps_on_conn delete_course_keeps)
next
  case (Post_Register c)
  then show ?thesis
    by (simp add: post_register_def Let_def) (intro keeps_rules keeps_on_conn register_keeps)
next
  case (Delete_Register c)
  then show ?thesis
    by (simp add: delete_register_def Let_def) (intro keeps_rules keeps_on_conn drop_keeps)
qed (auto simp: keeps_post_course keeps_put_course keeps_post_user keeps_put_user keeps_delete_user
    get_me_def list_courses_def show_course_def student_courses_def faculty_courses_def
    course_students_def list_users_def admin_statistics_def cors_preflight_def health_def Let_def
    intro!: keeps_admin_only keeps_rules)

lemma serve_keeps: "I s \<Longrightarrow> I (serve api e s)"
  by (cases e) (simp add: keepsD [OF handle_keeps] clock_keeps)

lemma serve_all_keeps: "I s \<Longrightarrow> I (fold (serve api) es s)"
  by (induction es arbitrary: s) (simp_all add: serve_keeps)

end

section \<open>The schema and the seats\<close>

definition server_ok :: "conn \<Rightarrow> bool" where
  "server_ok s \<longleftrightarrow> db_ok (db_tabs s) \<and> idle s \<and> engine_ok s"

lemma server_ok_frame: "server_ok s \<Longrightarrow> stmt_frame s s' \<Longrightarrow> db_ok (db_tabs s') \<Longrightarrow> server_ok s'"
  by (simp add: server_ok_def idle_def engine_ok_def stmt_frame_def)

lemma user_statement_frames [simp]:
  "stmt_frame s (snd (user_create u s))" "stmt_frame s (snd (user_update u s))"
  "stmt_frame s (snd (user_update_password i h s))" "stmt_frame s (snd (user_remove i s))"
  "stmt_frame s (snd (logout tok s))"
  by (simp_all add: snd_user_create user_update_def user_update_password_def user_remove_def logout_def)

lemma logout_db_ok [wf_rules]: "db_ok (db_tabs s) \<Longrightarrow> db_ok (db_tabs (snd (logout tok s)))"
  by (simp add: logout_def delete_session_db_ok del: delete_session_tabs)

lemmas service_frames = login_frame create_course_frame update_course_frame delete_course_frame

interpretation schema: services server_ok
proof unfold_locales
  fix s sid cid assume "server_ok s"
  then show "server_ok (snd (register_student sid cid s))" "server_ok (snd (drop_student sid cid s))"
    by (simp_all add: server_ok_def register_ok drop_ok)
next
  fix s now assume "server_ok s"
  then show "server_ok (s\<lparr>db_clock := now\<rparr>)" by (simp add: server_ok_def idle_def engine_ok_def)
qed (rule server_ok_frame, assumption, simp add: service_frames, simp add: server_ok_def wf_rules)+

section \<open>Accounts\<close>

lemma authenticated_row:
  assumes "authenticate_request h s = Inr (Some u)"
  shows "\<exists>r \<in> set (t_users (db_tabs s)). row_to_user r = Inr u"
proof -
  obtain i where "user_find_by_id i (db_tabs s) = Inr (Some u)"
    using assms
    by (auto simp: authenticate_request_def validate_token_def Let_def split: if_splits option.splits)
  then show ?thesis using user_find_by_id_Some by blast
qed

text \<open>The calls that touch no account.\<close>

definition accounts :: "conn \<Rightarrow> user_row list \<times> int" where
  "accounts s = (t_users (db_tabs s), t_user_seq (db_tabs s))"

lemma accounts_session [simp]:
  "accounts (create_session tok i s) = accounts s" "accounts (delete_session tok s) = accounts s"
  by (simp_all add: accounts_def create_session_def step_insert_def replace_session_row_def Let_def
      split: option.split)

lemma accounts_login [simp]: "accounts (snd (login name pw draws s)) = accounts s"
  by (auto simp: login_def op_simps Let_def split: sum.split option.split)

lemma accounts_logout [simp]: "accounts (snd (logout tok s)) = accounts s"
  by (simp add: logout_def)

lemma accounts_course_statements [simp]:
  "accounts (snd (course_create c s)) = accounts s" "accounts (snd (course_update c s)) = accounts s"
  "accounts (snd (course_remove i s)) = accounts s"
  by (simp_all add: accounts_def snd_course_create course_update_def course_remove_def step_insert_def
      step_write_def insert_course_row_def update_course_rows_def delete_course_row_def Let_def
      split: option.split)

lemma accounts_course_service [simp]:
  "accounts (snd (create_course c u s)) = accounts s" "accounts (snd (update_course c u s)) = accounts s"
  "accounts (snd (delete_course i u s)) = accounts s"
proof -
  have "snd (create_course c u s) = s \<or> snd (create_course c u s) = snd (course_create c s)"
    by (auto simp: create_course_def split: prod.split sum.split)
  then show "accounts (snd (create_course c u s)) = accounts s" by auto
  show "accounts (snd (update_course c u s)) = accounts s"
    by (cases rule: update_course_cases [of c u s]) simp_all
  show "accounts (snd (delete_course i u s)) = accounts s"
    using snd_delete_course [of i u s] by auto
qed

lemma reg_create_user_seq: "t_user_seq (db_tabs (snd (reg_create sid cid s))) = t_user_seq (db_tabs s)"
proof -
  have i: "t_user_seq (db_tabs (snd (insert_registration sid cid q))) = t_user_seq (db_tabs q)" for q
    by (auto simp: insert_registration_def step_insert_def insert_reg_row_def Let_def split: option.split)
  have r: "t_user_seq (db_tabs (snd (reactivate sid cid s))) = t_user_seq (db_tabs s)"
    by (simp add: reactivate_eq)
  show ?thesis by (cases rule: reg_create_cases [of sid cid s]) (simp_all add: i r)
qed

lemma accounts_register_body [simp]: "accounts (snd (register_body sid cid s)) = accounts s"
proof -
  have "t_user_seq (db_tabs s') = t_user_seq (db_tabs s)" if "reg_create sid cid s = (r, s')" for r s'
    using reg_create_user_seq [of sid cid s] that by simp
  then have "t_user_seq (db_tabs (snd (register_body sid cid s))) = t_user_seq (db_tabs s)"
    by (auto simp: register_body_def Let_def split: option.split prod.split sum.split)
  then show ?thesis
    using register_body_catalogue [of s sid cid] by (simp add: accounts_def same_catalogue_def)
qed

lemma accounts_txn [simp]:
  "accounts (s\<lparr>db_txn := x\<rparr>) = accounts s"
  "accounts (s\<lparr>db_tabs := t\<rparr>) = (t_users t, t_user_seq t)"
  "accounts (s\<lparr>db_clock := now\<rparr>) = accounts s"
  by (simp_all add: accounts_def)

lemma accounts_drop_body [simp]: "accounts (snd (drop_body sid cid s)) = accounts s"
  by (simp add: accounts_def drop_body_def drop_registration_def Let_def step_write_def
      update_reg_rows_def reg_remove_def delete_reg_row_def op_simps split: option.split prod.split sum.split)

lemma accounts_registration:
  assumes "idle s" "engine_ok s"
  shows "accounts (snd (register_student sid cid s)) = accounts s"
    "accounts (snd (drop_student sid cid s)) = accounts s"
proof -
  let ?s1 = "s\<lparr>db_txn := Some (db_tabs s)\<rparr>"
  have "accounts q = accounts s" if "register_body sid cid ?s1 = (r, q)" for r q
    using accounts_register_body [of sid cid ?s1] that by simp
  then show "accounts (snd (register_student sid cid s)) = accounts s"
    by (auto simp: register_student_idle [OF assms] accounts_def [of s] split: prod.split sum.split)
  have "accounts q = accounts s" if "drop_body sid cid ?s1 = (r, q)" for r q
    using accounts_drop_body [of sid cid ?s1] that by simp
  then show "accounts (snd (drop_student sid cid s)) = accounts s"
    by (auto simp: drop_student_idle [OF assms] accounts_def [of s] split: prod.split sum.split)
qed

text \<open>
  An invariant of the accounts that the three statements on users keep is kept by every
  request.
\<close>

locale account_invariant =
  fixes P :: "user_row list \<times> int \<Rightarrow> bool"
  assumes insert_keeps: "P (us, n) \<Longrightarrow> length (ur_password_hash r) = 64 \<Longrightarrow>
      list_all lower_hex (ur_password_hash r) \<Longrightarrow> P (us @ [r\<lparr>ur_id := n + 1\<rparr>], n + 1)"
    and update_keeps: "P (us, n) \<Longrightarrow> (\<And>r. ur_id (f r) = ur_id r \<and> ur_username (f r) = ur_username r \<and>
      ur_role (f r) = ur_role r \<and>
      (ur_password_hash (f r) = ur_password_hash r \<or>
       length (ur_password_hash (f r)) = 64 \<and> list_all lower_hex (ur_password_hash (f r)))) \<Longrightarrow>
      P (sql_update Q f us, n)"
    and delete_keeps: "P (us, n) \<Longrightarrow> r \<in> set us \<Longrightarrow> ur_role r = ''admin'' \<Longrightarrow> \<not> Q r \<Longrightarrow> P (sql_delete Q us, n)"
begin

definition served :: "conn \<Rightarrow> bool" where
  "served s \<longleftrightarrow> P (accounts s) \<and> idle s \<and> engine_ok s"

lemma served_frame: "served s \<Longrightarrow> stmt_frame s s' \<Longrightarrow> P (accounts s') \<Longrightarrow> served s'"
  by (simp add: served_def idle_def engine_ok_def stmt_frame_def)

lemma hash_shape: "length (hash_password pw) = 64" "list_all lower_hex (hash_password pw)"
  by (simp_all add: hash_password_def sha256_shape)

lemma create_keeps:
  assumes "P (accounts s)"
  shows "P (accounts (snd (user_create (v\<lparr>u_password_hash := hash_password pw\<rparr>) s)))"
proof -
  let ?r = "user_row_of (v\<lparr>u_password_hash := hash_password pw\<rparr>) s"
  have h: "length (ur_password_hash ?r) = 64 \<and> list_all lower_hex (ur_password_hash ?r)"
    by (simp add: user_row_of_def hash_shape)
  have "P (t_users (db_tabs s) @ [?r\<lparr>ur_id := t_user_seq (db_tabs s) + 1\<rparr>], t_user_seq (db_tabs s) + 1)"
    using insert_keeps [of "t_users (db_tabs s)" "t_user_seq (db_tabs s)" ?r] h assms
    by (simp add: accounts_def)
  then show ?thesis
    using assms by (simp add: snd_user_create step_insert_def insert_user_row_def Let_def accounts_def)
qed

lemma services_served: "services served"
proof unfold_locales
  fix s sid cid assume "served s"
  then show "served (snd (register_student sid cid s))" "served (snd (drop_student sid cid s))"
    by (simp_all add: served_def accounts_registration)
next
  fix s v pw assume "served s"
  then show "served (snd (user_create (v\<lparr>u_password_hash := hash_password pw\<rparr>) s))"
    by (intro served_frame [OF \<open>served s\<close>]) (simp_all add: create_keeps served_def)
next
  fix s v assume s: "served s"
  have "P (accounts (snd (user_update v s)))"
    using s unfolding user_update_def step_write_def update_user_rows_def accounts_def served_def
    by (auto intro!: update_keeps)
  then show "served (snd (user_update v s))" by (intro served_frame [OF s]) simp_all
next
  fix s i pw assume s: "served s"
  have "P (accounts (snd (user_update_password i (hash_password pw) s)))"
    using s unfolding user_update_password_def step_write_def update_user_rows_def accounts_def served_def
    by (auto intro!: update_keeps simp: hash_shape)
  then show "served (snd (user_update_password i (hash_password pw) s))"
    by (intro served_frame [OF s]) simp_all
next
  fix s h u i
  assume s: "served s" and u: "authenticate_request h s = Inr (Some u)" "u_role u = Admin" "u_id u \<noteq> i"
  obtain r where r: "r \<in> set (t_users (db_tabs s))" "ur_role r = ''admin''" "ur_id r \<noteq> i"
    using authenticated_row [OF u(1)] u(2,3) by (auto simp: row_to_user_def emap_Inr_iff string_to_role_Inr_iff)
  have "P (sql_delete (\<lambda>r. ur_id r = i) (t_users (db_tabs s)), t_user_seq (db_tabs s))"
    using s r by (intro delete_keeps [of _ _ r]) (simp_all add: served_def accounts_def)
  then have "P (accounts (snd (user_remove i s)))"
    by (simp add: user_remove_def step_write_def delete_user_row_def accounts_def)
  then show "served (snd (user_remove i s))" by (intro served_frame [OF s]) simp_all
next
  fix s now assume "served s"
  then show "served (s\<lparr>db_clock := now\<rparr>)" by (simp add: served_def idle_def engine_ok_def)
qed (rule served_frame, assumption, simp add: service_frames, simp add: served_def)+

lemma requests_keep:
  assumes "P (accounts s)" "idle s" "engine_ok s"
  shows "P (accounts (fold (serve api) es s))"
  using services.serve_all_keeps [OF services_served, of s api es] assms by (simp add: served_def)

end

text \<open>Every stored password hash is 64 hexadecimal digits.\<close>

definition hash_shaped :: "user_row \<Rightarrow> bool" where
  "hash_shaped r \<longleftrightarrow> length (ur_password_hash r) = 64 \<and> list_all lower_hex (ur_password_hash r)"

definition passwords_hashed :: "user_row list \<times> int \<Rightarrow> bool" where
  "passwords_hashed a \<longleftrightarrow> list_all hash_shaped (fst a)"

interpretation passwords: account_invariant passwords_hashed
proof unfold_locales
  fix us :: "user_row list" and n Q and f :: "user_row \<Rightarrow> user_row"
  assume "passwords_hashed (us, n)"
    and f: "\<And>r. ur_id (f r) = ur_id r \<and> ur_username (f r) = ur_username r \<and> ur_role (f r) = ur_role r \<and>
      (ur_password_hash (f r) = ur_password_hash r \<or>
       length (ur_password_hash (f r)) = 64 \<and> list_all lower_hex (ur_password_hash (f r)))"
  moreover have "hash_shaped r \<Longrightarrow> hash_shaped (f r)" for r
    using f [of r] by (auto simp: hash_shaped_def)
  ultimately show "passwords_hashed (sql_update Q f us, n)"
    by (auto simp: passwords_hashed_def list_all_iff set_sql_update)
qed (simp_all add: passwords_hashed_def hash_shaped_def list_all_sql_delete)

text \<open>Account \<open>i\<close>, while it exists, has this name and role; its id is not given away again.\<close>

definition account_is :: "int \<Rightarrow> string \<Rightarrow> string \<Rightarrow> user_row list \<times> int \<Rightarrow> bool" where
  "account_is i name role a \<longleftrightarrow> i \<le> snd a \<and>
     list_all (\<lambda>r. ur_id r = i \<longrightarrow> ur_username r = name \<and> ur_role r = role) (fst a)"

interpretation identity: account_invariant "account_is i name role" for i name role
  by unfold_locales (auto simp: account_is_def list_all_iff set_sql_update)

text \<open>There is an administrator.\<close>

definition has_admin :: "user_row list \<times> int \<Rightarrow> bool" where
  "has_admin a \<longleftrightarrow> (\<exists>r \<in> set (fst a). ur_role r = ''admin'')"

interpretation administration: account_invariant has_admin
proof unfold_locales
  fix us :: "user_row list" and n Q and f :: "user_row \<Rightarrow> user_row"
  assume "has_admin (us, n)"
    and f: "\<And>r. ur_id (f r) = ur_id r \<and> ur_username (f r) = ur_username r \<and> ur_role (f r) = ur_role r \<and>
      (ur_password_hash (f r) = ur_password_hash r \<or>
       length (ur_password_hash (f r)) = 64 \<and> list_all lower_hex (ur_password_hash (f r)))"
  then obtain r where "r \<in> set us" "ur_role r = ''admin''" by (auto simp: has_admin_def)
  then have "(if Q r then f r else r) \<in> set (sql_update Q f us)" "ur_role (if Q r then f r else r) = ''admin''"
    using f [of r] by (auto simp: set_sql_update)
  then show "has_admin (sql_update Q f us, n)" by (auto simp: has_admin_def)
qed (auto simp: has_admin_def)

end
