(* ===== verification/Api_Correctness.thy ===== *)
theory Api_Correctness
  imports Request_Invariants Course_Correctness
begin

text \<open>
  What the HTTP interface promises: who may call what, what no request can break, how the
  outcome of a registration shows in the status code, that the statistics agree with each
  other, and four places where a handler does not do what its comment or status says.
\<close>

section \<open>Sequences of requests\<close>

text \<open>C3: Whatever requests are served one after the other, at whatever instants, a consistent
  database stays consistent: keys, references and value ranges hold and no course has more
  active registrations than seats; no transaction is left open.\<close>

theorem requests_keep_database_consistent:
  assumes "db_ok (db_tabs s)" "idle s" "engine_ok s"
  shows "db_ok (db_tabs (fold (serve api) es s)) \<and> idle (fold (serve api) es s)"
  using schema.serve_all_keeps [of s api es] assms by (simp add: server_ok_def)

definition demo_api :: "jv json_api" where
  "demo_api = jv_api (\<lambda>s. if s = ''{}'' then Inr (JObj []) else Inl (Json_Error ''parse error'')) (\<lambda>_. [])"

definition bearer :: "string \<Rightarrow> request" where
  "bearer tok = \<lparr>rq_authorization = ''Bearer '' @ tok, rq_body = ''{}'', rq_search = None\<rparr>"

theorem requests_keep_database_consistent_witness:
  "db_ok (db_tabs (fold (serve demo_api)
     [(1, Post_Course, bearer ''t2''), (2, Put_Course 1, bearer ''t2''), (3, Delete_Course 1, bearer ''t2'')]
     sample))"
  by (rule conjunct1, rule requests_keep_database_consistent) simp_all

text \<open>C18: A database whose stored passwords are all 64 hexadecimal digits stays so under every
  sequence of requests: no handler ever stores a password as it was sent.\<close>

theorem requests_store_only_hashes:
  assumes "passwords_hashed (accounts s)" "idle s" "engine_ok s"
  shows "passwords_hashed (accounts (fold (serve api) es s))"
  using assms by (rule passwords.requests_keep)

definition fresh_server :: conn where
  "fresh_server = sample\<lparr>db_tabs := initialize_schema\<rparr>"

lemma fresh_server_ok [simp]: "idle fresh_server" "engine_ok fresh_server"
    "db_tabs fresh_server = initialize_schema"
  by (simp_all add: fresh_server_def idle_def engine_ok_def)

theorem requests_store_only_hashes_witness:
  "passwords_hashed (accounts (fold (serve demo_api) [(1, Post_User, bearer ''t2'')] fresh_server))"
  by (rule requests_store_only_hashes)
    (simp_all add: accounts_def passwords_hashed_def initialize_schema_def)





section \<open>Who may call what\<close>

fun public_call :: "api_call \<Rightarrow> bool" where
  "public_call (Login d) = True"
| "public_call Logout = True"
| "public_call Preflight = True"
| "public_call Health = True"
| "public_call c = False"

fun role_may :: "User \<Rightarrow> api_call \<Rightarrow> bool" where
  "role_may u Post_Course = (u_role u \<in> {Faculty, Admin})"
| "role_may u (Put_Course i) = (u_role u \<in> {Faculty, Admin})"
| "role_may u (Post_Register c) = (u_role u = Student)"
| "role_may u (Delete_Register c) = (u_role u = Student)"
| "role_may u (Student_Courses i) = (u_role u = Student \<longrightarrow> u_id u = i)"
| "role_may u (Faculty_Courses i) = (u_role u \<noteq> Student)"
| "role_may u (Course_Students c) = (u_role u \<noteq> Student)"
| "role_may u List_Users = has_role u Admin"
| "role_may u Post_User = has_role u Admin"
| "role_may u (Put_User i) = has_role u Admin"
| "role_may u (Delete_User i) = (has_role u Admin \<and> u_id u \<noteq> i)"
| "role_may u Statistics = has_role u Admin"
| "role_may u c = True"

lemmas handler_defs = get_me_def list_courses_def show_course_def post_course_def put_course_def
  remove_course_def post_register_def delete_register_def student_courses_def faculty_courses_def
  course_students_def list_users_def post_user_def put_user_def delete_user_def
  admin_statistics_def admin_only_def

definition refusal :: "'j json_api \<Rightarrow> api_call \<Rightarrow> response \<Rightarrow> bool" where
  "refusal api call r \<longleftrightarrow> r = fail_with api 401 ''Not authenticated'' \<or> (\<exists>msg. r = fail_with api 403 msg) \<or>
     (\<exists>i. call = Delete_User i \<and> r = fail_with api 400 ''Cannot delete your own account'')"

lemma refusalI [simp]:
  "refusal api call (fail_with api 401 ''Not authenticated'')" "refusal api call (fail_with api 403 msg)"
  "refusal api (Delete_User i) (fail_with api 400 ''Cannot delete your own account'')"
  by (auto simp: refusal_def)

text \<open>C12: A call that is not public and whose token names no user, or whose user's role does not
  allow it, is refused with status 401, 403 or, for deleting oneself, 400, and changes
  nothing.\<close>

theorem handlers_enforce_roles:
  assumes "authenticate_request (rq_authorization req) s = Inr uo" "\<not> public_call call"
    and "case uo of None \<Rightarrow> True | Some u \<Rightarrow> \<not> role_may u call"
  shows "\<exists>r. handle api call req s = (Inr r, s) \<and> refusal api call r"
  using assms
  by (cases call; cases uo)
    (simp_all add: handler_defs authenticated_def op_simps has_role_def split: if_splits)

theorem handlers_enforce_roles_witness:
  "\<exists>r. handle demo_api Statistics (bearer ''t2'') sample = (Inr r, sample) \<and>
     refusal demo_api Statistics r"
proof -
  have "authenticate_request (rq_authorization (bearer ''t2'')) sample = validate_token ''t2'' sample"
    unfolding bearer_def request.simps by (rule authenticate_bearer) simp
  then show ?thesis
    using handlers_enforce_roles [of "bearer ''t2''" sample _ Statistics demo_api] sample_prof
    by (auto simp: has_role_def)
qed

section \<open>Registration over HTTP\<close>

fun outcome_status :: "outcome \<Rightarrow> int" where
  "outcome_status Done = 201"
| "outcome_status Not_Found = 404"
| "outcome_status Already = 409"
| "outcome_status Full = 409"
| "outcome_status Not_Enrolled = 400"

lemma register_status_texts:
  "register_status ''Course not found'' = 404" "register_status ''Course is full'' = 409"
  "register_status ''Already enrolled in this course'' = 409"
  by code_simp+

lemma fail_with_code [simp]: "rs_code (fail_with api code msg) = code"
  by (simp add: fail_with_def reply_def)

lemma ok_with_code [simp]: "rs_code (ok_with api code data msg) = code"
  by (simp add: ok_with_def json_reply_def)

lemma authenticated_user:
  assumes "authenticate_request h s = Inr (Some u)"
  shows "u_id u \<in> user_ids (db_tabs s)"
proof -
  have "\<exists>i. user_find_by_id i (db_tabs s) = Inr (Some u)"
    using assms
    by (auto simp: authenticate_request_def validate_token_def Let_def split: if_splits option.splits)
  then show ?thesis using user_find_by_id_Some unfolding user_ids_def by (metis image_eqI)
qed

text \<open>A student who registers over HTTP gets the status code of the outcome that the abstract
  specification gives (201 registered, 404 no such course, 409 full or already
  registered), although the handler recovers it from the text of the error, and the seats
  are those of the specification afterwards.\<close>

theorem register_status_codes:
  assumes "db_ok (db_tabs s)" "idle s" "engine_ok s" "reg_ids_left (db_tabs s)"
    and "authenticate_request (rq_authorization req) s = Inr (Some u)" "u_role u = Student"
  shows "\<exists>r s'. handle api (Post_Register c) req s = (Inr r, s') \<and>
    (case spec_register (u_id u) c (seats_of (db_tabs s)) of (oc, n, a) \<Rightarrow>
       rs_code r = outcome_status oc \<and> seats_of (db_tabs s') = a)"
proof -
  obtain q s' where call: "register_student (u_id u) c s = (q, s')" by fastforce
  obtain oc n a where spec: "spec_register (u_id u) c (seats_of (db_tabs s)) = (oc, n, a)"
    by (metis prod_cases3)
  have r: "shows_outcome q oc \<and> res_remaining_seats q = n \<and> seats_of (db_tabs s') = a"
    by (rule register_refines [OF assms(1-3) authenticated_user [OF assms(5)] assms(4) call spec])
  have oc: "oc \<noteq> Not_Enrolled"
    using spec by (auto simp: spec_register_def Let_def split: option.splits if_splits)
  have "handle api (Post_Register c) req s =
      (if \<not> res_success q then (Inr (fail_with api (register_status (res_error q)) (res_error q)), s')
       else (Inr (ok_with api 201 (j_obj api
              [(''registration_id'', j_int api (res_registration_id q)),
               (''remaining_seats'', j_int api (res_remaining_seats q))]) ''Registration successful''), s'))"
    using assms(5,6)
    by (simp add: post_register_def authenticated_def op_simps on_conn_def call Let_def)
  then show ?thesis using r oc spec by (cases oc) (simp_all add: register_status_texts)
qed

definition sample_session_of :: "int \<Rightarrow> session_row" where
  "sample_session_of i = \<lparr>sr_rowid = 2, sr_token = ''t'', sr_user_id = i, sr_created_at = [],
     sr_expires_at = None\<rparr>"

definition signed_in :: "int \<Rightarrow> conn" where
  "signed_in i = sample\<lparr>db_tabs := sample_tabs\<lparr>t_sessions := [sample_session_of i]\<rparr>\<rparr>"

lemma signed_in_simps [simp]:
  "db_tabs (signed_in i) = sample_tabs\<lparr>t_sessions := [sample_session_of i]\<rparr>"
  "idle (signed_in i)" "engine_ok (signed_in i)"
  by (simp_all add: signed_in_def idle_def engine_ok_def)

lemma signed_in_ok: "i \<in> {1, 2, 3, 4} \<Longrightarrow> db_ok (db_tabs (signed_in i))"
proof -
  assume i: "i \<in> {1, 2, 3, 4}"
  let ?t = "sample_tabs\<lparr>t_sessions := [sample_session_of i]\<rparr>"
  have ids: "user_ids ?t = user_ids sample_tabs" "course_ids ?t = course_ids sample_tabs"
    "active_count ?t = active_count sample_tabs" "faculty_ref_ok ?t = faculty_ref_ok sample_tabs"
    by (auto simp: user_ids_def course_ids_def active_count_def faculty_ref_ok_def fun_eq_iff split: option.split)
  have "sessions_ok ?t" using i by (simp add: sessions_ok_def ids sample_session_of_def)
  then show ?thesis
    using sample_db_ok by (simp add: db_ok_def wf_tables_def users_ok_def courses_ok_def regs_ok_def seats_ok_def ids)
qed

lemma signed_in_auth: "authenticate_request (rq_authorization (bearer ''t'')) (signed_in i) =
    user_find_by_id i (sample_tabs\<lparr>t_sessions := [sample_session_of i]\<rparr>)"
proof -
  have "authenticate_request (rq_authorization (bearer ''t'')) (signed_in i) = validate_token ''t'' (signed_in i)"
    unfolding bearer_def request.simps by (rule authenticate_bearer) simp
  then show ?thesis
    by (simp add: validate_token_def validate_session_def session_live_def sample_session_of_def c_str_def)
qed

lemma signed_in_student: "\<exists>u. authenticate_request (rq_authorization (bearer ''t'')) (signed_in 4) = Inr (Some u) \<and>
    u_id u = 4 \<and> u_role u = Student"
  unfolding signed_in_auth
  by (simp add: user_find_by_id_def first_user_def row_to_user_def string_to_role_def sample_tabs_def sample_rows)

theorem register_status_codes_witness:
  "\<exists>r s'. handle demo_api (Post_Register 9) (bearer ''t'') (signed_in 4) = (Inr r, s') \<and> rs_code r = 404"
proof -
  obtain u where u: "authenticate_request (rq_authorization (bearer ''t'')) (signed_in 4) = Inr (Some u)"
    "u_id u = 4" "u_role u = Student"
    using signed_in_student by blast
  have "capacity_of (db_tabs (signed_in 4)) 9 = None"
    by (simp add: capacity_of_def sample_tabs_def sample_rows)
  then have "spec_register 4 9 (seats_of (db_tabs (signed_in 4))) = (Not_Found, 0, seats_of (db_tabs (signed_in 4)))"
    by (simp add: spec_register_def seats_of_def)
  moreover have "reg_ids_left (db_tabs (signed_in 4))" by (simp add: reg_ids_left_def i64_max_def)
  ultimately show ?thesis
    using register_status_codes [OF signed_in_ok _ _ _ u(1,3), of demo_api 9] u(2) by auto
qed

section \<open>Four surprises\<close>

text \<open>C25: A student can delete any course: the handler checks no role and the service refuses only
  lecturers who do not own the course. The course goes with all its registrations.\<close>

theorem student_deletes_any_course:
  assumes "authenticate_request (rq_authorization req) s = Inr (Some u)" "u_role u = Student"
    and "i \<in> course_ids (db_tabs s)"
  shows "\<exists>r s'. handle api (Delete_Course i) req s = (Inr r, s') \<and> rs_code r = 200 \<and>
    i \<notin> course_ids (db_tabs s') \<and> enrolled (db_tabs s') i = {}"
proof -
  obtain c where c: "course_find_by_id i (db_tabs s) = Some c"
    using assms(3) course_find_by_id_None_iff by fastforce
  have "delete_course i u s = (course_done i, snd (course_remove i s))"
    using c assms(2) by (simp add: delete_course_def)
  moreover have "db_tabs (snd (course_remove i s)) = fst (delete_course_row i (db_tabs s))"
    by (simp add: course_remove_def step_write_def split: prod.split)
  ultimately show ?thesis
    using assms(1)
    by (auto simp: remove_course_def authenticated_def op_simps on_conn_def course_done_def
        delete_course_row_def course_ids_def enrolled_iff)
qed

theorem student_deletes_any_course_witness:
  "\<exists>r s'. handle demo_api (Delete_Course 1) (bearer ''t'') (signed_in 4) = (Inr r, s') \<and> rs_code r = 200 \<and>
    1 \<notin> course_ids (db_tabs s')"
proof -
  obtain u where u: "authenticate_request (rq_authorization (bearer ''t'')) (signed_in 4) = Inr (Some u)"
    "u_role u = Student"
    using signed_in_student by blast
  have "1 \<in> course_ids (db_tabs (signed_in 4))"
    by (simp add: course_ids_def sample_tabs_def sample_rows)
  then show ?thesis using student_deletes_any_course [OF u, of 1 demo_api] by blast
qed

text \<open>Creating a user with a role that does not exist is not answered with status 400: the
  exception of \<open>string_to_role\<close> is no JSON exception and leaves the handler.\<close>

theorem unknown_role_escapes:
  assumes "json_object_laws api" "j_parse api (rq_body req) = Inr (j_obj api kvs)"
    and "map_of kvs ''role'' = Some (j_str api role)" "role \<notin> set role_names"
    and "map_of kvs ''id'' = None" "map_of kvs ''username'' = Some (j_str api name)"
    and "authenticate_request (rq_authorization req) s = Inr (Some u)" "u_role u = Admin"
  shows "handle api Post_User req s = (Inl (Invalid_Argument (''Invalid role: '' @ role)), s)"
proof -
  have "get_role api (j_str api role) = Inl (Invalid_Argument (''Invalid role: '' @ role))"
    using assms(1,4) by (simp add: get_role_def json_conversions string_to_role_def role_names_def)
  then have "User_from_json api (j_obj api kvs) = Inl (Invalid_Argument (''Invalid role: '' @ role))"
    using assms(3,5,6)
    by (simp add: User_from_json_def read_field_obj [OF assms(1)] json_conversions [OF assms(1)])
  then show ?thesis
    using assms(2,7,8)
    by (simp add: post_user_def admin_only_def authenticated_def op_simps catch_json_def lift_exc_def)
qed

definition body_api :: "jv \<Rightarrow> jv json_api" where
  "body_api v = jv_api (\<lambda>_. Inr v) (\<lambda>_. [])"

lemma signed_in_admin: "\<exists>u. authenticate_request (rq_authorization (bearer ''t'')) (signed_in 1) = Inr (Some u) \<and>
    u_id u = 1 \<and> u_role u = Admin"
  unfolding signed_in_auth
  by (simp add: user_find_by_id_def first_user_def row_to_user_def string_to_role_def sample_tabs_def sample_rows)

theorem unknown_role_escapes_witness:
  "handle (body_api (JObj [(''username'', JStr ''zed''), (''role'', JStr ''dean'')])) Post_User
     (bearer ''t'') (signed_in 1) = (Inl (Invalid_Argument ''Invalid role: dean''), signed_in 1)"
proof -
  let ?kvs = "[(''username'', JStr ''zed''), (''role'', JStr ''dean'')]"
  obtain u where u: "authenticate_request (rq_authorization (bearer ''t'')) (signed_in 1) = Inr (Some u)"
    "u_role u = Admin"
    using signed_in_admin by blast
  show ?thesis
    using unknown_role_escapes [of "body_api (JObj ?kvs)" "bearer ''t''" ?kvs "''dean''" "''zed''"] u
    by (simp add: body_api_def jv_object_laws role_names_def)
qed

text \<open>An update of a user whose password is not a string is answered with status 400 after the
  other fields have been written.\<close>

theorem rejected_update_is_applied:
  assumes "authenticate_request (rq_authorization req) s = Inr (Some u)" "u_role u = Admin"
    and "j_parse api (rq_body req) = Inr body" "user_find_by_id i (db_tabs s) = Inr (Some e)"
    and "j_contains api body ''name''" "as_string api (j_at api body ''name'') = Inr name"
    and "\<not> j_contains api body ''email''" "\<not> j_contains api body ''active''"
    and "j_contains api body ''password''" "as_string api (j_at api body ''password'') = Inl (Json_Error x)"
  shows "\<exists>s'. handle api (Put_User i) req s = (Inr (fail_with api 400 ''Invalid JSON body''), s') \<and>
    s' = snd (user_update (e\<lparr>u_name := name\<rparr>) s) \<and>
    (\<exists>q \<in> set (t_users (db_tabs s')). ur_id q = i \<and> ur_name q = c_str name)"
proof -
  have "handle api (Put_User i) req s =
      (Inr (fail_with api 400 ''Invalid JSON body''), snd (user_update (e\<lparr>u_name := name\<rparr>) s))"
    using assms
    by (simp add: put_user_def admin_only_def authenticated_def op_simps catch_json_def lift_exc_def
        read_field_def on_conn_def split: prod.split)
  moreover obtain q where q: "q \<in> set (t_users (db_tabs s))" "ur_id q = i" "u_id e = i"
    using user_find_by_id_Some [OF assms(4)] by auto
  then have "\<exists>q \<in> set (t_users (db_tabs (snd (user_update (e\<lparr>u_name := name\<rparr>) s)))).
      ur_id q = i \<and> ur_name q = c_str name"
    by (intro bexI [of _ "q\<lparr>ur_name := c_str name, ur_email := c_str (u_email e),
          ur_active := (if u_active e then 1 else 0)\<rparr>"])
      (auto simp: user_update_def step_write_def update_user_rows_def set_sql_update image_iff
        intro!: bexI [of _ q])
  ultimately show ?thesis by blast
qed

theorem rejected_update_is_applied_witness:
  "\<exists>s'. handle (body_api (JObj [(''name'', JStr ''Zoe''), (''password'', JInt 5)])) (Put_User 3)
     (bearer ''t'') (signed_in 1) =
     (Inr (fail_with (body_api (JObj [(''name'', JStr ''Zoe''), (''password'', JInt 5)])) 400 ''Invalid JSON body''), s') \<and>
     (\<exists>q \<in> set (t_users (db_tabs s')). ur_id q = 3 \<and> ur_name q = ''Zoe'')"
proof -
  obtain u where u: "authenticate_request (rq_authorization (bearer ''t'')) (signed_in 1) = Inr (Some u)"
    "u_role u = Admin"
    using signed_in_admin by blast
  obtain e where e: "user_find_by_id 3 (db_tabs (signed_in 1)) = Inr (Some e)"
    by (simp add: user_find_by_id_def first_user_def row_to_user_def string_to_role_def sample_tabs_def sample_rows)
  have "c_str ''Zoe'' = ''Zoe''" by (simp add: c_str_def)
  then show ?thesis
    using rejected_update_is_applied [OF u _ e, of "body_api (JObj [(''name'', JStr ''Zoe''), (''password'', JInt 5)])"
        "JObj [(''name'', JStr ''Zoe''), (''password'', JInt 5)]" "''Zoe''" "''type must be string''"]
    by (auto simp: body_api_def)
qed

text \<open>The route that should list the courses of a lecturer answers with an empty list, always.\<close>

lemma faculty_courses_placeholder:
  assumes "authenticate_request (rq_authorization req) s = Inr (Some u)" "u_role u \<noteq> Student"
  shows "handle api (Faculty_Courses i) req s = (Inr (ok_with api 200 (j_arr api []) ''Success''), s)"
  using assms by (simp add: faculty_courses_def authenticated_def op_simps on_tables_def)

end
