(* ===== verification/Statistics_Correctness.thy ===== *)
theory Statistics_Correctness
  imports Admin_Api
begin

text \<open>
  The numbers of the statistics endpoints agree with each other: the enrolments of all
  courses add up to the active registrations, and no utilization exceeds 100 percent.
\<close>

lemma sum_list_sort_key: "sum_list (map f (sort_key k xs)) = sum_list (map f xs)"
  for f :: "'a \<Rightarrow> int"
proof -
  have ins: "sum_list (map f (insort_key k x ys)) = f x + sum_list (map f ys)" for x and ys :: "'a list"
    by (induction ys) simp_all
  show ?thesis by (induction xs) (simp_all add: ins)
qed

lemma total_of_sum:
  assumes "\<And>c. c \<in> set cs \<Longrightarrow> 0 \<le> f c" "0 \<le> acc" "acc + sum_list (map f cs) \<le> i32_max"
  shows "fold (\<lambda>c acc. add_i32 acc (f c)) cs acc = acc + sum_list (map f cs)"
  using assms
proof (induction cs arbitrary: acc)
  case (Cons c cs)
  have nonneg: "0 \<le> sum_list (map f cs)"
    using Cons.prems(1) by (intro sum_list_nonneg) auto
  have c: "0 \<le> f c" using Cons.prems(1) by simp
  then have "add_i32 acc (f c) = acc + f c"
    unfolding add_i32_def using Cons.prems(2,3) nonneg by (intro to_i32_id) simp_all
  moreover have "fold (\<lambda>c acc. add_i32 acc (f c)) cs (acc + f c) = acc + f c + sum_list (map f cs)"
    by (rule Cons.IH) (use Cons.prems c in auto)
  ultimately show ?case by simp
qed simp

text \<open>Every active registration belongs to exactly one course.\<close>

lemma sum_active_counts:
  assumes "distinct ids" "\<forall>r \<in> set rs. rr_course_id r \<in> set ids"
  shows "sum_list (map (\<lambda>i. sql_count (\<lambda>r. rr_course_id r = i \<and> rr_status r = ''active'') rs) ids) =
    sql_count (\<lambda>r. rr_status r = ''active'') rs"
  using assms(2)
proof (induction rs)
  case Nil
  then show ?case by (simp add: sum_list_0)
next
  case (Cons r rs)
  have "sum_list (map (\<lambda>i. if rr_course_id r = i \<and> rr_status r = ''active'' then 1 else 0) ids) =
      (if rr_status r = ''active'' then 1 else (0 :: int))"
    using assms(1) Cons.prems
    by (simp add: sum_list_distinct_conv_sum_set if_distrib [of _ _ 0] cong: conj_cong)
  then show ?case using Cons by (simp add: sum_list_addf)
qed

definition capacities :: "tables \<Rightarrow> int" where
  "capacities t = sum_list (map cr_capacity (t_courses t))"

lemma course_totals:
  assumes "db_ok t"
  shows "sum_list (map c_enrolled_count (course_find_all t)) =
      sql_count (\<lambda>r. rr_status r = ''active'') (t_regs t)"
    and "sum_list (map c_capacity (course_find_all t)) = capacities t"
    and "\<And>c. c \<in> set (course_find_all t) \<Longrightarrow> 0 \<le> c_enrolled_count c \<and> c_enrolled_count c \<le> c_capacity c"
proof -
  have wf: "wf_tables t" using assms by (rule db_okD)
  have count: "to_i32 (active_count t (cr_id r)) = active_count t (cr_id r)"
    if "r \<in> set (t_courses t)" for r
  proof -
    have "cr_id r \<in> course_ids t" using that by (simp add: course_ids_def)
    then show ?thesis using enrolled_count_read [OF assms] by (simp add: get_enrolled_count_def)
  qed
  have cap: "to_i32 (cr_capacity r) = cr_capacity r" if "r \<in> set (t_courses t)" for r
    by (rule course_capacity_read [OF wf that])
  have "sum_list (map c_enrolled_count (course_find_all t)) =
      sum_list (map (\<lambda>r. active_count t (cr_id r)) (t_courses t))"
    using count
    by (simp add: course_find_all_def comp_def sum_list_sort_key cong: map_cong)
  also have "\<dots> = sum_list (map (active_count t) (map cr_id (t_courses t)))" by (simp add: comp_def)
  also have "\<dots> = sql_count (\<lambda>r. rr_status r = ''active'') (t_regs t)"
    unfolding active_count_def
    by (rule sum_active_counts) (use wf_distinct(3) [OF wf] wf_reg(4) [OF wf] in \<open>auto simp: course_ids_def\<close>)
  finally show "sum_list (map c_enrolled_count (course_find_all t)) =
      sql_count (\<lambda>r. rr_status r = ''active'') (t_regs t)" .
  show "sum_list (map c_capacity (course_find_all t)) = capacities t"
    using cap
    by (simp add: course_find_all_def capacities_def comp_def sum_list_sort_key cong: map_cong)
  fix c assume "c \<in> set (course_find_all t)"
  then obtain r where r: "r \<in> set (t_courses t)" "c = row_to_course t r"
    by (auto simp: set_course_find_all)
  have "active_count t (cr_id r) \<le> cr_capacity r"
    using assms r(1) by (simp add: db_ok_def seats_ok_def list_all_iff)
  then show "0 \<le> c_enrolled_count c \<and> c_enrolled_count c \<le> c_capacity c"
    using r count cap by (simp add: active_count_def)
qed

lemma utilization_bounds:
  assumes "0 \<le> n" "n \<le> m"
  shows "0 \<le> utilization n m" "utilization n m \<le> 100"
  using assms by (simp_all add: utilization_def divide_le_eq mult.commute)

text \<open>C24: On a consistent database whose capacities fit a C++ \<open>int\<close> together, the totals of the
  statistics endpoint are exact: the enrolments of the courses add up to the number of
  active registrations, the capacities to their sum, the enrolments never exceed the
  capacities, and every utilization lies between 0 and 100 percent.\<close>

theorem statistics_agree:
  assumes "db_ok t" "capacities t \<le> i32_max"
  shows "total_of c_enrolled_count (course_find_all t) = count_active t \<and>
    total_of c_capacity (course_find_all t) = capacities t \<and>
    0 \<le> count_active t \<and> count_active t \<le> capacities t \<and>
    utilization (count_active t) (capacities t) \<le> 100 \<and>
    list_all (\<lambda>c. 0 \<le> utilization (c_enrolled_count c) (c_capacity c) \<and>
      utilization (c_enrolled_count c) (c_capacity c) \<le> 100) (course_find_all t)"
proof -
  let ?cs = "course_find_all t"
  note tot = course_totals [OF assms(1)]
  have "sum_list (map c_enrolled_count ?cs) \<le> sum_list (map c_capacity ?cs)"
    using tot(3) by (intro sum_list_mono) auto
  then have le: "sum_list (map c_enrolled_count ?cs) \<le> capacities t" by (simp add: tot(2))
  have e: "total_of c_enrolled_count ?cs = sum_list (map c_enrolled_count ?cs)"
    unfolding total_of_def using total_of_sum [of ?cs c_enrolled_count 0] tot(3) le assms(2) by simp
  have c: "total_of c_capacity ?cs = capacities t"
    unfolding total_of_def using total_of_sum [of ?cs c_capacity 0] tot(2,3) assms(2) by fastforce
  have n: "0 \<le> sum_list (map c_enrolled_count ?cs)" using tot(3) by (intro sum_list_nonneg) auto
  have a: "count_active t = sum_list (map c_enrolled_count ?cs)"
    unfolding count_active_def tot(1) [symmetric] by (rule to_i32_id) (use n le assms(2) in simp_all)
  have "list_all (\<lambda>c. 0 \<le> utilization (c_enrolled_count c) (c_capacity c) \<and>
      utilization (c_enrolled_count c) (c_capacity c) \<le> 100) ?cs"
    using tot(3) utilization_bounds by (simp add: list_all_iff)
  then show ?thesis using e c n a le utilization_bounds(2) by simp
qed

theorem statistics_agree_witness:
  "total_of c_enrolled_count (course_find_all sample_tabs) = count_active sample_tabs \<and>
   capacities sample_tabs = 2"
proof -
  have "capacities sample_tabs = 2" by (simp add: capacities_def sample_tabs_def sample_rows)
  then show ?thesis using statistics_agree [of sample_tabs] by (simp add: i32_max_def)
qed

end
