(* ===== verification/Seed_Data.thy ===== *)
theory Seed_Data
  imports Request_Invariants
begin

text \<open>
  \<open>Database::seed_data\<close> of \<^verbatim>\<open>backend/src/database/Database.cpp\<close>. \<open>sqlite3_exec\<close> runs the
  statements of a script one by one and stops at the first that fails; the text of the
  engine's error is the parameter \<open>err\<close>.
\<close>

fun exec_inserts :: "string \<Rightarrow> ('r \<Rightarrow> tables \<Rightarrow> (tables \<times> int) option) \<Rightarrow> 'r list \<Rightarrow> (conn, unit) op" where
  "exec_inserts err ins [] s = (Inr (), s)"
| "exec_inserts err ins (r # rs) s = (case step_insert (ins r) s of
      (False, s') \<Rightarrow> (Inl (Runtime_Error (''SQL execution failed: '' @ err)), s')
    | (True, s') \<Rightarrow> exec_inserts err ins rs s')"

definition do_insert :: "string \<times> string \<times> string \<times> string \<times> string \<Rightarrow> conn \<Rightarrow> conn" where
  "do_insert u s = (case u of (uname, h, role, name, email) \<Rightarrow>
     snd (step_insert (insert_user_row \<lparr>ur_id = 0, ur_username = c_str uname,
       ur_password_hash = c_str h, ur_role = c_str role, ur_name = c_str name,
       ur_email = c_str email, ur_active = 1, ur_created_at = db_now s\<rparr>) s))"

definition seed_users :: "(string \<times> string \<times> string \<times> string \<times> string) list" where
  "seed_users =
     (let admin_hash = hash_password ''admin123'';
          faculty_hash = hash_password ''faculty123'';
          student_hash = hash_password ''student123''
      in [(''admin'', admin_hash, ''admin'', ''System Administrator'', ''admin@academia.edu''),
          (''dr.smith'', faculty_hash, ''faculty'', ''Dr. Alice Smith'', ''alice.smith@academia.edu''),
          (''dr.jones'', faculty_hash, ''faculty'', ''Dr. Bob Jones'', ''bob.jones@academia.edu''),
          (''dr.wilson'', faculty_hash, ''faculty'', ''Dr. Carol Wilson'', ''carol.wilson@academia.edu''),
          (''john.doe'', student_hash, ''student'', ''John Doe'', ''john.doe@academia.edu''),
          (''jane.doe'', student_hash, ''student'', ''Jane Doe'', ''jane.doe@academia.edu''),
          (''mike.ross'', student_hash, ''student'', ''Mike Ross'', ''mike.ross@academia.edu''),
          (''sarah.lee'', student_hash, ''student'', ''Sarah Lee'', ''sarah.lee@academia.edu''),
          (''alex.kim'', student_hash, ''student'', ''Alex Kim'', ''alex.kim@academia.edu'')])"

definition seed_course :: "string \<Rightarrow> string \<times> string \<times> int \<times> int \<times> int \<times> string \<Rightarrow> course_row" where
  "seed_course now c = (case c of (code, name, credits, faculty_id, capacity, sched) \<Rightarrow>
     \<lparr>cr_id = 0, cr_course_code = code, cr_course_name = name, cr_credits = credits,
      cr_faculty_id = Some faculty_id, cr_capacity = capacity, cr_schedule = sched,
      cr_created_at = now\<rparr>)"

definition seed_courses :: "(string \<times> string \<times> int \<times> int \<times> int \<times> string) list" where
  "seed_courses =
     [(''CS301'', ''Operating Systems'', 4, 2, 40, ''Mon/Wed 10:00-11:30''),
      (''CS302'', ''Computer Networks'', 3, 2, 35, ''Tue/Thu 14:00-15:30''),
      (''CS201'', ''Data Structures'', 4, 3, 50, ''Mon/Wed/Fri 09:00-10:00''),
      (''CS202'', ''Algorithms'', 3, 3, 45, ''Tue/Thu 10:00-11:30''),
      (''CS401'', ''Machine Learning'', 3, 4, 30, ''Wed/Fri 14:00-15:30''),
      (''CS402'', ''Database Systems'', 3, 4, 40, ''Mon/Wed 14:00-15:30''),
      (''CS101'', ''Intro to Programming'', 3, 2, 60, ''Mon/Wed/Fri 11:00-12:00''),
      (''CS501'', ''Distributed Systems'', 4, 3, 25, ''Tue/Thu 16:00-17:30'')]"

definition seed_reg :: "string \<Rightarrow> int \<times> int \<Rightarrow> reg_row" where
  "seed_reg now r = (case r of (student_id, course_id) \<Rightarrow>
     \<lparr>rr_id = 0, rr_student_id = student_id, rr_course_id = course_id, rr_status = ''active'',
      rr_registered_at = now\<rparr>)"

definition seed_regs :: "(int \<times> int) list" where
  "seed_regs = [(5, 1), (5, 3), (5, 5), (6, 1), (6, 2), (6, 4), (7, 2), (7, 3), (8, 1), (8, 5),
     (8, 6), (9, 4), (9, 6), (9, 7)]"

definition seed_data :: "string \<Rightarrow> (conn, unit) op" where
  "seed_data err s =
     (if 0 < user_count (db_tabs s) then (Inr (), s)
      else let s1 = fold do_insert seed_users s in
        xbind (exec_inserts err insert_course_row (map (seed_course (db_now s)) seed_courses)) (\<lambda>_.
          exec_inserts err insert_reg_row (map (seed_reg (db_now s)) seed_regs)) s1)"

section \<open>Seeding a fresh database\<close>

definition fresh_conn :: conn where
  "fresh_conn = sample\<lparr>db_tabs := initialize_schema\<rparr>"

lemma fresh_conn_simps [simp]:
  "db_tabs fresh_conn = initialize_schema" "idle fresh_conn" "engine_ok fresh_conn"
  by (simp_all add: fresh_conn_def idle_def engine_ok_def)

text \<open>Rows with consecutive ids, as a fresh AUTOINCREMENT numbers them.\<close>

definition number_rows :: "(int \<Rightarrow> 'r \<Rightarrow> 'r) \<Rightarrow> int \<Rightarrow> 'r list \<Rightarrow> 'r list" where
  "number_rows set_id k rs = map (\<lambda>(i, r). set_id (k + int i + 1) r) (enumerate 0 rs)"

lemma number_rows_simps [simp]:
  "number_rows f k [] = []"
  "number_rows f k (r # rs) = f (k + 1) r # number_rows f (k + 1) rs"
  by (simp_all add: number_rows_def enumerate_Suc_eq comp_def case_prod_unfold algebra_simps)

definition seeded_user :: "string \<Rightarrow> string \<times> string \<times> string \<times> string \<times> string \<Rightarrow> user_row" where
  "seeded_user now u = (case u of (uname, h, role, name, email) \<Rightarrow>
     \<lparr>ur_id = 0, ur_username = uname, ur_password_hash = h, ur_role = role, ur_name = name,
      ur_email = email, ur_active = 1, ur_created_at = now\<rparr>)"

definition seeded_tables :: "string \<Rightarrow> tables" where
  "seeded_tables now = \<lparr>
     t_users = number_rows (\<lambda>i r. r\<lparr>ur_id := i\<rparr>) 0 (map (seeded_user now) seed_users),
     t_courses = number_rows (\<lambda>i r. r\<lparr>cr_id := i\<rparr>) 0 (map (seed_course now) seed_courses),
     t_regs = number_rows (\<lambda>i r. r\<lparr>rr_id := i\<rparr>) 0 (map (seed_reg now) seed_regs),
     t_sessions = [], t_user_seq = 9, t_course_seq = 8, t_reg_seq = 14\<rparr>"

lemma step_insert_Some:
  "f (db_tabs s) = Some (t, i) \<Longrightarrow>
    step_insert f s = (True, s\<lparr>db_tabs := t, db_last_id := i, db_changes := 1\<rparr>)"
  by (simp add: step_insert_def)

text \<open>Inserting users with new names and valid roles one after the other.\<close>

definition user_seed_ok :: "string \<times> string \<times> string \<times> string \<times> string \<Rightarrow> bool" where
  "user_seed_ok u \<longleftrightarrow> (case u of (uname, h, role, name, email) \<Rightarrow>
     c_str uname = uname \<and> c_str h = h \<and> c_str role = role \<and> c_str name = name \<and>
     c_str email = email \<and> role \<in> set role_names)"

lemma do_insert_row:
  assumes "user_seed_ok u" "t_user_seq (db_tabs s) < i64_max"
    "fst u \<notin> ur_username ` set (t_users (db_tabs s))"
  shows "do_insert u s = s\<lparr>db_tabs := (db_tabs s)\<lparr>
      t_users := t_users (db_tabs s) @ [(seeded_user (db_now s) u)\<lparr>ur_id := t_user_seq (db_tabs s) + 1\<rparr>],
      t_user_seq := t_user_seq (db_tabs s) + 1\<rparr>,
    db_last_id := t_user_seq (db_tabs s) + 1, db_changes := 1\<rparr>"
  using assms
  by (cases u) (simp add: do_insert_def user_seed_ok_def step_insert_def insert_user_row_def
      seeded_user_def Let_def)

lemma db_now_statement [simp]:
  "db_now (s\<lparr>db_tabs := t, db_last_id := i, db_changes := n\<rparr>) = db_now s"
  by (simp add: db_now_def)

lemma fold_do_insert:
  assumes "list_all user_seed_ok us" "distinct (map fst us)"
    "set (map fst us) \<inter> ur_username ` set (t_users (db_tabs s)) = {}"
    "t_user_seq (db_tabs s) + int (length us) \<le> i64_max"
  shows "\<exists>i n. fold do_insert us s = s\<lparr>db_tabs := (db_tabs s)\<lparr>
      t_users := t_users (db_tabs s) @
        number_rows (\<lambda>i r. r\<lparr>ur_id := i\<rparr>) (t_user_seq (db_tabs s)) (map (seeded_user (db_now s)) us),
      t_user_seq := t_user_seq (db_tabs s) + int (length us)\<rparr>,
    db_last_id := i, db_changes := n\<rparr>"
  using assms
proof (induction us arbitrary: s)
  case Nil
  then show ?case by (intro exI [of _ "db_last_id s"] exI [of _ "db_changes s"]) simp
next
  case (Cons u us)
  define s' where "s' = do_insert u s"
  have s': "s' = s\<lparr>db_tabs := (db_tabs s)\<lparr>
      t_users := t_users (db_tabs s) @ [(seeded_user (db_now s) u)\<lparr>ur_id := t_user_seq (db_tabs s) + 1\<rparr>],
      t_user_seq := t_user_seq (db_tabs s) + 1\<rparr>,
    db_last_id := t_user_seq (db_tabs s) + 1, db_changes := 1\<rparr>"
    unfolding s'_def by (rule do_insert_row) (use Cons.prems in auto)
  have "ur_username (seeded_user (db_now s) u) = fst u" by (cases u) (simp add: seeded_user_def)
  then have "set (map fst us) \<inter> ur_username ` set (t_users (db_tabs s')) = {}"
    using Cons.prems(2,3) by (auto simp: s')
  then obtain i n where "fold do_insert us s' = s'\<lparr>db_tabs := (db_tabs s')\<lparr>
      t_users := t_users (db_tabs s') @
        number_rows (\<lambda>i r. r\<lparr>ur_id := i\<rparr>) (t_user_seq (db_tabs s')) (map (seeded_user (db_now s')) us),
      t_user_seq := t_user_seq (db_tabs s') + int (length us)\<rparr>,
    db_last_id := i, db_changes := n\<rparr>"
    using Cons.IH [of s'] Cons.prems by (auto simp: s')
  then show ?case
    by (intro exI [of _ i] exI [of _ n]) (simp add: s'_def [symmetric], simp add: s' algebra_simps)
qed

text \<open>A script of inserts that all succeed, on the tables alone.\<close>

fun insert_each :: "('r \<Rightarrow> tables \<Rightarrow> (tables \<times> int) option) \<Rightarrow> 'r list \<Rightarrow> tables \<Rightarrow> tables option" where
  "insert_each ins [] t = Some t"
| "insert_each ins (r # rs) t = (case ins r t of None \<Rightarrow> None | Some (t', i) \<Rightarrow> insert_each ins rs t')"

lemma exec_inserts_each:
  "insert_each ins rs (db_tabs s) = Some t \<Longrightarrow>
    \<exists>i n. exec_inserts err ins rs s = (Inr (), s\<lparr>db_tabs := t, db_last_id := i, db_changes := n\<rparr>)"
proof (induction rs arbitrary: s)
  case Nil
  then show ?case by (intro exI [of _ "db_last_id s"] exI [of _ "db_changes s"]) simp
next
  case (Cons r rs)
  then obtain t' i where r: "ins r (db_tabs s) = Some (t', i)" "insert_each ins rs t' = Some t"
    by (auto split: option.splits)
  let ?s' = "s\<lparr>db_tabs := t', db_last_id := i, db_changes := 1\<rparr>"
  obtain j n where "exec_inserts err ins rs ?s' = (Inr (), ?s'\<lparr>db_tabs := t, db_last_id := j, db_changes := n\<rparr>)"
    using Cons.IH [of ?s'] r(2) by auto
  then show ?case by (intro exI [of _ j] exI [of _ n]) (simp add: step_insert_Some [where f = "ins r", OF r(1)])
qed

lemma insert_each_courses:
  assumes "list_all (\<lambda>r. 0 < cr_capacity r \<and> faculty_ref_ok t (cr_faculty_id r)) rs"
    "distinct (map cr_course_code rs)"
    "set (map cr_course_code rs) \<inter> cr_course_code ` set (t_courses t) = {}"
    "t_course_seq t + int (length rs) \<le> i64_max"
  shows "insert_each insert_course_row rs t = Some (t\<lparr>
      t_courses := t_courses t @ number_rows (\<lambda>i r. r\<lparr>cr_id := i\<rparr>) (t_course_seq t) rs,
      t_course_seq := t_course_seq t + int (length rs)\<rparr>)"
  using assms
proof (induction rs arbitrary: t)
  case (Cons r rs)
  let ?t' = "t\<lparr>t_courses := t_courses t @ [r\<lparr>cr_id := t_course_seq t + 1\<rparr>],
      t_course_seq := t_course_seq t + 1\<rparr>"
  have "insert_course_row r t = Some (?t', t_course_seq t + 1)"
    using Cons.prems by (auto simp: insert_course_row_def Let_def)
  moreover have "faculty_ref_ok ?t' = faculty_ref_ok t"
    by (auto simp: faculty_ref_ok_def user_ids_def fun_eq_iff split: option.split)
  then have "insert_each insert_course_row rs ?t' = Some (?t'\<lparr>
      t_courses := t_courses ?t' @ number_rows (\<lambda>i r. r\<lparr>cr_id := i\<rparr>) (t_course_seq ?t') rs,
      t_course_seq := t_course_seq ?t' + int (length rs)\<rparr>)"
    using Cons.prems by (intro Cons.IH) auto
  ultimately show ?case by (simp add: algebra_simps)
qed simp

lemma insert_each_regs:
  assumes "list_all (\<lambda>r. rr_student_id r \<in> user_ids t \<and> rr_course_id r \<in> course_ids t \<and>
      rr_status r \<in> set reg_statuses) rs"
    "distinct (map (\<lambda>r. (rr_student_id r, rr_course_id r)) rs)"
    "set (map (\<lambda>r. (rr_student_id r, rr_course_id r)) rs) \<inter>
      (\<lambda>r. (rr_student_id r, rr_course_id r)) ` set (t_regs t) = {}"
    "t_reg_seq t + int (length rs) \<le> i64_max"
  shows "insert_each insert_reg_row rs t = Some (t\<lparr>
      t_regs := t_regs t @ number_rows (\<lambda>i r. r\<lparr>rr_id := i\<rparr>) (t_reg_seq t) rs,
      t_reg_seq := t_reg_seq t + int (length rs)\<rparr>)"
  using assms
proof (induction rs arbitrary: t)
  case (Cons r rs)
  let ?t' = "t\<lparr>t_regs := t_regs t @ [r\<lparr>rr_id := t_reg_seq t + 1\<rparr>], t_reg_seq := t_reg_seq t + 1\<rparr>"
  have ids: "user_ids ?t' = user_ids t" "course_ids ?t' = course_ids t"
    by (simp_all add: user_ids_def course_ids_def)
  have "insert_reg_row r t = Some (?t', t_reg_seq t + 1)"
    using Cons.prems by (auto simp: insert_reg_row_def Let_def)
  moreover have "insert_each insert_reg_row rs ?t' = Some (?t'\<lparr>
      t_regs := t_regs ?t' @ number_rows (\<lambda>i r. r\<lparr>rr_id := i\<rparr>) (t_reg_seq ?t') rs,
      t_reg_seq := t_reg_seq ?t' + int (length rs)\<rparr>)"
    by (rule Cons.IH) (use Cons.prems in \<open>auto simp: ids\<close>)
  ultimately show ?case by (simp add: algebra_simps)
qed simp

lemma seed_users_ok:
  "list_all user_seed_ok seed_users" "distinct (map fst seed_users)" "length seed_users = 9"
  by (simp_all add: seed_users_def user_seed_ok_def c_str_def [of "_ # _"] role_names_def Let_def)

lemma seeded_user_ids: "user_ids (seeded_tables now) = {1..9}"
  by (auto simp: user_ids_def seeded_tables_def seed_users_def seeded_user_def Let_def)

lemma seeded_course_ids: "course_ids (seeded_tables now) = {1..8}"
  by (auto simp: course_ids_def seeded_tables_def seed_courses_def seed_course_def)

text \<open>Seeding a fresh database succeeds and yields exactly the nine users, eight courses and
  fourteen registrations of the script, numbered from 1.\<close>

theorem seeding_fills_a_fresh_database:
  assumes "db_tabs s = initialize_schema"
  shows "\<exists>s'. seed_data err s = (Inr (), s') \<and> db_tabs s' = seeded_tables (db_now s) \<and> stmt_frame s s'"
proof -
  let ?now = "db_now s"
  obtain i n where u: "fold do_insert seed_users s = s\<lparr>db_tabs := initialize_schema\<lparr>
      t_users := t_users (seeded_tables ?now), t_user_seq := 9\<rparr>, db_last_id := i, db_changes := n\<rparr>"
    using fold_do_insert [of seed_users s] seed_users_ok assms
    by (auto simp: initialize_schema_def i64_max_def seeded_tables_def)
  let ?t1 = "initialize_schema\<lparr>t_users := t_users (seeded_tables ?now), t_user_seq := 9\<rparr>"
  let ?t2 = "?t1\<lparr>t_courses := t_courses (seeded_tables ?now), t_course_seq := 8\<rparr>"
  have ids1: "user_ids ?t1 = {1..9}" "user_ids ?t2 = {1..9}"
    using seeded_user_ids [of ?now] by (simp_all add: user_ids_def)
  have f: "list_all (\<lambda>r. 0 < cr_capacity r \<and> faculty_ref_ok ?t1 (cr_faculty_id r))
      (map (seed_course ?now) seed_courses)"
    unfolding faculty_ref_ok_def ids1 by (simp add: seed_courses_def seed_course_def)
  have courses: "insert_each insert_course_row (map (seed_course ?now) seed_courses) ?t1 = Some ?t2"
    by (subst insert_each_courses [OF f])
      (simp_all add: seed_courses_def seed_course_def initialize_schema_def i64_max_def seeded_tables_def)
  have "course_ids ?t2 = {1..8}"
    using seeded_course_ids [of ?now] by (simp add: course_ids_def)
  then have g: "list_all (\<lambda>r. rr_student_id r \<in> user_ids ?t2 \<and> rr_course_id r \<in> course_ids ?t2 \<and>
      rr_status r \<in> set reg_statuses) (map (seed_reg ?now) seed_regs)"
    unfolding ids1 by (simp add: seed_regs_def seed_reg_def reg_statuses_def)
  have regs: "insert_each insert_reg_row (map (seed_reg ?now) seed_regs) ?t2 = Some (seeded_tables ?now)"
    by (subst insert_each_regs [OF g])
      (simp_all add: seed_regs_def seed_reg_def initialize_schema_def i64_max_def seeded_tables_def)
  define s1 where "s1 = fold do_insert seed_users s"
  have t1: "db_tabs s1 = ?t1" "stmt_frame s s1" by (simp_all add: s1_def u stmt_frame_def)
  obtain i1 n1 where c: "exec_inserts err insert_course_row (map (seed_course ?now) seed_courses) s1 =
      (Inr (), s1\<lparr>db_tabs := ?t2, db_last_id := i1, db_changes := n1\<rparr>)"
    using exec_inserts_each [where s = s1 and t = ?t2, of insert_course_row _ err] courses t1(1) by metis
  define s2 where "s2 = s1\<lparr>db_tabs := ?t2, db_last_id := i1, db_changes := n1\<rparr>"
  have t2: "db_tabs s2 = ?t2" "stmt_frame s s2" using t1(2) by (simp_all add: s2_def stmt_frame_def)
  obtain i2 n2 where r: "exec_inserts err insert_reg_row (map (seed_reg ?now) seed_regs) s2 =
      (Inr (), s2\<lparr>db_tabs := seeded_tables ?now, db_last_id := i2, db_changes := n2\<rparr>)"
    using exec_inserts_each [where s = s2 and t = "seeded_tables ?now", of insert_reg_row _ err] regs t2(1)
    by metis
  have "user_count (db_tabs s) = 0"
    by (simp add: assms user_count_def initialize_schema_def to_i32_def)
  then have "seed_data err s = (Inr (), s2\<lparr>db_tabs := seeded_tables ?now, db_last_id := i2, db_changes := n2\<rparr>)"
    using c r by (simp add: seed_data_def op_simps s1_def [symmetric] s2_def [symmetric])
  then show ?thesis using t2(2) by (simp add: stmt_frame_def)
qed

theorem seeding_fills_a_fresh_database_witness:
  "\<exists>s'. seed_data [] fresh_conn = (Inr (), s') \<and> db_tabs s' = seeded_tables (db_now fresh_conn)"
  using seeding_fills_a_fresh_database [of fresh_conn "[]"] by auto

lemma seeded_tables_ok: "db_ok (seeded_tables now)"
proof -
  have "users_ok (seeded_tables now)"
    by (simp add: users_ok_def seeded_tables_def seed_users_def seeded_user_def role_names_def Let_def i64_max_def)
  moreover have "courses_ok (seeded_tables now)"
    unfolding courses_ok_def faculty_ref_ok_def seeded_user_ids
    by (simp add: seeded_tables_def seed_courses_def seed_course_def i32_max_def i64_max_def)
  moreover have "regs_ok (seeded_tables now)"
    unfolding regs_ok_def seeded_user_ids seeded_course_ids
    by (simp add: seeded_tables_def seed_regs_def seed_reg_def reg_statuses_def i64_max_def)
  moreover have "sessions_ok (seeded_tables now)" by (simp add: sessions_ok_def seeded_tables_def)
  moreover have "seats_ok (seeded_tables now)"
    by (simp add: seats_ok_def active_count_def seeded_tables_def seed_courses_def seed_course_def
        seed_regs_def seed_reg_def)
  ultimately show ?thesis by (simp add: db_ok_def wf_tables_def)
qed

lemma seeded_passwords: "list_all hash_shaped (t_users (seeded_tables now))"
  by (simp add: seeded_tables_def seed_users_def seeded_user_def hash_shaped_def hash_password_def
      sha256_shape Let_def)

text \<open>The seeded database satisfies the schema and the seat limits and stores only hashes; every
  sequence of requests served from it keeps both.\<close>

theorem seeded_server_stays_consistent:
  assumes "db_tabs s = seeded_tables now" "idle s" "engine_ok s"
  shows "db_ok (db_tabs (fold (serve api) es s)) \<and> passwords_hashed (accounts (fold (serve api) es s))"
proof -
  have "db_ok (db_tabs s)" by (simp add: assms(1) seeded_tables_ok)
  moreover have "passwords_hashed (accounts s)"
    by (simp add: accounts_def assms(1) passwords_hashed_def seeded_passwords)
  ultimately show ?thesis
    using schema.serve_all_keeps [of s api es] passwords.requests_keep [of s api es] assms(2,3)
    by (simp add: server_ok_def)
qed

definition seeded_conn :: conn where
  "seeded_conn = sample\<lparr>db_tabs := seeded_tables []\<rparr>"

lemma seeded_conn_simps [simp]:
  "db_tabs seeded_conn = seeded_tables []" "idle seeded_conn" "engine_ok seeded_conn"
  by (simp_all add: seeded_conn_def idle_def engine_ok_def)

lemma seeded_conn_clock: "db_now seeded_conn < db_tomorrow seeded_conn"
  using sample_clock by (simp add: seeded_conn_def db_now_def db_tomorrow_def)

definition anyone :: "request" where
  "anyone = \<lparr>rq_authorization = [], rq_body = [], rq_search = None\<rparr>"

theorem seeded_server_stays_consistent_witness:
  "db_ok (db_tabs (fold (serve (jv_api (\<lambda>_. Inr JNull) (\<lambda>_. [])))
     [(0, Post_Register 1, anyone), (1, Delete_Course 1, anyone)] seeded_conn))"
  by (rule conjunct1, rule seeded_server_stays_consistent [of _ "[]"]) simp_all

text \<open>With the clock moving forward, each demo account can log in with the password the start
  banner prints, right after seeding.\<close>

theorem demo_accounts_log_in:
  assumes "db_tabs s = seeded_tables now" "db_now s < db_tomorrow s"
    and "(name, pw) \<in> {(''admin'', ''admin123''), (''dr.smith'', ''faculty123''), (''john.doe'', ''student123'')}"
  shows "\<exists>r s'. login name pw draws s = (Inr r, s') \<and> lr_success r \<and>
    authenticate_request (''Bearer '' @ lr_token r) s' = Inr (Some (lr_user r))"
proof -
  have "has_credentials name pw (db_tabs s)"
    using assms(3) by (auto simp: has_credentials_def assms(1) seeded_tables_def seed_users_def
        seeded_user_def Let_def c_str_def)
  moreover have "db_ok (db_tabs s)" by (simp add: assms(1) seeded_tables_ok)
  ultimately show ?thesis
    using login_decides_raw [of s name pw draws] assms(2) by auto
qed

theorem demo_accounts_log_in_witness:
  "\<exists>r s'. login ''admin'' ''admin123'' (\<lambda>_. 0) seeded_conn = (Inr r, s') \<and> lr_success r"
  using demo_accounts_log_in [of seeded_conn "[]" "''admin''" "''admin123''" "\<lambda>_. 0"] seeded_conn_clock
  by auto

end
