(* ===== verification/Transition_Systems.thy ===== *)
theory Transition_Systems
  imports Acad_Prelude
begin

text \<open>
  Threads as interleaved steps. A system is a predicate on initial states and a step
  relation; \<open>reachable\<close> is what some interleaving reaches. The locale \<open>step_invariant\<close> is
  the contract of an invariant; each concurrent component interprets it. Threads of one kind
  are a list of program points, and the list lemmas count how many are at a point.

  A step is one critical section of the source, from locking a mutex to releasing it (or to
  waiting on a condition variable, which releases it), or one action outside any lock.
\<close>

inductive reachable :: "('s \<Rightarrow> bool) \<Rightarrow> ('s \<Rightarrow> 's \<Rightarrow> bool) \<Rightarrow> 's \<Rightarrow> bool" for init step where
  start: "init s \<Longrightarrow> reachable init step s"
| further: "reachable init step s \<Longrightarrow> step s s' \<Longrightarrow> reachable init step s'"

locale step_invariant =
  fixes init :: "'s \<Rightarrow> bool" and step :: "'s \<Rightarrow> 's \<Rightarrow> bool" and inv :: "'s \<Rightarrow> bool"
  assumes holds_initially: "init s \<Longrightarrow> inv s"
    and kept_by_steps: "inv s \<Longrightarrow> step s s' \<Longrightarrow> inv s'"
begin

lemma reachable_inv: "reachable init step s \<Longrightarrow> inv s"
  by (induction rule: reachable.induct) (auto intro: holds_initially kept_by_steps)

end

lemma reachable_rtranclp: "reachable init step s \<Longrightarrow> step\<^sup>*\<^sup>* s s' \<Longrightarrow> reachable init step s'"
  by (rotate_tac, induction rule: rtranclp_induct) (auto intro: reachable.further)

text \<open>A run given by the list of the states it visits.\<close>

fun run_through :: "('s \<Rightarrow> 's \<Rightarrow> bool) \<Rightarrow> 's \<Rightarrow> 's list \<Rightarrow> bool" where
  "run_through step s [] = True"
| "run_through step s (s' # ss) = (step s s' \<and> run_through step s' ss)"

lemma run_through_reachable:
  "reachable init step s \<Longrightarrow> run_through step s ss \<Longrightarrow> reachable init step (last (s # ss))"
proof (induction ss arbitrary: s)
  case (Cons s' ss)
  then have "reachable init step (last (s' # ss))"
    using reachable.further [OF Cons.prems(1)] by simp
  then show ?case by simp
qed simp

section \<open>Counting threads\<close>

definition count_of :: "('a \<Rightarrow> bool) \<Rightarrow> 'a list \<Rightarrow> nat" where
  "count_of P xs = length (filter P xs)"

lemma count_of_simps [simp]:
  "count_of P [] = 0"
  "count_of P (x # xs) = (if P x then 1 else 0) + count_of P xs"
  by (simp_all add: count_of_def)

lemma count_of_update:
  "i < length xs \<Longrightarrow> count_of P (xs[i := v]) + (if P (xs ! i) then 1 else 0) =
    count_of P xs + (if P v then 1 else 0)"
proof (induction xs arbitrary: i)
  case (Cons x xs)
  then show ?case by (cases i) auto
qed simp

lemma count_of_0_iff: "count_of P xs = 0 \<longleftrightarrow> (\<forall>x \<in> set xs. \<not> P x)"
  by (simp add: count_of_def filter_empty_conv)

lemma count_of_pos_iff: "0 < count_of P xs \<longleftrightarrow> (\<exists>x \<in> set xs. P x)"
  by (metis count_of_0_iff neq0_conv)

lemma count_of_map: "count_of P (map f xs) = count_of (\<lambda>x. P (f x)) xs"
  by (simp add: count_of_def comp_def filter_map)

lemma update_cases: "x \<in> set (xs[i := v]) \<Longrightarrow> x = v \<or> x \<in> set xs"
  using set_update_subset_insert by fastforce

end
