(* ===== verification/Thread_Pool.thy ===== *)
theory Thread_Pool
  imports Transition_Systems "HOL-Library.Multiset"
begin

text \<open>
  \<^verbatim>\<open>backend/include/concurrency/ThreadPool.hpp\<close>. The state has the queue, the stop flag, the
  program point of every worker, and what is still owed to the condition variable: \<open>enqueue\<close>
  and the destructor notify after they have released the mutex, so other threads can run
  in between. A waiting worker may also wake by itself (spurious wakeup). The last three
  fields are history: the accepted, dispatched and finished tasks.
\<close>

datatype 't worker =
    Ready            \<comment> \<open>about to lock the mutex: at the top of the loop, or woken up\<close>
  | Waiting          \<comment> \<open>in \<open>condition_.wait\<close>\<close>
  | Running 't       \<comment> \<open>executing \<open>task()\<close> without the lock\<close>
  | Exited

record 't pool =
  tasks :: "'t list"
  stop :: bool
  workers :: "'t worker list"
  notify_ones :: nat
  notify_all_due :: bool
  accepted :: "'t list"
  dispatched :: "'t list"
  finished :: "'t list"

definition pool_size :: "nat \<Rightarrow> nat" where
  "pool_size num_threads = (if num_threads = 0 then 4 else num_threads)"

definition new_pool :: "nat \<Rightarrow> 't pool" where
  "new_pool num_threads = \<lparr>tasks = [], stop = False, workers = replicate (pool_size num_threads) Ready,
     notify_ones = 0, notify_all_due = False, accepted = [], dispatched = [], finished = []\<rparr>"

text \<open>The critical section of \<open>enqueue\<close>.\<close>

definition enqueue :: "'t \<Rightarrow> 't pool \<Rightarrow> unit exc \<times> 't pool" where
  "enqueue task p =
     (if stop p then (Inl (Runtime_Error ''enqueue on stopped ThreadPool''), p)
      else (Inr (), p\<lparr>tasks := tasks p @ [task], notify_ones := notify_ones p + 1,
                      accepted := accepted p @ [task]\<rparr>))"

definition pending :: "'t pool \<Rightarrow> nat" where
  "pending p = length (tasks p)"

text \<open>The critical section of \<open>worker_loop\<close>, for worker \<open>i\<close>: wait, return or dequeue.\<close>

definition worker_section :: "nat \<Rightarrow> 't pool \<Rightarrow> 't pool" where
  "worker_section i p =
     (if \<not> (stop p \<or> tasks p \<noteq> []) then p\<lparr>workers := (workers p)[i := Waiting]\<rparr>
      else if stop p \<and> tasks p = [] then p\<lparr>workers := (workers p)[i := Exited]\<rparr>
      else p\<lparr>tasks := tl (tasks p), workers := (workers p)[i := Running (hd (tasks p))],
             dispatched := dispatched p @ [hd (tasks p)]\<rparr>)"

definition shut_down :: "'t pool \<Rightarrow> 't pool" where
  "shut_down p = p\<lparr>stop := True, notify_all_due := True\<rparr>"

definition wake :: "'t worker \<Rightarrow> 't worker" where
  "wake w = (if w = Waiting then Ready else w)"

text \<open>The steps the workers and the owed notifications take by themselves.\<close>

inductive work_step :: "'t pool \<Rightarrow> 't pool \<Rightarrow> bool" where
  notify_one_wakes: "notify_ones p = Suc n \<Longrightarrow> i < length (workers p) \<Longrightarrow> workers p ! i = Waiting \<Longrightarrow>
    work_step p (p\<lparr>notify_ones := n, workers := (workers p)[i := Ready]\<rparr>)"
| notify_one_nobody: "notify_ones p = Suc n \<Longrightarrow> Waiting \<notin> set (workers p) \<Longrightarrow>
    work_step p (p\<lparr>notify_ones := n\<rparr>)"
| worker_section: "i < length (workers p) \<Longrightarrow> workers p ! i = Ready \<Longrightarrow>
    work_step p (worker_section i p)"
| task_returns: "i < length (workers p) \<Longrightarrow> workers p ! i = Running task \<Longrightarrow>
    work_step p (p\<lparr>workers := (workers p)[i := Ready], finished := finished p @ [task]\<rparr>)"
| notify_all: "notify_all_due p \<Longrightarrow>
    work_step p (p\<lparr>notify_all_due := False, workers := map wake (workers p)\<rparr>)"

inductive pool_step :: "'t pool \<Rightarrow> 't pool \<Rightarrow> bool" where
  work: "work_step p p' \<Longrightarrow> pool_step p p'"
| enqueue: "pool_step p (snd (enqueue task p))"
| destructor: "\<not> stop p \<Longrightarrow> pool_step p (shut_down p)"
| spurious_wakeup: "i < length (workers p) \<Longrightarrow> workers p ! i = Waiting \<Longrightarrow>
    pool_step p (p\<lparr>workers := (workers p)[i := Ready]\<rparr>)"

text \<open>The destructor's joins return when every worker has left its loop.\<close>

definition joined :: "'t pool \<Rightarrow> bool" where
  "joined p \<longleftrightarrow> list_all (\<lambda>w. w = Exited) (workers p)"

section \<open>Invariants\<close>

fun running_task :: "'t worker \<Rightarrow> 't list" where
  "running_task (Running t) = [t]"
| "running_task w = []"

definition in_flight :: "'t worker list \<Rightarrow> 't multiset" where
  "in_flight ws = mset (concat (map running_task ws))"

lemma in_flight_simps [simp]:
  "in_flight [] = {#}" "in_flight (w # ws) = mset (running_task w) + in_flight ws"
  by (simp_all add: in_flight_def)

lemma in_flight_update:
  "i < length ws \<Longrightarrow> in_flight (ws[i := w]) + mset (running_task (ws ! i)) =
    in_flight ws + mset (running_task w)"
proof (induction ws arbitrary: i)
  case (Cons v ws)
  then show ?case by (cases i) (auto simp: ac_simps)
qed simp

lemma in_flight_wake [simp]: "in_flight (map wake ws) = in_flight ws"
proof (induction ws)
  case (Cons w ws)
  then show ?case by (cases w) (simp_all add: wake_def)
qed simp

definition awake :: "'t worker \<Rightarrow> bool" where
  "awake w \<longleftrightarrow> w \<noteq> Waiting \<and> w \<noteq> Exited"

text \<open>Where every accepted task is, and who will take care of the queued ones.\<close>

definition pool_inv :: "'t pool \<Rightarrow> bool" where
  "pool_inv p \<longleftrightarrow>
     accepted p = dispatched p @ tasks p \<and>
     mset (dispatched p) = mset (finished p) + in_flight (workers p) \<and>
     workers p \<noteq> [] \<and>
     (Exited \<in> set (workers p) \<longrightarrow> stop p \<and> tasks p = []) \<and>
     (stop p \<and> Waiting \<in> set (workers p) \<longrightarrow> notify_all_due p) \<and>
     (tasks p \<noteq> [] \<longrightarrow> 0 < notify_ones p \<or> (\<exists>w \<in> set (workers p). awake w))"

lemma awake_update:
  assumes "i < length ws" "awake w"
  shows "\<exists>v \<in> set (ws[i := w]). awake v"
  using assms set_update_memI by fast

lemma worker_section_inv:
  assumes "pool_inv p" "i < length (workers p)" "workers p ! i = Ready"
  shows "pool_inv (worker_section i p)"
proof -
  have fl: "in_flight ((workers p)[i := w]) = in_flight (workers p) + mset (running_task w)" for w
    using in_flight_update [OF assms(2), of w] assms(3) by simp
  consider (wait) "\<not> stop p" "tasks p = []" | (leave) "stop p" "tasks p = []" | (take) t ts where "tasks p = t # ts"
    by (cases "tasks p") auto
  then show ?thesis
  proof cases
    case wait
    then have "worker_section i p = p\<lparr>workers := (workers p)[i := Waiting]\<rparr>" by (simp add: worker_section_def)
    then show ?thesis using assms wait by (auto simp: pool_inv_def fl dest: update_cases)
  next
    case leave
    then have "worker_section i p = p\<lparr>workers := (workers p)[i := Exited]\<rparr>" by (simp add: worker_section_def)
    then show ?thesis using assms leave by (auto simp: pool_inv_def fl dest: update_cases)
  next
    case take
    then have s: "worker_section i p = p\<lparr>tasks := ts, workers := (workers p)[i := Running t],
        dispatched := dispatched p @ [t]\<rparr>" by (simp add: worker_section_def)
    have "\<exists>v \<in> set ((workers p)[i := Running t]). awake v"
      by (rule awake_update [OF assms(2)]) (simp add: awake_def)
    then show ?thesis using assms take by (auto simp: s pool_inv_def fl dest: update_cases)
  qed
qed

lemma some_worker:
  assumes "pool_inv p"
  obtains w where "w \<in> set (workers p)"
proof -
  have "workers p \<noteq> []" using assms by (simp add: pool_inv_def)
  then show ?thesis using that hd_in_set by blast
qed

lemma work_step_inv:
  assumes "work_step p p'" "pool_inv p"
  shows "pool_inv p'"
  using assms
proof (induction rule: work_step.induct)
  case (notify_one_wakes p n i)
  have "\<exists>v \<in> set ((workers p)[i := Ready]). awake v"
    by (rule awake_update [OF notify_one_wakes(2)]) (simp add: awake_def)
  then show ?case using notify_one_wakes in_flight_update [of i "workers p" Ready]
    by (auto simp: pool_inv_def dest: update_cases)
next
  case (notify_one_nobody p n)
  obtain w where w: "w \<in> set (workers p)" using notify_one_nobody(3) by (rule some_worker)
  have "\<exists>w \<in> set (workers p). awake w" if "tasks p \<noteq> []"
    using notify_one_nobody that w by (intro bexI [OF _ w]) (auto simp: pool_inv_def awake_def)
  then show ?case using notify_one_nobody by (auto simp: pool_inv_def)
next
  case (worker_section i p)
  then show ?case by (simp add: worker_section_inv)
next
  case (task_returns i p task)
  have "\<exists>v \<in> set ((workers p)[i := Ready]). awake v"
    by (rule awake_update [OF task_returns(1)]) (simp add: awake_def)
  then show ?case using task_returns in_flight_update [of i "workers p" Ready]
    by (auto simp: pool_inv_def ac_simps dest: update_cases)
next
  case (notify_all p)
  have "Waiting \<notin> set (map wake (workers p))" "Exited \<in> set (map wake (workers p)) \<longleftrightarrow> Exited \<in> set (workers p)"
    "(\<exists>w \<in> set (workers p). awake w) \<Longrightarrow> (\<exists>w \<in> set (map wake (workers p)). awake w)"
    by (auto simp: wake_def awake_def image_iff split: if_splits)
  then show ?case using notify_all by (auto simp: pool_inv_def simp del: set_map)
qed

lemma pool_step_inv:
  assumes "pool_step p p'" "pool_inv p"
  shows "pool_inv p'"
  using assms
proof (induction rule: pool_step.induct)
  case (work p p')
  then show ?case by (rule work_step_inv)
next
  case (enqueue p task)
  then show ?case by (auto simp: enqueue_def pool_inv_def)
next
  case (destructor p)
  then show ?case by (auto simp: shut_down_def pool_inv_def)
next
  case (spurious_wakeup i p)
  have "\<exists>v \<in> set ((workers p)[i := Ready]). awake v"
    by (rule awake_update [OF spurious_wakeup(1)]) (simp add: awake_def)
  then show ?case using spurious_wakeup in_flight_update [of i "workers p" Ready]
    by (auto simp: pool_inv_def dest: update_cases)
qed

definition pool_init :: "'t pool \<Rightarrow> bool" where
  "pool_init p \<longleftrightarrow> (\<exists>n. p = new_pool n)"

lemma new_pool_inv: "pool_inv (new_pool n)"
proof -
  have "in_flight (replicate k Ready) = ({#} :: 'a multiset)" for k by (induction k) simp_all
  then show ?thesis by (simp add: pool_inv_def new_pool_def pool_size_def)
qed

interpretation pool: step_invariant pool_init pool_step pool_inv
  by unfold_locales (auto simp: pool_init_def new_pool_inv intro: pool_step_inv)

section \<open>Properties\<close>

text \<open>C13: However the threads interleave, tasks are dispatched in the order in which they were
  accepted, each at most once, and every accepted task is finished, being executed by
  exactly one worker, or still queued.\<close>

theorem tasks_run_once_in_order:
  assumes "reachable pool_init pool_step p"
  shows "accepted p = dispatched p @ tasks p \<and>
    mset (accepted p) = mset (finished p) + in_flight (workers p) + mset (tasks p)"
  using pool.reachable_inv [OF assms] by (simp add: pool_inv_def)

definition started_pool :: "nat pool" where
  "started_pool = worker_section 0 (snd (enqueue 7 (new_pool 1)))"

lemma started_pool_reachable: "reachable pool_init pool_step started_pool"
proof -
  have "reachable pool_init pool_step (snd (enqueue 7 (new_pool 1 :: nat pool)))"
    by (rule reachable.further [OF reachable.start]) (auto simp: pool_init_def intro: pool_step.enqueue)
  then show ?thesis
    unfolding started_pool_def
    by (rule reachable.further) (rule pool_step.work, rule work_step.worker_section,
        simp_all add: enqueue_def new_pool_def pool_size_def)
qed

lemma started_pool_simps:
  "accepted started_pool = [7]" "workers started_pool = [Running 7]" "tasks started_pool = []"
  "finished started_pool = []"
  by (simp_all add: started_pool_def worker_section_def enqueue_def new_pool_def pool_size_def)

theorem tasks_run_once_in_order_witness:
  "mset (accepted started_pool) = mset (finished started_pool) + {#7#}"
  using tasks_run_once_in_order [OF started_pool_reachable] by (simp add: started_pool_simps)

lemma joined_drained:
  assumes inv: "pool_inv p" and "joined p"
  shows "mset (finished p) = mset (accepted p) \<and> tasks p = []"
proof -
  have "in_flight ws = {#}" if "list_all (\<lambda>w. w = Exited) ws" for ws :: "'a worker list"
    using that by (induction ws) simp_all
  then have "in_flight (workers p) = {#}" using assms(2) by (simp add: joined_def)
  moreover obtain w where "w \<in> set (workers p)" using inv by (rule some_worker)
  then have "Exited \<in> set (workers p)" using assms(2) by (auto simp: joined_def list_all_iff)
  ultimately show ?thesis using inv by (simp add: pool_inv_def)
qed

text \<open>When the destructor's joins return, the pool is stopped, the queue is drained and every
  task that was ever accepted has been executed to its end.\<close>

theorem shutdown_drains_the_queue:
  assumes "reachable pool_init pool_step p" "joined p"
  shows "stop p \<and> tasks p = [] \<and> mset (finished p) = mset (accepted p)"
proof -
  have inv: "pool_inv p" by (rule pool.reachable_inv [OF assms(1)])
  obtain w where "w \<in> set (workers p)" using inv by (rule some_worker)
  then have "Exited \<in> set (workers p)" using assms(2) by (auto simp: joined_def list_all_iff)
  then have "stop p" using inv by (simp add: pool_inv_def)
  then show ?thesis using joined_drained [OF inv assms(2)] by simp
qed

definition finished_pool :: "nat pool" where
  "finished_pool = worker_section 0 (shut_down (started_pool\<lparr>workers := [Ready], finished := [7]\<rparr>))"

lemma finished_pool_reachable: "reachable pool_init pool_step finished_pool" "joined finished_pool"
proof -
  have "pool_step started_pool (started_pool\<lparr>workers := [Ready], finished := [7]\<rparr>)"
    using pool_step.work [OF work_step.task_returns [of 0 started_pool 7]] by (simp add: started_pool_simps)
  then have 1: "reachable pool_init pool_step (started_pool\<lparr>workers := [Ready], finished := [7]\<rparr>)"
    by (rule reachable.further [OF started_pool_reachable])
  have 2: "reachable pool_init pool_step (shut_down (started_pool\<lparr>workers := [Ready], finished := [7]\<rparr>))"
    by (rule reachable.further [OF 1], rule pool_step.destructor)
      (simp add: started_pool_def worker_section_def enqueue_def new_pool_def pool_size_def)
  show "reachable pool_init pool_step finished_pool"
    unfolding finished_pool_def
    by (rule reachable.further [OF 2], rule pool_step.work, rule work_step.worker_section) (simp_all add: shut_down_def)
  show "joined finished_pool"
    by (simp add: finished_pool_def worker_section_def shut_down_def joined_def started_pool_simps)
qed

theorem shutdown_drains_the_queue_witness:
  "mset (finished finished_pool) = mset (accepted finished_pool) \<and> tasks finished_pool = []"
  using shutdown_drains_the_queue [OF finished_pool_reachable] by simp

text \<open>The system can only move by a spurious wakeup or a new call of its owner.\<close>

definition quiescent :: "'t pool \<Rightarrow> bool" where
  "quiescent p \<longleftrightarrow> notify_ones p = 0 \<and> \<not> notify_all_due p \<and> list_all (\<lambda>w. \<not> awake w) (workers p)"

text \<open>C7: No wakeup is lost: when nothing is left to run, either the pool is not stopped, every
  worker waits and the queue is empty, or the pool is stopped and every worker has exited,
  so the destructor returns.\<close>

theorem no_lost_wakeup:
  assumes "reachable pool_init pool_step p" "quiescent p"
  shows "tasks p = [] \<and> (if stop p then joined p else list_all (\<lambda>w. w = Waiting) (workers p))"
proof -
  have inv: "pool_inv p" by (rule pool.reachable_inv [OF assms(1)])
  have "tasks p = []" using inv assms(2) by (auto simp: pool_inv_def quiescent_def list_all_iff)
  moreover have "joined p" if "stop p"
    using inv assms(2) that by (auto simp: pool_inv_def quiescent_def joined_def list_all_iff awake_def)
  moreover have "list_all (\<lambda>w. w = Waiting) (workers p)" if "\<not> stop p"
    using inv assms(2) that by (auto simp: pool_inv_def quiescent_def list_all_iff awake_def)
  ultimately show ?thesis by simp
qed

definition sleeping_pool :: "nat pool" where
  "sleeping_pool = worker_section 0 (new_pool 1)"

theorem no_lost_wakeup_witness:
  "tasks sleeping_pool = [] \<and> list_all (\<lambda>w. w = Waiting) (workers sleeping_pool)"
proof -
  have "reachable pool_init pool_step (new_pool 1 :: nat pool)"
    by (rule reachable.start) (auto simp: pool_init_def)
  then have "reachable pool_init pool_step sleeping_pool"
    unfolding sleeping_pool_def
    by (rule reachable.further, intro pool_step.work work_step.worker_section)
      (simp_all add: new_pool_def pool_size_def)
  moreover have q: "quiescent sleeping_pool" "\<not> stop sleeping_pool"
    by (simp_all add: quiescent_def sleeping_pool_def worker_section_def new_pool_def pool_size_def awake_def)
  ultimately show ?thesis using no_lost_wakeup [of sleeping_pool] by simp
qed

text \<open>After the destructor has set the flag, a call of \<open>enqueue\<close> throws and accepts nothing.\<close>

lemma enqueue_after_stop:
  "stop p \<Longrightarrow> enqueue task p = (Inl (Runtime_Error ''enqueue on stopped ThreadPool''), p)"
  by (simp add: enqueue_def)

section \<open>The work ends\<close>

fun worker_weight :: "'t worker \<Rightarrow> nat" where
  "worker_weight Ready = 2"
| "worker_weight Waiting = 1"
| "worker_weight (Running t) = 3"
| "worker_weight Exited = 0"

definition work_left :: "'t pool \<Rightarrow> nat" where
  "work_left p = 2 * length (tasks p) + 2 * notify_ones p + sum_list (map worker_weight (workers p)) +
     (if notify_all_due p then length (workers p) + 1 else 0)"

lemma weight_update:
  "i < length ws \<Longrightarrow> sum_list (map worker_weight (ws[i := w])) + worker_weight (ws ! i) =
    sum_list (map worker_weight ws) + worker_weight w"
proof (induction ws arbitrary: i)
  case (Cons v ws)
  then show ?case by (cases i) auto
qed simp

lemma weight_wake: "sum_list (map worker_weight (map wake ws)) \<le> sum_list (map worker_weight ws) + length ws"
proof (induction ws)
  case (Cons w ws)
  then show ?case by (cases w) (simp_all add: wake_def)
qed simp

lemma work_step_decreases: "work_step p p' \<Longrightarrow> work_left p' < work_left p"
proof (induction rule: work_step.induct)
  case (notify_one_wakes p n i)
  then show ?case using weight_update [of i "workers p" Ready] by (simp add: work_left_def)
next
  case (worker_section i p)
  then show ?case
    using weight_update [of i "workers p" Waiting] weight_update [of i "workers p" Exited]
      weight_update [of i "workers p" "Running (hd (tasks p))"]
    by (cases "tasks p") (auto simp: worker_section_def work_left_def)
next
  case (task_returns i p task)
  then show ?case using weight_update [of i "workers p" Ready] by (simp add: work_left_def)
next
  case (notify_all p)
  then show ?case using weight_wake [of "workers p"] by (simp add: work_left_def)
qed (simp add: work_left_def)

lemma stuck_quiescent:
  assumes "\<And>p'. \<not> work_step p p'"
  shows "quiescent p"
proof -
  have "notify_ones p = 0"
  proof (rule ccontr)
    assume "notify_ones p \<noteq> 0"
    then obtain n where n: "notify_ones p = Suc n" by (cases "notify_ones p") auto
    show False
    proof (cases "Waiting \<in> set (workers p)")
      case True
      then obtain i where "i < length (workers p)" "workers p ! i = Waiting" by (auto simp: in_set_conv_nth)
      then show False using assms work_step.notify_one_wakes [OF n] by blast
    qed (use assms work_step.notify_one_nobody [OF n] in blast)
  qed
  moreover have "\<not> awake w" if w: "w \<in> set (workers p)" for w
  proof -
    obtain i where "i < length (workers p)" "workers p ! i = w" using w by (auto simp: in_set_conv_nth)
    then show ?thesis
      using assms work_step.worker_section [of i p] work_step.task_returns [of i p]
      by (cases w) (auto simp: awake_def)
  qed
  ultimately show ?thesis using assms work_step.notify_all [of p] by (auto simp: quiescent_def list_all_iff)
qed

lemma reachable_work: "work_step\<^sup>*\<^sup>* p p' \<Longrightarrow> reachable pool_init pool_step p \<Longrightarrow> reachable pool_init pool_step p'"
  by (induction rule: rtranclp_induct) (auto intro: reachable.further pool_step.work)

lemma work_step_keeps: "work_step p p' \<Longrightarrow> stop p' = stop p \<and> accepted p' = accepted p"
  by (induction rule: work_step.induct) (auto simp: worker_section_def)

lemma work_keeps: "work_step\<^sup>*\<^sup>* p p' \<Longrightarrow> stop p' = stop p \<and> accepted p' = accepted p"
  by (induction rule: rtranclp_induct) (auto dest: work_step_keeps)

lemma work_to_quiescence: "\<exists>p'. work_step\<^sup>*\<^sup>* p p' \<and> quiescent p'"
proof (induction "work_left p" arbitrary: p rule: less_induct)
  case less
  show ?case
  proof (cases "\<exists>q. work_step p q")
    case True
    then obtain q where q: "work_step p q" by blast
    then obtain p' where "work_step\<^sup>*\<^sup>* q p'" "quiescent p'"
      using less [of q] work_step_decreases [OF q] by blast
    then show ?thesis using q by (meson converse_rtranclp_into_rtranclp)
  next
    case False
    then show ?thesis using stuck_quiescent [of p] by blast
  qed
qed

text \<open>C14: The work ends: every step the workers take by themselves makes \<open>work_left\<close> smaller, and a
  stopped pool goes by such steps alone to a state in which the joins return and all
  accepted tasks have been executed.\<close>

theorem stopped_pool_terminates:
  assumes "reachable pool_init pool_step p" "stop p"
  shows "(\<forall>q q'. work_step q q' \<longrightarrow> work_left q' < work_left (q :: 't pool)) \<and>
    (\<exists>p'. work_step\<^sup>*\<^sup>* p p' \<and> joined p' \<and> mset (finished p') = mset (accepted (p :: 't pool)))"
proof -
  obtain p' where p': "work_step\<^sup>*\<^sup>* p p'" "quiescent p'" using work_to_quiescence by blast
  have r: "reachable pool_init pool_step p'" using p'(1) assms(1) by (rule reachable_work)
  have k: "stop p'" "accepted p' = accepted p" using work_keeps [OF p'(1)] assms(2) by auto
  have inv: "pool_inv p'" by (rule pool.reachable_inv [OF r])
  have j: "joined p'" using inv p'(2) k(1)
    by (auto simp: pool_inv_def quiescent_def joined_def list_all_iff awake_def)
  then have "in_flight (workers p') = {#}"
    unfolding joined_def by (induction "workers p'" arbitrary: p') (auto simp: in_flight_def list_all_iff)
  moreover obtain w where "w \<in> set (workers p')" using inv by (rule some_worker)
  then have "Exited \<in> set (workers p')" using j by (auto simp: joined_def list_all_iff)
  ultimately have "mset (finished p') = mset (accepted p')" using inv by (simp add: pool_inv_def)
  then show ?thesis using p'(1) j k(2) work_step_decreases by metis
qed

theorem stopped_pool_terminates_witness:
  "\<exists>p'. work_step\<^sup>*\<^sup>* finished_pool p' \<and> joined p'"
  using stopped_pool_terminates [OF finished_pool_reachable(1)]
  by (auto simp: finished_pool_def worker_section_def shut_down_def started_pool_simps)

end
