(* ===== verification/Bounded_Buffer.thy ===== *)
theory Bounded_Buffer
  imports Transition_Systems "HOL-Library.Multiset"
begin

text \<open>
  \<^verbatim>\<open>systems/producer_consumer/ProducerConsumer.cpp\<close>: the bounded buffer, its producer and
  consumer threads and the main thread. \<open>produce\<close>, \<open>consume\<close> and \<open>mark_done\<close> notify
  while they hold the mutex, so a notification is part of the same step. \<open>pushed\<close> and
  \<open>consumed\<close> are history.
\<close>

datatype producer =
    Fetch                  \<comment> \<open>before \<open>next_item.fetch_add(1)\<close>\<close>
  | Produce int            \<comment> \<open>in \<open>produce(item)\<close>, about to lock or woken up\<close>
  | Wait_Not_Full int      \<comment> \<open>in \<open>not_full_.wait\<close>\<close>
  | Produced               \<comment> \<open>left the loop\<close>

datatype consumer =
    Consume                \<comment> \<open>in \<open>consume()\<close>, about to lock or woken up\<close>
  | Wait_Not_Empty         \<comment> \<open>in \<open>not_empty_.wait\<close>\<close>
  | Got int                \<comment> \<open>holds the returned item\<close>
  | Consumed               \<comment> \<open>got -1 and left the loop\<close>

record system =
  buffer :: "int list"
  capacity :: nat
  finish :: bool
  next_item :: int
  consumed_count :: int
  total_items :: int
  producers :: "producer list"
  consumers :: "consumer list"
  pushed :: "int list"
  consumed :: "int list"

definition new_system :: "int \<Rightarrow> nat \<Rightarrow> nat \<Rightarrow> nat \<Rightarrow> system" where
  "new_system n_items buffer_size num_producers num_consumers =
     \<lparr>buffer = [], capacity = buffer_size, finish = False, next_item = 0, consumed_count = 0,
      total_items = n_items, producers = replicate num_producers Fetch,
      consumers = replicate num_consumers Consume, pushed = [], consumed = []\<rparr>"

text \<open>\<open>int item = next_item.fetch_add(1); if (item >= total_items) break;\<close>\<close>

definition fetch :: "nat \<Rightarrow> system \<Rightarrow> system" where
  "fetch i s = s\<lparr>next_item := next_item s + 1,
     producers := (producers s)[i := if total_items s \<le> next_item s then Produced else Produce (next_item s)]\<rparr>"

text \<open>A notification wakes thread \<open>j\<close> if one waits, and is lost otherwise.\<close>

definition notified_consumers :: "consumer list \<Rightarrow> consumer list \<Rightarrow> bool" where
  "notified_consumers cs cs' \<longleftrightarrow>
     (if Wait_Not_Empty \<in> set cs
      then \<exists>j < length cs. cs ! j = Wait_Not_Empty \<and> cs' = cs[j := Consume] else cs' = cs)"

definition notified_producers :: "producer list \<Rightarrow> producer list \<Rightarrow> bool" where
  "notified_producers ps ps' \<longleftrightarrow>
     (if \<exists>p \<in> set ps. \<exists>x. p = Wait_Not_Full x
      then \<exists>j < length ps. \<exists>x. ps ! j = Wait_Not_Full x \<and> ps' = ps[j := Produce x] else ps' = ps)"

text \<open>\<open>produce\<close> of thread \<open>i\<close> with its item, up to the wait or the unlock.\<close>

definition produce :: "nat \<Rightarrow> int \<Rightarrow> system \<Rightarrow> system \<Rightarrow> bool" where
  "produce i item s s' \<longleftrightarrow>
     (if length (buffer s) < capacity s
      then \<exists>cs'. notified_consumers (consumers s) cs' \<and>
        s' = s\<lparr>buffer := buffer s @ [item], pushed := pushed s @ [item],
               producers := (producers s)[i := Fetch], consumers := cs'\<rparr>
      else s' = s\<lparr>producers := (producers s)[i := Wait_Not_Full item]\<rparr>)"

definition consume :: "nat \<Rightarrow> system \<Rightarrow> system \<Rightarrow> bool" where
  "consume j s s' \<longleftrightarrow>
     (if buffer s = [] \<and> \<not> finish s then s' = s\<lparr>consumers := (consumers s)[j := Wait_Not_Empty]\<rparr>
      else if buffer s = [] \<and> finish s then s' = s\<lparr>consumers := (consumers s)[j := Got (- 1)]\<rparr>
      else \<exists>ps'. notified_producers (producers s) ps' \<and>
        s' = s\<lparr>buffer := tl (buffer s), consumed := consumed s @ [hd (buffer s)],
               consumers := (consumers s)[j := Got (hd (buffer s))], producers := ps'\<rparr>)"

text \<open>\<open>if (item == -1) break; consumed_count.fetch_add(1);\<close>\<close>

definition count_item :: "nat \<Rightarrow> int \<Rightarrow> system \<Rightarrow> system" where
  "count_item j item s =
     (if item = - 1 then s\<lparr>consumers := (consumers s)[j := Consumed]\<rparr>
      else s\<lparr>consumed_count := consumed_count s + 1, consumers := (consumers s)[j := Consume]\<rparr>)"

definition wake_consumer :: "consumer \<Rightarrow> consumer" where
  "wake_consumer c = (if c = Wait_Not_Empty then Consume else c)"

definition mark_done :: "system \<Rightarrow> system" where
  "mark_done s = s\<lparr>finish := True, consumers := map wake_consumer (consumers s)\<rparr>"

inductive buffer_step :: "system \<Rightarrow> system \<Rightarrow> bool" where
  fetch: "i < length (producers s) \<Longrightarrow> producers s ! i = Fetch \<Longrightarrow> buffer_step s (fetch i s)"
| produce: "i < length (producers s) \<Longrightarrow> producers s ! i = Produce item \<Longrightarrow> produce i item s s' \<Longrightarrow>
    buffer_step s s'"
| consume: "j < length (consumers s) \<Longrightarrow> consumers s ! j = Consume \<Longrightarrow> consume j s s' \<Longrightarrow> buffer_step s s'"
| count_item: "j < length (consumers s) \<Longrightarrow> consumers s ! j = Got item \<Longrightarrow>
    buffer_step s (count_item j item s)"
| mark_done: "list_all (\<lambda>p. p = Produced) (producers s) \<Longrightarrow> \<not> finish s \<Longrightarrow> buffer_step s (mark_done s)"
| spurious_producer: "i < length (producers s) \<Longrightarrow> producers s ! i = Wait_Not_Full item \<Longrightarrow>
    buffer_step s (s\<lparr>producers := (producers s)[i := Produce item]\<rparr>)"
| spurious_consumer: "j < length (consumers s) \<Longrightarrow> consumers s ! j = Wait_Not_Empty \<Longrightarrow>
    buffer_step s (s\<lparr>consumers := (consumers s)[j := Consume]\<rparr>)"

section \<open>The invariant\<close>

text \<open>The items producers hold but have not pushed.\<close>

fun held :: "producer \<Rightarrow> int list" where
  "held (Produce x) = [x]"
| "held (Wait_Not_Full x) = [x]"
| "held p = []"

definition held_items :: "producer list \<Rightarrow> int multiset" where
  "held_items ps = mset (concat (map held ps))"

definition wants_to_push :: "producer \<Rightarrow> bool" where
  "wants_to_push p \<longleftrightarrow> (case p of Produce x \<Rightarrow> True | _ \<Rightarrow> False)"

definition waits_to_push :: "producer \<Rightarrow> bool" where
  "waits_to_push p \<longleftrightarrow> (case p of Wait_Not_Full x \<Rightarrow> True | _ \<Rightarrow> False)"

text \<open>The items handed out: \<open>0\<close> to \<open>min next_item total_items - 1\<close>.\<close>

definition handed_out :: "system \<Rightarrow> int multiset" where
  "handed_out s = mset_set {0 ..< min (next_item s) (total_items s)}"

definition got_items :: "consumer list \<Rightarrow> nat" where
  "got_items cs = count_of (\<lambda>c. \<exists>x \<ge> 0. c = Got x) cs"

definition items_inv :: "system \<Rightarrow> bool" where
  "items_inv s \<longleftrightarrow> 0 \<le> next_item s \<and> length (buffer s) \<le> capacity s \<and>
     pushed s = consumed s @ buffer s \<and>
     mset (pushed s) + held_items (producers s) = handed_out s"

definition end_inv :: "system \<Rightarrow> bool" where
  "end_inv s \<longleftrightarrow>
     (Produced \<in> set (producers s) \<longrightarrow> total_items s \<le> next_item s) \<and>
     (finish s \<longrightarrow> list_all (\<lambda>p. p = Produced) (producers s)) \<and>
     (Consumed \<in> set (consumers s) \<or> Got (- 1) \<in> set (consumers s) \<longrightarrow> finish s \<and> buffer s = []) \<and>
     (finish s \<longrightarrow> Wait_Not_Empty \<notin> set (consumers s))"

definition wakeup_inv :: "system \<Rightarrow> bool" where
  "wakeup_inv s \<longleftrightarrow>
     ((\<exists>p \<in> set (producers s). waits_to_push p) \<longrightarrow>
        capacity s \<le> length (buffer s) + count_of wants_to_push (producers s)) \<and>
     (Wait_Not_Empty \<in> set (consumers s) \<longrightarrow>
        length (buffer s) \<le> count_of (\<lambda>c. c = Consume) (consumers s))"

lemma held_items_update:
  "i < length ps \<Longrightarrow> held_items (ps[i := p]) + mset (held (ps ! i)) = held_items ps + mset (held p)"
proof (induction ps arbitrary: i)
  case (Cons q ps)
  then show ?case by (cases i) (auto simp: held_items_def ac_simps)
qed simp

lemma held_items_notified: "notified_producers ps ps' \<Longrightarrow> held_items ps' = held_items ps"
proof (cases "\<exists>p \<in> set ps. \<exists>x. p = Wait_Not_Full x")
  case True
  assume "notified_producers ps ps'"
  with True obtain j x where "j < length ps" "ps ! j = Wait_Not_Full x" "ps' = ps[j := Produce x]"
    by (auto simp: notified_producers_def)
  then show ?thesis using held_items_update [of j ps "Produce x"] by simp
next
  case False
  assume "notified_producers ps ps'"
  with False show ?thesis by (simp add: notified_producers_def)
qed

lemma items_inv_step:
  assumes "buffer_step s s'" "items_inv s"
  shows "items_inv s'"
  using assms
proof (induction rule: buffer_step.induct)
  case (fetch i s)
  show ?case
  proof (cases "total_items s \<le> next_item s")
    case True
    then have "handed_out (fetch i s) = handed_out s" by (simp add: fetch_def handed_out_def min_def)
    then show ?thesis using fetch True held_items_update [OF fetch(1), of Produced]
      by (auto simp: items_inv_def fetch_def)
  next
    case False
    have "{0 ..< next_item s + 1} = insert (next_item s) {0 ..< next_item s}"
      using fetch(3) by (auto simp: items_inv_def)
    then have "handed_out (fetch i s) = handed_out s + {#next_item s#}"
      using False by (simp add: fetch_def handed_out_def min_def)
    then show ?thesis using fetch False held_items_update [OF fetch(1), of "Produce (next_item s)"]
      by (auto simp: items_inv_def fetch_def)
  qed
next
  case (produce i s item s')
  then show ?case
    using held_items_update [OF produce(1), of Fetch, symmetric] held_items_update [OF produce(1), of "Wait_Not_Full item"]
    by (auto simp: items_inv_def produce_def handed_out_def split: if_splits)
next
  case (consume j s s')
  then show ?case
    using held_items_notified [of "producers s"]
    by (cases "buffer s") (auto simp: items_inv_def consume_def handed_out_def split: if_splits)
next
  case (count_item j s item)
  then show ?case by (auto simp: items_inv_def count_item_def handed_out_def)
next
  case (mark_done s)
  then show ?case by (auto simp: items_inv_def mark_done_def handed_out_def)
next
  case (spurious_producer i s item)
  then show ?case using held_items_update [OF spurious_producer(1), of "Produce item"]
    by (auto simp: items_inv_def handed_out_def)
next
  case (spurious_consumer j s)
  then show ?case by (auto simp: items_inv_def handed_out_def)
qed

text \<open>How the threads end.\<close>

lemma in_notified_consumers:
  "notified_consumers cs cs' \<Longrightarrow> c \<in> set cs' \<Longrightarrow> c = Consume \<or> c \<in> set cs"
  by (auto simp: notified_consumers_def dest: update_cases split: if_splits)

lemma set_notified_producers:
  assumes "notified_producers ps ps'" "list_all (\<lambda>p. p = Produced) ps"
  shows "ps' = ps"
  using assms by (auto simp: notified_producers_def list_all_iff split: if_splits)

lemma Produced_notified:
  assumes "notified_producers ps ps'" "Produced \<in> set ps'"
  shows "Produced \<in> set ps"
  using assms by (auto simp: notified_producers_def dest: update_cases split: if_splits)

lemma buffer_items:
  assumes "items_inv s" "x \<in> set (buffer s)"
  shows "0 \<le> x"
proof -
  have "x \<in># mset (pushed s) + held_items (producers s)"
    using assms by (simp add: items_inv_def)
  moreover have "mset (pushed s) + held_items (producers s) = handed_out s"
    using assms(1) unfolding items_inv_def by (elim conjE)
  ultimately have "x \<in># handed_out s" by (simp only:)
  then show ?thesis by (simp add: handed_out_def)
qed

lemma end_inv_step:
  assumes "buffer_step s s'" "end_inv s" "items_inv s"
  shows "end_inv s'"
  using assms
proof (induction rule: buffer_step.induct)
  case (fetch i s)
  have "\<not> finish s" using fetch by (auto simp: end_inv_def list_all_iff dest!: nth_mem)
  then show ?case using fetch by (auto simp: end_inv_def fetch_def dest: update_cases)
next
  case (produce i s item s')
  have "\<not> finish s" using produce by (auto simp: end_inv_def list_all_iff dest!: nth_mem)
  then show ?case
    using produce
    by (auto simp: end_inv_def produce_def dest: update_cases in_notified_consumers split: if_splits)
next
  case (consume j s s')
  show ?case
  proof (cases "buffer s = []")
    case True
    then show ?thesis using consume by (auto simp: end_inv_def consume_def dest: update_cases split: if_splits)
  next
    case False
    then obtain ps' where ps': "notified_producers (producers s) ps'"
      and s': "s' = s\<lparr>buffer := tl (buffer s), consumed := consumed s @ [hd (buffer s)],
               consumers := (consumers s)[j := Got (hd (buffer s))], producers := ps'\<rparr>"
      using consume(3) by (auto simp: consume_def)
    have "hd (buffer s) \<noteq> - 1"
      using buffer_items [OF consume(5), of "hd (buffer s)"] False by auto
    moreover have "ps' = producers s" if "finish s"
      using consume(4) that set_notified_producers [OF ps'] by (simp add: end_inv_def)
    ultimately show ?thesis using consume False ps' Produced_notified [OF ps']
      by (auto simp: s' end_inv_def dest: update_cases)
  qed
next
  case (count_item j s item)
  have "Got item \<in> set (consumers s)" using count_item(1,2) by (metis nth_mem)
  then show ?case using count_item by (auto simp: end_inv_def count_item_def dest: update_cases)
next
  case (mark_done s)
  have "Wait_Not_Empty \<notin> set (map wake_consumer (consumers s))" by (auto simp: wake_consumer_def)
  moreover have "c \<in> set (map wake_consumer (consumers s)) \<Longrightarrow> c \<noteq> Consume \<Longrightarrow> c \<in> set (consumers s)" for c
    by (auto simp: wake_consumer_def split: if_splits)
  ultimately show ?case using mark_done by (auto simp: end_inv_def mark_done_def simp del: set_map)
next
  case (spurious_producer i s item)
  have "\<not> finish s" using spurious_producer by (auto simp: end_inv_def list_all_iff dest!: nth_mem)
  then show ?case using spurious_producer by (auto simp: end_inv_def dest: update_cases)
next
  case (spurious_consumer j s)
  then show ?case by (auto simp: end_inv_def dest: update_cases)
qed

text \<open>Who wakes whom.\<close>

abbreviation ready_producers :: "producer list \<Rightarrow> nat" where
  "ready_producers ps \<equiv> count_of wants_to_push ps"

abbreviation ready_consumers :: "consumer list \<Rightarrow> nat" where
  "ready_consumers cs \<equiv> count_of (\<lambda>c. c = Consume) cs"

lemma producer_predicates [simp]:
  "wants_to_push (Produce x)" "\<not> wants_to_push Fetch" "\<not> wants_to_push (Wait_Not_Full x)"
  "\<not> wants_to_push Produced" "waits_to_push (Wait_Not_Full x)" "\<not> waits_to_push (Produce x)"
  "\<not> waits_to_push Fetch" "\<not> waits_to_push Produced"
  by (simp_all add: wants_to_push_def waits_to_push_def)

lemma waits_to_push_iff: "waits_to_push p \<longleftrightarrow> (\<exists>x. p = Wait_Not_Full x)"
  by (cases p) simp_all

text \<open>A notification either finds nobody waiting or makes one more thread ready.\<close>

lemma notified_consumers_ready:
  assumes "notified_consumers cs cs'"
  shows "Wait_Not_Empty \<notin> set cs' \<or> ready_consumers cs' = Suc (ready_consumers cs)"
proof (cases "Wait_Not_Empty \<in> set cs")
  case True
  then obtain j where "j < length cs" "cs ! j = Wait_Not_Empty" "cs' = cs[j := Consume]"
    using assms by (auto simp: notified_consumers_def)
  then show ?thesis using count_of_update [of j cs "\<lambda>c. c = Consume" Consume] by simp
next
  case False
  then show ?thesis using assms by (simp add: notified_consumers_def)
qed

lemma notified_producers_ready:
  assumes "notified_producers ps ps'"
  shows "(\<forall>p \<in> set ps'. \<not> waits_to_push p) \<or> ready_producers ps' = Suc (ready_producers ps)"
proof (cases "\<exists>p \<in> set ps. \<exists>x. p = Wait_Not_Full x")
  case True
  then obtain j x where "j < length ps" "ps ! j = Wait_Not_Full x" "ps' = ps[j := Produce x]"
    using assms by (auto simp: notified_producers_def)
  then show ?thesis using count_of_update [of j ps wants_to_push "Produce x"] by simp
next
  case False
  then show ?thesis using assms by (simp add: notified_producers_def waits_to_push_iff)
qed

lemma in_notified_producers:
  "notified_producers ps ps' \<Longrightarrow> p \<in> set ps' \<Longrightarrow> waits_to_push p \<Longrightarrow> p \<in> set ps"
  by (auto simp: notified_producers_def dest: update_cases split: if_splits)

lemma wakeup_inv_step:
  assumes "buffer_step s s'" "wakeup_inv s" "end_inv s"
  shows "wakeup_inv s'"
  using assms
proof (induction rule: buffer_step.induct)
  case (fetch i s)
  have "ready_producers (producers s) \<le> ready_producers (producers (fetch i s))"
    using count_of_update [OF fetch(1), of wants_to_push] fetch(2) by (auto simp: fetch_def)
  moreover have "\<exists>p \<in> set (producers s). waits_to_push p" if "\<exists>p \<in> set (producers (fetch i s)). waits_to_push p"
    using that by (auto simp: fetch_def dest!: update_cases split: if_splits)
  ultimately show ?case using fetch(3) by (fastforce simp: wakeup_inv_def fetch_def)
next
  case (produce i s item s')
  show ?case
  proof (cases "length (buffer s) < capacity s")
    case True
    then obtain cs' where n: "notified_consumers (consumers s) cs'" and s': "s' = s\<lparr>buffer := buffer s @ [item],
        pushed := pushed s @ [item], producers := (producers s)[i := Fetch], consumers := cs'\<rparr>"
      using produce(3) by (auto simp: produce_def)
    have "Suc (ready_producers ((producers s)[i := Fetch])) = ready_producers (producers s)"
      using count_of_update [OF produce(1), of wants_to_push Fetch] produce(2) by simp
    moreover have "Wait_Not_Empty \<in> set cs' \<Longrightarrow> Wait_Not_Empty \<in> set (consumers s)"
      using in_notified_consumers [OF n] by auto
    ultimately show ?thesis using produce(4) notified_consumers_ready [OF n]
      by (auto simp: wakeup_inv_def s' dest!: update_cases)
  next
    case False
    then show ?thesis using produce by (auto simp: wakeup_inv_def produce_def)
  qed
next
  case (consume j s s')
  show ?case
  proof (cases "buffer s = []")
    case True
    then show ?thesis using consume by (auto simp: wakeup_inv_def end_inv_def consume_def dest: update_cases split: if_splits)
  next
    case False
    then obtain ps' where n: "notified_producers (producers s) ps'"
      and s': "s' = s\<lparr>buffer := tl (buffer s), consumed := consumed s @ [hd (buffer s)],
               consumers := (consumers s)[j := Got (hd (buffer s))], producers := ps'\<rparr>"
      using consume(3) by (auto simp: consume_def)
    have c: "Suc (ready_consumers ((consumers s)[j := Got (hd (buffer s))])) = ready_consumers (consumers s)"
      using count_of_update [OF consume(1), of "\<lambda>c. c = Consume" "Got (hd (buffer s))"] consume(2) by simp
    have l: "length (buffer s) = Suc (length (tl (buffer s)))" using False by (cases "buffer s") auto
    have "capacity s \<le> length (tl (buffer s)) + ready_producers ps'" if "\<exists>p \<in> set ps'. waits_to_push p"
    proof -
      from that obtain p where p: "p \<in> set ps'" "waits_to_push p" by blast
      then have "p \<in> set (producers s)" by (rule in_notified_producers [OF n])
      then have "capacity s \<le> length (buffer s) + ready_producers (producers s)"
        using p(2) consume(4) unfolding wakeup_inv_def by blast
      moreover have "ready_producers ps' = Suc (ready_producers (producers s))"
        using notified_producers_ready [OF n] p by blast
      ultimately show ?thesis using l by linarith
    qed
    moreover have "length (tl (buffer s)) \<le> ready_consumers ((consumers s)[j := Got (hd (buffer s))])"
      if "Wait_Not_Empty \<in> set ((consumers s)[j := Got (hd (buffer s))])"
    proof -
      have "Wait_Not_Empty \<in> set (consumers s)" using update_cases [OF that] by blast
      then have "length (buffer s) \<le> ready_consumers (consumers s)"
        using consume(4) unfolding wakeup_inv_def by blast
      then show ?thesis using c l by linarith
    qed
    ultimately show ?thesis by (simp add: wakeup_inv_def s')
  qed
next
  case (count_item j s item)
  have "ready_consumers (consumers s) \<le> ready_consumers ((consumers s)[j := v])" for v
    using count_of_update [OF count_item(1), of "\<lambda>c. c = Consume" v] count_item(2) by simp
  then show ?case using count_item(3)
    by (auto simp: wakeup_inv_def count_item_def dest!: update_cases intro: order_trans)
next
  case (mark_done s)
  have "Wait_Not_Empty \<notin> set (map wake_consumer (consumers s))" by (auto simp: wake_consumer_def)
  then show ?case using mark_done by (simp add: wakeup_inv_def mark_done_def del: set_map)
next
  case (spurious_producer i s item)
  have "ready_producers ((producers s)[i := Produce item]) = Suc (ready_producers (producers s))"
    using count_of_update [OF spurious_producer(1), of wants_to_push "Produce item"] spurious_producer(2) by simp
  then show ?case using spurious_producer(3) by (auto simp: wakeup_inv_def dest!: update_cases)
next
  case (spurious_consumer j s)
  have "ready_consumers ((consumers s)[j := Consume]) = Suc (ready_consumers (consumers s))"
    using count_of_update [OF spurious_consumer(1), of "\<lambda>c. c = Consume" Consume] spurious_consumer(2) by simp
  then show ?case using spurious_consumer(3) by (auto simp: wakeup_inv_def dest!: update_cases)
qed

text \<open>\<open>consumed_count\<close> lags behind by the items consumers hold.\<close>

definition count_inv :: "system \<Rightarrow> bool" where
  "count_inv s \<longleftrightarrow> consumed_count s + int (got_items (consumers s)) = int (length (consumed s)) \<and>
     (\<forall>x. Got x \<in> set (consumers s) \<longrightarrow> - 1 \<le> x)"

lemma got_items_update:
  "j < length cs \<Longrightarrow> got_items (cs[j := c]) + (if \<exists>x \<ge> 0. cs ! j = Got x then 1 else 0) =
    got_items cs + (if \<exists>x \<ge> 0. c = Got x then 1 else 0)"
  unfolding got_items_def by (rule count_of_update)

lemma got_items_notified: "notified_consumers cs cs' \<Longrightarrow> got_items cs' = got_items cs"
proof (cases "Wait_Not_Empty \<in> set cs")
  case True
  assume "notified_consumers cs cs'"
  with True obtain j where "j < length cs" "cs ! j = Wait_Not_Empty" "cs' = cs[j := Consume]"
    by (auto simp: notified_consumers_def)
  then show ?thesis using got_items_update [of j cs Consume] by simp
next
  case False
  assume "notified_consumers cs cs'"
  with False show ?thesis by (simp add: notified_consumers_def)
qed

lemma count_inv_step:
  assumes "buffer_step s s'" "count_inv s" "items_inv s"
  shows "count_inv s'"
  using assms
proof (induction rule: buffer_step.induct)
  case (fetch i s)
  then show ?case by (simp add: count_inv_def fetch_def)
next
  case (produce i s item s')
  show ?case
  proof (cases "length (buffer s) < capacity s")
    case True
    then obtain cs' where n: "notified_consumers (consumers s) cs'" and s': "s' = s\<lparr>buffer := buffer s @ [item],
        pushed := pushed s @ [item], producers := (producers s)[i := Fetch], consumers := cs'\<rparr>"
      using produce(3) by (auto simp: produce_def)
    show ?thesis using produce(4) got_items_notified [OF n] in_notified_consumers [OF n]
      by (auto simp: count_inv_def s')
  next
    case False
    then show ?thesis using produce(3,4) by (simp add: count_inv_def produce_def)
  qed
next
  case (consume j s s')
  have u: "got_items ((consumers s)[j := c]) = got_items (consumers s) + (if \<exists>x \<ge> 0. c = Got x then 1 else 0)" for c
    using got_items_update [OF consume(1), of c] consume(2) by simp
  consider "s' = s\<lparr>consumers := (consumers s)[j := Wait_Not_Empty]\<rparr>"
    | "s' = s\<lparr>consumers := (consumers s)[j := Got (- 1)]\<rparr>"
    | ps' where "buffer s \<noteq> []" "s' = s\<lparr>buffer := tl (buffer s), consumed := consumed s @ [hd (buffer s)],
               consumers := (consumers s)[j := Got (hd (buffer s))], producers := ps'\<rparr>"
    using consume(3) unfolding consume_def by (auto split: if_splits)
  then show ?case
  proof cases
    case 1
    then show ?thesis using consume(4) by (auto simp: count_inv_def u dest: update_cases)
  next
    case 2
    then show ?thesis using consume(4) by (auto simp: count_inv_def u dest: update_cases)
  next
    case 3
    have "0 \<le> hd (buffer s)" using buffer_items [OF consume(5), of "hd (buffer s)"] 3(1) by simp
    then show ?thesis using consume(4) by (auto simp: count_inv_def 3(2) u dest: update_cases)
  qed
next
  case (count_item j s item)
  have "Got item \<in> set (consumers s)" using count_item(1,2) by (metis nth_mem)
  then have "- 1 \<le> item" using count_item(3) by (simp add: count_inv_def)
  then have "item = - 1 \<or> 0 \<le> item" by linarith
  moreover have "got_items ((consumers s)[j := c]) + (if 0 \<le> item then 1 else 0) = got_items (consumers s)"
    if "c = Consume \<or> c = Consumed" for c
    using got_items_update [OF count_item(1), of c] count_item(2) that by auto
  then have "got_items ((consumers s)[j := Consume]) + (if 0 \<le> item then 1 else 0) = got_items (consumers s)"
    "got_items ((consumers s)[j := Consumed]) + (if 0 \<le> item then 1 else 0) = got_items (consumers s)"
    by blast+
  ultimately show ?case using count_item(3)
    by (auto simp: count_inv_def count_item_def dest: update_cases)
next
  case (mark_done s)
  have "got_items (map wake_consumer cs) = got_items cs" for cs
  proof (induction cs)
    case (Cons c cs)
    then show ?case by (cases c) (simp_all add: got_items_def wake_consumer_def)
  qed simp
  then show ?case using mark_done(3)
    by (auto simp: count_inv_def mark_done_def wake_consumer_def split: if_splits)
next
  case (spurious_producer i s item)
  then show ?case by (simp add: count_inv_def)
next
  case (spurious_consumer j s)
  then show ?case using got_items_update [OF spurious_consumer(1), of Consume]
    by (auto simp: count_inv_def dest: update_cases)
qed

definition buffer_inv :: "system \<Rightarrow> bool" where
  "buffer_inv s \<longleftrightarrow> items_inv s \<and> end_inv s \<and> wakeup_inv s \<and> count_inv s"

definition buffer_init :: "system \<Rightarrow> bool" where
  "buffer_init s \<longleftrightarrow> (\<exists>n b p c. s = new_system n b p c)"

lemma new_system_inv: "buffer_inv (new_system n b p c)"
proof -
  have "held_items (replicate k Fetch) = {#}" for k by (induction k) (simp_all add: held_items_def)
  moreover have "ready_producers (replicate k Fetch) = 0" for k by (simp add: count_of_0_iff)
  moreover have "got_items (replicate k Consume) = 0" for k by (simp add: got_items_def count_of_0_iff)
  ultimately show ?thesis
    by (simp add: buffer_inv_def new_system_def items_inv_def end_inv_def wakeup_inv_def count_inv_def handed_out_def)
qed

interpretation buffer: step_invariant buffer_init buffer_step buffer_inv
proof unfold_locales
  fix s assume "buffer_init s"
  then show "buffer_inv s" by (auto simp: buffer_init_def new_system_inv)
next
  fix s s' assume "buffer_inv s" "buffer_step s s'"
  then show "buffer_inv s'"
    unfolding buffer_inv_def by (blast intro: items_inv_step end_inv_step wakeup_inv_step count_inv_step)
qed

section \<open>Properties\<close>














end
