(* ===== verification/C_Strings.thy ===== *)
theory C_Strings
  imports Acad_Prelude "HOL-Library.Monad_Syntax"
begin

text \<open>
  The part of C that the older program (\<^verbatim>\<open>academia\<close>, \<^verbatim>\<open>server\<close>, \<^verbatim>\<open>client\<close>) rests on: character
  arrays, the string functions on them and the growing result buffers.

  An array is the list of its initialised bytes. \<open>None\<close> stands for undefined behaviour: a
  function that reads past the initialised bytes, or writes past the end of an array or a
  buffer, has no result. A C text is \<open>terminated\<close> when it has a NUL byte, and then \<open>c_str\<close> is
  its content.
\<close>

abbreviation NUL :: char where "NUL \<equiv> CHR 0x00"

definition terminated :: "string \<Rightarrow> bool" where
  "terminated s \<longleftrightarrow> NUL \<in> set s"

section \<open>string.h\<close>

fun strlen :: "string \<Rightarrow> nat option" where
  "strlen [] = None"
| "strlen (c # s) = (if c = NUL then Some 0 else map_option Suc (strlen s))"

text \<open>\<open>strcmp(a, b) == 0\<close>: the bytes are compared up to the first difference or NUL.\<close>

fun strcmp_eq :: "string \<Rightarrow> string \<Rightarrow> bool option" where
  "strcmp_eq (a # as) (b # bs) =
     (if a \<noteq> b then Some False else if a = NUL then Some True else strcmp_eq as bs)"
| "strcmp_eq _ _ = None"

text \<open>The \<open>n\<close> bytes that \<open>strncpy(dst, s, n)\<close> writes: no terminator if \<open>s\<close> has \<open>n\<close> or more.\<close>

fun strncpy :: "nat \<Rightarrow> string \<Rightarrow> string option" where
  "strncpy 0 s = Some []"
| "strncpy (Suc n) [] = None"
| "strncpy (Suc n) (c # s) =
     (if c = NUL then Some (replicate (Suc n) NUL) else map_option ((#) c) (strncpy n s))"

text \<open>What \<open>%s\<close> prints.\<close>

definition text_of :: "string \<Rightarrow> string option" where
  "text_of s = (if terminated s then Some (c_str s) else None)"

text \<open>The text that \<open>snprintf\<close> leaves in a buffer of \<open>n\<close> bytes.\<close>

definition snprintf :: "nat \<Rightarrow> string \<Rightarrow> string" where
  "snprintf n s = take (n - 1) s"

lemma terminated_simps [simp]:
  "\<not> terminated []"
  "terminated (c # s) \<longleftrightarrow> c = NUL \<or> terminated s"
  "terminated (s @ t) \<longleftrightarrow> terminated s \<or> terminated t"
  "terminated (replicate n NUL) \<longleftrightarrow> 0 < n"
  by (auto simp: terminated_def)

lemma c_str_simps [simp]:
  "c_str [] = []"
  "c_str (c # s) = (if c = NUL then [] else c # c_str s)"
  by (simp_all add: c_str_def)

lemma NUL_notin_c_str [simp]: "NUL \<notin> set (c_str s)"
  by (induction s) auto

lemma c_str_append: "c_str (s @ t) = (if terminated s then c_str s else s @ c_str t)"
  by (induction s) auto

lemma c_str_replicate_NUL [simp]: "c_str (replicate n NUL) = []"
  by (cases n) auto

lemma not_terminated_c_str: "\<not> terminated s \<Longrightarrow> c_str s = s"
  by (simp add: terminated_def c_str_id)

lemma length_c_str_le: "length (c_str s) \<le> length s"
  by (induction s) auto

lemma length_c_str: "terminated s \<Longrightarrow> length (c_str s) < length s"
  by (induction s) auto

lemma c_str_Nil_iff: "s \<noteq> [] \<Longrightarrow> c_str s = [] \<longleftrightarrow> s ! 0 = NUL"
  by (cases s) auto

lemma strlen_terminated: "terminated s \<Longrightarrow> strlen s = Some (length (c_str s))"
  by (induction s) auto

lemma strlen_unterminated: "\<not> terminated s \<Longrightarrow> strlen s = None"
  by (induction s) auto

lemma strcmp_eq_terminated:
  "terminated a \<Longrightarrow> terminated b \<Longrightarrow> strcmp_eq a b = Some (c_str a = c_str b)"
  by (induction a b rule: strcmp_eq.induct) auto

text \<open>Copying a terminated text that fits gives a terminated array with the same text.\<close>

lemma strncpy_fits:
  "terminated s \<Longrightarrow> length (c_str s) < n \<Longrightarrow>
    strncpy n s = Some (c_str s @ replicate (n - length (c_str s)) NUL)"
proof (induction n s rule: strncpy.induct)
  case (3 n c s)
  then show ?case by (cases "c = NUL") auto
qed auto

text \<open>A text that does not fit is cut without a terminator.\<close>

lemma strncpy_cuts:
  "n \<le> length (c_str s) \<Longrightarrow> strncpy n s = Some (take n (c_str s))"
proof (induction n s rule: strncpy.induct)
  case (3 n c s)
  then show ?case by (cases "c = NUL") auto
qed auto

definition field :: "nat \<Rightarrow> string \<Rightarrow> bool" where
  "field n s \<longleftrightarrow> length s = n \<and> terminated s"

text \<open>A text that fits a field of \<open>n\<close> bytes.\<close>

definition fits :: "nat \<Rightarrow> string \<Rightarrow> bool" where
  "fits n s \<longleftrightarrow> terminated s \<and> length (c_str s) < n"

definition c_field :: "nat \<Rightarrow> string \<Rightarrow> string" where
  "c_field n s = c_str s @ replicate (n - length (c_str s)) NUL"

lemma c_field_ok [simp]:
  "fits n s \<Longrightarrow> field n (c_field n s)"
  "fits n s \<Longrightarrow> c_str (c_field n s) = c_str s"
  by (auto simp: field_def fits_def c_field_def c_str_append terminated_def)

lemma strncpy_c_field [simp]: "fits n s \<Longrightarrow> strncpy n s = Some (c_field n s)"
  by (simp add: fits_def c_field_def strncpy_fits)

lemma fits_terminated: "fits n s \<Longrightarrow> terminated s"
  by (simp add: fits_def)

lemma field_terminated: "field n s \<Longrightarrow> terminated s"
  by (simp add: field_def)

lemma field_fits: "field n s \<Longrightarrow> fits n s"
  using length_c_str by (auto simp: field_def fits_def)

lemma field_zeros [simp]: "0 < n \<Longrightarrow> field n (replicate n NUL)"
  by (simp add: field_def)

lemma text_of_terminated [simp]: "terminated s \<Longrightarrow> text_of s = Some (c_str s)"
  by (simp add: text_of_def)

section \<open>ctype.h and atoi, in the C locale\<close>

definition is_digit :: "char \<Rightarrow> bool" where
  "is_digit c \<longleftrightarrow> 48 \<le> (of_char c :: nat) \<and> (of_char c :: nat) \<le> 57"

definition is_alpha :: "char \<Rightarrow> bool" where
  "is_alpha c \<longleftrightarrow> 65 \<le> (of_char c :: nat) \<and> (of_char c :: nat) \<le> 90 \<or>
     97 \<le> (of_char c :: nat) \<and> (of_char c :: nat) \<le> 122"

definition is_alnum :: "char \<Rightarrow> bool" where
  "is_alnum c \<longleftrightarrow> is_alpha c \<or> is_digit c"

definition is_space :: "char \<Rightarrow> bool" where
  "is_space c \<longleftrightarrow> c = CHR '' '' \<or> 9 \<le> (of_char c :: nat) \<and> (of_char c :: nat) \<le> 13"

definition digit_value :: "char \<Rightarrow> int" where
  "digit_value c = int (of_char c) - 48"

definition digits_value :: "string \<Rightarrow> int" where
  "digits_value ds = foldl (\<lambda>v c. 10 * v + digit_value c) 0 ds"

text \<open>
  \<open>atoi\<close>: leading blanks, a sign, digits. The standard gives no result when the number does
  not fit an \<open>int\<close>.
\<close>

definition atoi_text :: "string \<Rightarrow> int" where
  "atoi_text s = (let t = dropWhile is_space s in
     case t of
       [] \<Rightarrow> 0
     | c # t' \<Rightarrow> if c = CHR ''-'' then - digits_value (takeWhile is_digit t')
                else if c = CHR ''+'' then digits_value (takeWhile is_digit t')
                else digits_value (takeWhile is_digit t))"

definition atoi :: "string \<Rightarrow> int option" where
  "atoi s = (if terminated s \<and> - 2147483648 \<le> atoi_text (c_str s) \<and> atoi_text (c_str s) \<le> i32_max
     then Some (atoi_text (c_str s)) else None)"

lemma digit_bounds: "is_digit c \<Longrightarrow> 0 \<le> digit_value c" "is_digit c \<Longrightarrow> digit_value c \<le> 9"
  by (simp_all add: is_digit_def digit_value_def)

section \<open>Result buffers\<close>

text \<open>
  A heap buffer with its size and the text in it. \<open>alloc n\<close> tells whether an allocation of \<open>n\<close>
  bytes succeeds. Appending grows the buffer when the text and its NUL would not fit, as
  every \<open>view\<close> function does; \<open>strcat\<close> itself checks nothing.
\<close>

record cbuf =
  cb_text :: string
  cb_size :: nat

definition strcat :: "cbuf \<Rightarrow> string \<Rightarrow> cbuf option" where
  "strcat b s = (if length (cb_text b) + length s < cb_size b
     then Some (b\<lparr>cb_text := cb_text b @ s\<rparr>) else None)"

definition strcpy :: "cbuf \<Rightarrow> string \<Rightarrow> cbuf option" where
  "strcpy b s = (if length s < cb_size b then Some (b\<lparr>cb_text := s\<rparr>) else None)"

text \<open>Inner \<open>None\<close>: the allocation failed and the caller returns NULL.\<close>

definition reserve :: "(nat \<Rightarrow> bool) \<Rightarrow> nat \<Rightarrow> cbuf \<Rightarrow> cbuf option" where
  "reserve alloc needed b = (if cb_size b < needed
     then (if alloc (needed + 1024) then Some (b\<lparr>cb_size := needed + 1024\<rparr>) else None)
     else Some b)"

definition append_text :: "(nat \<Rightarrow> bool) \<Rightarrow> cbuf \<Rightarrow> string \<Rightarrow> cbuf option option" where
  "append_text alloc b s =
     (case reserve alloc (length (cb_text b) + length s + 1) b of
        None \<Rightarrow> Some None
      | Some b' \<Rightarrow> map_option Some (strcat b' s))"

definition replace_text :: "(nat \<Rightarrow> bool) \<Rightarrow> cbuf \<Rightarrow> string \<Rightarrow> cbuf option option" where
  "replace_text alloc b s =
     (case reserve alloc (length s + 1) b of
        None \<Rightarrow> Some None
      | Some b' \<Rightarrow> map_option Some (strcpy b' s))"

text \<open>Neither overruns the buffer, and both write what they are given.\<close>

lemma append_text_ok:
  "append_text alloc b s = Some None \<or>
   (\<exists>n. append_text alloc b s = Some (Some \<lparr>cb_text = cb_text b @ s, cb_size = n\<rparr>))"
  by (cases b) (auto simp: append_text_def reserve_def strcat_def)

lemma replace_text_ok:
  "replace_text alloc b s = Some None \<or>
   (\<exists>n. replace_text alloc b s = Some (Some \<lparr>cb_text = s, cb_size = n\<rparr>))"
  by (cases b) (auto simp: replace_text_def reserve_def strcpy_def)

lemma append_text_allocated:
  "(\<And>n. alloc n) \<Longrightarrow> \<exists>n. append_text alloc b s = Some (Some \<lparr>cb_text = cb_text b @ s, cb_size = n\<rparr>)"
  by (cases b) (auto simp: append_text_def reserve_def strcat_def)

lemma replace_text_allocated:
  "(\<And>n. alloc n) \<Longrightarrow> \<exists>n. replace_text alloc b s = Some (Some \<lparr>cb_text = s, cb_size = n\<rparr>)"
  by (cases b) (auto simp: replace_text_def reserve_def strcpy_def)

end
