(* ===== verification/Thread_Programs.thy ===== *)
theory Thread_Programs
  imports Transition_Systems
begin

text \<open>
  Functions that run in several threads, as programs over the shared state: a program is its
  result, or an atomic section (from taking a lock to releasing it, or one system call)
  followed by the rest of the program. \<open>None\<close> is undefined behaviour of the section. \<open>run\<close>
  executes a program without interruption; \<open>interleave\<close> lets other programs step in between
  the sections.
\<close>

datatype ('s, 'a) prog =
    Done 'a
  | Step "'s \<Rightarrow> (('s, 'a) prog \<times> 's) option"

primrec run :: "('s, 'a) prog \<Rightarrow> 's \<Rightarrow> ('a \<times> 's) option" where
  "run (Done a) = (\<lambda>s. Some (a, s))"
| "run (Step f) = (\<lambda>s. case (map_option (map_prod run id) \<circ> f) s of
     None \<Rightarrow> None | Some (k, s') \<Rightarrow> k s')"

primrec andthen :: "('s, 'a) prog \<Rightarrow> ('a \<Rightarrow> ('s, 'b) prog) \<Rightarrow> ('s, 'b) prog" where
  "andthen (Done a) = (\<lambda>k. k a)"
| "andthen (Step f) = (\<lambda>k. Step (\<lambda>s. map_option (map_prod (\<lambda>q. q k) id)
     ((map_option (map_prod andthen id) \<circ> f) s)))"

text \<open>A program of one section that returns a value.\<close>

definition atomically :: "('s \<Rightarrow> ('a \<times> 's) option) \<Rightarrow> ('s, 'a) prog" where
  "atomically f = Step (\<lambda>s. map_option (map_prod Done id) (f s))"

lemma run_Step: "run (Step f) s = (case f s of None \<Rightarrow> None | Some (p, s') \<Rightarrow> run p s')"
  by (simp split: option.split prod.split)

lemma andthen_Step:
  "andthen (Step f) k = Step (\<lambda>s. map_option (map_prod (\<lambda>p. andthen p k) id) (f s))"
  by (simp add: option.map_comp prod.map_comp comp_def id_def)

lemma run_andthen: "run (andthen p k) s = (case run p s of None \<Rightarrow> None | Some (a, s') \<Rightarrow> run (k a) s')"
proof (induction p arbitrary: s)
  case (Step f)
  show ?case
  proof (cases "f s")
    case (Some ps)
    obtain p s' where ps: "ps = (p, s')" by (cases ps)
    have "run (andthen p k) s' = (case run p s' of None \<Rightarrow> None | Some (a, s') \<Rightarrow> run (k a) s')"
      by (rule Step.IH [OF rangeI [of f s], of "(p, s')"]) (auto simp: Some ps)
    then show ?thesis
      unfolding andthen_Step run_Step by (simp add: Some ps)
  qed (simp add: andthen_Step run_Step)
qed simp

lemma run_atomically [simp]: "run (atomically f) s = f s"
  by (cases "f s") (auto simp: atomically_def run_Step)

lemma andthen_assoc: "andthen (andthen p k) h = andthen p (\<lambda>a. andthen (k a) h)"
proof (induction p)
  case (Step f)
  have "map_prod (\<lambda>q. andthen (andthen q k) h) id ps = map_prod (\<lambda>q. andthen q (\<lambda>a. andthen (k a) h)) id ps"
    if "f s = Some ps" for s ps
    using Step.IH [OF rangeI [of f s], of ps "fst ps"] that by (cases ps) simp
  then show ?case
    unfolding andthen_Step by (auto simp: fun_eq_iff option.map_comp prod.map_comp comp_def
        split: option.split intro!: option.map_cong)
qed simp

lemma andthen_Done [simp]: "andthen p Done = p"
proof (induction p)
  case (Step f)
  have "map_prod (\<lambda>q. andthen q Done) id ps = ps" if "f s = Some ps" for s ps
    using Step.IH [OF rangeI [of f s], of ps "fst ps"] that by (cases ps) simp
  then have "map_option (map_prod (\<lambda>q. andthen q Done) id) (f s) = f s" for s
    by (cases "f s") simp_all
  then show ?case unfolding andthen_Step by simp
qed simp

declare run.simps(2) [simp del] andthen.simps(2) [simp del]
declare run_Step [simp] andthen_Step [simp]

section \<open>Interleaving\<close>

text \<open>One thread executes its next section.\<close>

inductive interleave :: "('s, 'a) prog list \<times> 's \<Rightarrow> ('s, 'a) prog list \<times> 's \<Rightarrow> bool" where
  critical: "i < length ts \<Longrightarrow> ts ! i = Step f \<Longrightarrow> f s = Some (p, s') \<Longrightarrow>
    interleave (ts, s) (ts[i := p], s')"

inductive_cases interleaveE: "interleave (ts, s) c"

lemma run_interleaves:
  assumes "i < length ts" "run (ts ! i) s = Some (a, s')"
  shows "interleave\<^sup>*\<^sup>* (ts, s) (ts[i := Done a], s')"
  using assms
proof (induction "ts ! i" arbitrary: ts s)
  case (Done b)
  then have "ts ! i = Done a" "s' = s" by (simp_all flip: Done.hyps)
  then show ?case by (metis list_update_id rtranclp.rtrancl_refl)
next
  case (Step f)
  obtain p s1 where f: "f s = Some (p, s1)" and run: "run p s1 = Some (a, s')"
    using Step.prems(2) by (auto simp flip: Step.hyps(2) split: option.splits)
  have "interleave\<^sup>*\<^sup>* (ts[i := p], s1) (ts[i := p, i := Done a], s')"
    by (rule Step.hyps(1) [OF rangeI [of f s], of "(p, s1)"]) (use f run Step.prems(1) in simp_all)
  moreover have "interleave (ts, s) (ts[i := p], s1)"
    using interleave.critical [OF Step.prems(1), of f s p s1] f Step.hyps(2) by simp
  ultimately show ?case by (simp add: converse_rtranclp_into_rtranclp)
qed

text \<open>The threads step in the order of a schedule; \<open>None\<close> if a step of it is not possible.\<close>

fun run_schedule :: "nat list \<Rightarrow> ('s, 'a) prog list \<times> 's \<Rightarrow> (('s, 'a) prog list \<times> 's) option" where
  "run_schedule [] c = Some c"
| "run_schedule (i # is) (ts, s) = (if i < length ts
     then (case ts ! i of Done a \<Rightarrow> None
       | Step f \<Rightarrow> (case f s of None \<Rightarrow> None | Some (p, s') \<Rightarrow> run_schedule is (ts[i := p], s')))
     else None)"

lemma run_schedule_interleaves: "run_schedule is c = Some c' \<Longrightarrow> interleave\<^sup>*\<^sup>* c c'"
proof (induction "is" c rule: run_schedule.induct)
  case (2 i "is" ts s)
  from "2.prems" obtain f p s' where f: "i < length ts" "ts ! i = Step f" "f s = Some (p, s')"
    and rest: "run_schedule is (ts[i := p], s') = Some c'"
    by (auto split: if_splits prog.splits option.splits)
  have "interleave\<^sup>*\<^sup>* (ts[i := p], s') c'"
    using "2.IH" [OF f(1,2,3) refl rest] .
  then show ?case using interleave.critical [OF f] by (rule converse_rtranclp_into_rtranclp [rotated])
qed simp

text \<open>A program has finitely many sections, so every interleaving comes to an end.\<close>

definition rest_of :: "(('s, 'a) prog \<times> ('s, 'a) prog) set" where
  "rest_of = {(p, Step f) | p f. \<exists>s s'. f s = Some (p, s')}"

lemma wf_rest_of: "wf rest_of"
proof (rule wfUNIVI)
  fix P q
  assume all: "\<forall>q. (\<forall>p. (p, q) \<in> rest_of \<longrightarrow> P p) \<longrightarrow> P q"
  show "P q"
  proof (induction q)
    case (Done a)
    show ?case using all by (simp add: rest_of_def)
  next
    case (Step f)
    have "P p" if "f s = Some (p, s')" for s p s'
      by (rule Step.IH [OF rangeI [of f s], of "(p, s')"]) (simp_all add: that)
    then have "\<forall>p. (p, Step f) \<in> rest_of \<longrightarrow> P p" by (auto simp: rest_of_def)
    then show ?case using all by blast
  qed
qed

lemma interleavings_end:
  "wf {(c' :: ('s, 'a) prog list \<times> 's, c). interleave c c'}" (is "wf ?R")
proof -
  have "(fst c', fst c) \<in> listrel1 rest_of" if "interleave c c'" for c c'
    using that
  proof cases
    case (critical i ts f s p s')
    then have "(ts ! i, p) \<in> rest_of\<inverse>" by (auto simp: rest_of_def)
    then have "(ts, ts[i := p]) \<in> listrel1 (rest_of\<inverse>)"
      using critical(3) unfolding listrel1_iff_update by blast
    then show ?thesis using critical by (simp add: in_listrel1_converse)
  qed
  then have "?R \<subseteq> inv_image (listrel1 rest_of) fst" by auto
  then show ?thesis by (rule wf_subset [rotated]) (simp add: wf_rest_of)
qed

lemma interleave_to_the_end: "\<exists>c'. interleave\<^sup>*\<^sup>* c c' \<and> (\<forall>c''. \<not> interleave c' c'')"
proof (induction c rule: wf_induct_rule [OF interleavings_end])
  case (1 c)
  show ?case
  proof (cases "\<exists>c1. interleave c c1")
    case True
    then obtain c1 where c1: "interleave c c1" by blast
    then obtain c' where "interleave\<^sup>*\<^sup>* c1 c'" "\<forall>c''. \<not> interleave c' c''" using 1 by blast
    then show ?thesis using converse_rtranclp_into_rtranclp [of interleave, OF c1] by blast
  qed blast
qed

text \<open>
  Every section the program can come to is defined on the states that satisfy \<open>I\<close> and keeps
  \<open>I\<close>, whatever the other threads did to the state in between.
\<close>

coinductive keeps_inv :: "('s \<Rightarrow> bool) \<Rightarrow> ('s, 'a) prog \<Rightarrow> bool" for I where
  finished: "keeps_inv I (Done a)"
| critical: "(\<And>s. I s \<Longrightarrow> \<exists>p s'. f s = Some (p, s') \<and> I s' \<and> keeps_inv I p) \<Longrightarrow> keeps_inv I (Step f)"

inductive_simps keeps_inv_simps [simp]: "keeps_inv I (Done a)" "keeps_inv I (Step f)"

definition threads_ok :: "('s \<Rightarrow> bool) \<Rightarrow> ('s, 'a) prog list \<times> 's \<Rightarrow> bool" where
  "threads_ok I c \<longleftrightarrow> I (snd c) \<and> list_all (keeps_inv I) (fst c)"

lemma list_all_update: "list_all P xs \<Longrightarrow> P v \<Longrightarrow> list_all P (xs[i := v])"
  by (auto simp: list_all_iff dest: update_cases)

lemma interleave_threads_ok: "threads_ok I c \<Longrightarrow> interleave c c' \<Longrightarrow> threads_ok I c'"
proof (erule interleave.cases)
  fix i ts f s p s'
  assume ok: "threads_ok I c" and c: "c = (ts, s)" "c' = (ts[i := p], s')"
    and i: "i < length ts" "ts ! i = Step f" and f: "f s = Some (p, s')"
  have "keeps_inv I (Step f)" and I: "I s" "list_all (keeps_inv I) ts"
    using ok i by (auto simp: threads_ok_def c list_all_length)
  then have "I s' \<and> keeps_inv I p" using f by fastforce
  then show "threads_ok I c'" using I by (simp add: threads_ok_def c list_all_update)
qed

text \<open>No thread can get stuck: the only thing that keeps a program from its next section is undefined
  behaviour.\<close>

lemma threads_progress:
  assumes "threads_ok I (ts, s)" "i < length ts" "ts ! i = Step f"
  shows "\<exists>p s'. interleave (ts, s) (ts[i := p], s')"
proof -
  have "keeps_inv I (Step f)" "I s" using assms by (auto simp: threads_ok_def list_all_length)
  then obtain p s' where "f s = Some (p, s')" by auto
  then show ?thesis using interleave.critical [OF assms(2,3)] by blast
qed

lemma run_keeps_inv:
  "keeps_inv I p \<Longrightarrow> I s \<Longrightarrow> \<exists>a s'. run p s = Some (a, s') \<and> I s'"
proof (induction p arbitrary: s)
  case (Step f)
  then obtain p s' where f: "f s = Some (p, s')" and p: "I s'" "keeps_inv I p" by auto
  have "\<exists>a s''. run p s' = Some (a, s'') \<and> I s''"
    by (rule Step.IH [OF rangeI [of f s], of "(p, s')"]) (auto simp: f p)
  then show ?case using f by simp
qed auto

section \<open>Threads that are always at one of some stages\<close>

text \<open>
  \<open>P\<close> gives the rest of the program at a stage, \<open>move\<close> what its next section does and \<open>final\<close>
  what it has returned. The interleavings of such threads are then moves on the list of their stages.
\<close>

locale staged_threads =
  fixes P :: "'g \<Rightarrow> ('s, 'a) prog" and move :: "'g \<Rightarrow> 's \<Rightarrow> ('g \<times> 's) option" and final :: "'g \<Rightarrow> 'a option"
  assumes at_end: "final g = Some a \<Longrightarrow> P g = Done a"
    and at_section: "final g = None \<Longrightarrow> P g = Step (\<lambda>s. map_option (map_prod P id) (move g s))"
begin

lemma interleave_moves:
  assumes "interleave (map P gs, s) c"
  obtains i g s' where "i < length gs" "final (gs ! i) = None" "move (gs ! i) s = Some (g, s')"
    "c = (map P (gs[i := g]), s')"
  using assms
proof cases
  case (critical i f p s')
  have "final (gs ! i) = None"
    using critical at_end [of "gs ! i"] by (cases "final (gs ! i)") auto
  moreover obtain g where "move (gs ! i) s = Some (g, s')" "p = P g"
    using critical at_section [OF calculation] by auto
  ultimately show ?thesis using critical that by (simp add: map_update)
qed

lemma move_interleaves:
  "i < length gs \<Longrightarrow> final (gs ! i) = None \<Longrightarrow> move (gs ! i) s = Some (g, s') \<Longrightarrow>
    interleave (map P gs, s) (map P (gs[i := g]), s')"
  using interleave.critical [of i "map P gs" _ s "P g" s'] at_section [of "gs ! i"] by (simp add: map_update)

end

text \<open>An invariant of the stages and the state; some thread can go on as long as one has not returned.\<close>

locale staged_invariant = staged_threads P move final
  for P :: "'g \<Rightarrow> ('s, 'a) prog" and move :: "'g \<Rightarrow> 's \<Rightarrow> ('g \<times> 's) option" and final :: "'g \<Rightarrow> 'a option" +
  fixes I :: "'g list \<Rightarrow> 's \<Rightarrow> bool"
  assumes kept: "I gs s \<Longrightarrow> i < length gs \<Longrightarrow> final (gs ! i) = None \<Longrightarrow>
      move (gs ! i) s = Some (g, s') \<Longrightarrow> I (gs[i := g]) s'"
    and progress: "I gs s \<Longrightarrow> g \<in> set gs \<Longrightarrow> final g = None \<Longrightarrow>
      \<exists>i < length gs. final (gs ! i) = None \<and> move (gs ! i) s \<noteq> None"
begin

lemma stage_invariant:
  assumes "interleave\<^sup>*\<^sup>* (map P gs, s) c" and "I gs s"
  shows "\<exists>gs' s'. c = (map P gs', s') \<and> I gs' s' \<and> length gs' = length gs"
  using assms(1)
proof (induction rule: rtranclp_induct)
  case base
  then show ?case using assms(2) by blast
next
  case (step c c')
  then obtain gs1 s1 where c: "c = (map P gs1, s1)" "I gs1 s1" "length gs1 = length gs" by blast
  from step(2) [unfolded c(1)] show ?case
    by (rule interleave_moves) (metis kept c(2,3) length_list_update)
qed

lemma runs_to_the_end:
  assumes "I gs s" and "interleave\<^sup>*\<^sup>* (map P gs, s) c"
  shows "\<exists>gs' s'. interleave\<^sup>*\<^sup>* c (map P gs', s') \<and> (\<forall>g \<in> set gs'. final g \<noteq> None)"
proof -
  obtain c' where c': "interleave\<^sup>*\<^sup>* c c'" "\<forall>c''. \<not> interleave c' c''"
    using interleave_to_the_end [of c] by blast
  then have "interleave\<^sup>*\<^sup>* (map P gs, s) c'" using assms(2) by simp
  then obtain gs' s' where inv: "c' = (map P gs', s')" "I gs' s'"
    using stage_invariant [OF _ assms(1)] by blast
  have "final g \<noteq> None" if g: "g \<in> set gs'" for g
  proof
    assume "final g = None"
    then obtain i where i: "i < length gs'" "final (gs' ! i) = None" "move (gs' ! i) s' \<noteq> None"
      using progress [OF inv(2) g] by blast
    then obtain g1 s1 where "move (gs' ! i) s' = Some (g1, s1)" by auto
    then show False using move_interleaves [OF i(1,2)] c'(2) inv(1) by blast
  qed
  then show ?thesis using c'(1) inv(1) by blast
qed

end

end
