(* ===== verification/Legacy_Store.thy ===== *)
theory Legacy_Store
  imports C_Strings Thread_Programs
begin

text \<open>
  \<^verbatim>\<open>academia/academia.h\<close> and \<^verbatim>\<open>academia/file_ops.c\<close>: the files of fixed size records and the
  functions that change them. A data file is the list of its records (every write is one whole
  record at a record boundary). Each function is a program whose sections are what the source
  does between \<open>sem_wait\<close> and \<open>sem_post\<close>; opening a file is a section of its own where the
  source opens before it waits. \<open>courses.dat\<close> can be replaced by \<open>rename\<close> while another thread
  holds it open, so a descriptor of it is the number of a file and the name points to one.
\<close>

section \<open>Records\<close>

datatype Role_c = ADMIN | STUDENT | FACULTY

record User_c =
  uc_id :: string
  uc_role :: Role_c
  uc_password :: string

record Course_c =
  cc_id :: string
  cc_name :: string
  cc_faculty_id :: string
  total_seats :: int
  enrolled_count :: int
  enrolled_students :: "string list"

record Student_c =
  sc_id :: string
  sc_name :: string
  sc_active :: int
  enrolled_courses :: "string list"

record Faculty_c =
  fc_id :: string
  fc_name :: string

definition MAX_COURSES :: nat where "MAX_COURSES = 100"
definition MAX_USERS :: nat where "MAX_USERS = 100"
definition MAX_NAME :: nat where "MAX_NAME = 50"
definition MAX_PASS :: nat where "MAX_PASS = 50"
definition MAX_ID :: nat where "MAX_ID = 10"

definition ERR_NOT_FOUND :: int where "ERR_NOT_FOUND = -1"
definition ERR_FULL :: int where "ERR_FULL = -2"
definition ERR_ALREADY_ENROLLED :: int where "ERR_ALREADY_ENROLLED = -3"
definition ERR_NOT_ENROLLED :: int where "ERR_NOT_ENROLLED = -4"
definition ERR_INVALID_INPUT :: int where "ERR_INVALID_INPUT = -5"
definition ERR_COURSE_NOT_FOUND :: int where "ERR_COURSE_NOT_FOUND = -6"

lemmas c_limits = MAX_COURSES_def MAX_USERS_def MAX_NAME_def MAX_PASS_def MAX_ID_def
lemmas c_errors = ERR_NOT_FOUND_def ERR_FULL_def ERR_ALREADY_ENROLLED_def ERR_NOT_ENROLLED_def
  ERR_INVALID_INPUT_def ERR_COURSE_NOT_FOUND_def

section \<open>Validation\<close>

definition validate_id :: "string \<Rightarrow> int option" where
  "validate_id i = do {
     n \<leftarrow> strlen i;
     if n = 0 \<or> MAX_ID \<le> n then Some ERR_INVALID_INPUT
     else if \<not> list_all is_alnum (c_str i) then Some ERR_INVALID_INPUT
     else Some 0 }"

definition validate_name :: "string \<Rightarrow> int option" where
  "validate_name name = do {
     n \<leftarrow> strlen name;
     if n = 0 \<or> MAX_NAME \<le> n then Some ERR_INVALID_INPUT
     else if \<not> list_all (\<lambda>c. is_alpha c \<or> c = CHR '' '' \<or> c = CHR ''.'') (c_str name)
       then Some ERR_INVALID_INPUT
     else Some 0 }"

definition validate_password :: "string \<Rightarrow> int option" where
  "validate_password password = do {
     n \<leftarrow> strlen password;
     if n = 0 \<or> MAX_PASS \<le> n then Some ERR_INVALID_INPUT else Some 0 }"

definition validate_number :: "string \<Rightarrow> int \<Rightarrow> int \<Rightarrow> int option" where
  "validate_number input lo hi = do {
     n \<leftarrow> strlen input;
     if \<not> list_all is_digit (c_str input) then Some ERR_INVALID_INPUT
     else do {
       num \<leftarrow> atoi input;
       if num < lo \<or> num > hi then Some ERR_INVALID_INPUT else Some num } }"

section \<open>The files\<close>

record disk =
  users_dat :: "User_c list option"
  students_dat :: "Student_c list option"
  faculty_dat :: "Faculty_c list option"
  courses_dat :: "nat option"           \<comment> \<open>the file that the name refers to\<close>
  course_files :: "Course_c list list"
  can_create :: bool                    \<comment> \<open>the directory lets a file be created\<close>

text \<open>\<open>open("courses.dat", ...)\<close>, with or without \<open>O_CREAT\<close>: the descriptor, or none.\<close>

definition open_courses :: "bool \<Rightarrow> disk \<Rightarrow> nat option \<times> disk" where
  "open_courses creat d = (case courses_dat d of
       Some fd \<Rightarrow> (Some fd, d)
     | None \<Rightarrow>
         if creat \<and> can_create d
         then (Some (length (course_files d)),
               d\<lparr>courses_dat := Some (length (course_files d)), course_files := course_files d @ [[]]\<rparr>)
         else (None, d))"

definition read_courses :: "nat \<Rightarrow> disk \<Rightarrow> Course_c list" where
  "read_courses fd d = (if fd < length (course_files d) then course_files d ! fd else [])"

definition write_courses :: "nat \<Rightarrow> Course_c list \<Rightarrow> disk \<Rightarrow> disk" where
  "write_courses fd cs d = d\<lparr>course_files := (course_files d)[fd := cs]\<rparr>"

text \<open>The loop \<open>while (read(fd, &r, sizeof r) > 0) if (strcmp(...) == 0)\<close>: position and record.\<close>

fun scan :: "('r \<Rightarrow> bool option) \<Rightarrow> nat \<Rightarrow> 'r list \<Rightarrow> (nat \<times> 'r) option option" where
  "scan match pos [] = Some None"
| "scan match pos (r # rs) = do {
     b \<leftarrow> match r;
     if b then Some (Some (pos, r)) else scan match (Suc pos) rs }"

text \<open>The loop that changes the first matching record and writes it back in place.\<close>

definition rewrite_first :: "('r \<Rightarrow> bool option) \<Rightarrow> ('r \<Rightarrow> 'r option) \<Rightarrow> 'r list \<Rightarrow> (int \<times> 'r list) option" where
  "rewrite_first match f rs = do {
     found \<leftarrow> scan match 0 rs;
     case found of
       None \<Rightarrow> Some (-1, rs)
     | Some (pos, r) \<Rightarrow> do { r' \<leftarrow> f r; Some (0, rs[pos := r']) } }"

section \<open>Users, students and lecturers\<close>

definition add_user :: "string \<Rightarrow> string \<Rightarrow> Role_c \<Rightarrow> (disk, int) prog" where
  "add_user i password role = atomically (\<lambda>d.
     if users_dat d = None \<and> \<not> can_create d then Some (-1, d)
     else do {
       i' \<leftarrow> strncpy MAX_ID i;
       password' \<leftarrow> strncpy MAX_PASS password;
       Some (0, d\<lparr>users_dat := Some (case_option [] id (users_dat d) @
                   [\<lparr>uc_id = i', uc_role = role, uc_password = password'\<rparr>])\<rparr>) })"

definition zero_id :: string where "zero_id = replicate MAX_ID NUL"

definition add_student :: "string \<Rightarrow> string \<Rightarrow> (disk, int) prog" where
  "add_student i name = atomically (\<lambda>d.
     if students_dat d = None \<and> \<not> can_create d then Some (-1, d)
     else do {
       i' \<leftarrow> strncpy MAX_ID i;
       name' \<leftarrow> strncpy MAX_NAME name;
       Some (0, d\<lparr>students_dat := Some (case_option [] id (students_dat d) @
                   [\<lparr>sc_id = i', sc_name = name', sc_active = 1,
                     enrolled_courses = replicate MAX_COURSES zero_id\<rparr>])\<rparr>) })"

definition add_faculty :: "string \<Rightarrow> string \<Rightarrow> (disk, int) prog" where
  "add_faculty i name = atomically (\<lambda>d.
     if faculty_dat d = None \<and> \<not> can_create d then Some (-1, d)
     else do {
       i' \<leftarrow> strncpy MAX_ID i;
       name' \<leftarrow> strncpy MAX_NAME name;
       Some (0, d\<lparr>faculty_dat := Some (case_option [] id (faculty_dat d) @
                   [\<lparr>fc_id = i', fc_name = name'\<rparr>])\<rparr>) })"

definition change_student :: "string \<Rightarrow> (Student_c \<Rightarrow> Student_c option) \<Rightarrow> (disk, int) prog" where
  "change_student i f = atomically (\<lambda>d. case students_dat d of
       None \<Rightarrow> Some (-1, d)
     | Some ss \<Rightarrow> do {
         (ret, ss') \<leftarrow> rewrite_first (\<lambda>s. strcmp_eq (sc_id s) i) f ss;
         Some (ret, d\<lparr>students_dat := Some ss'\<rparr>) })"

definition activate_deactivate_student :: "string \<Rightarrow> int \<Rightarrow> (disk, int) prog" where
  "activate_deactivate_student i activate = change_student i (\<lambda>s. Some (s\<lparr>sc_active := activate\<rparr>))"

definition update_student :: "string \<Rightarrow> string \<Rightarrow> (disk, int) prog" where
  "update_student i new_name = change_student i (\<lambda>s. do {
     name \<leftarrow> strncpy MAX_NAME new_name; Some (s\<lparr>sc_name := name\<rparr>) })"

definition update_faculty :: "string \<Rightarrow> string \<Rightarrow> (disk, int) prog" where
  "update_faculty i new_name = atomically (\<lambda>d. case faculty_dat d of
       None \<Rightarrow> Some (-1, d)
     | Some fs \<Rightarrow> do {
         (ret, fs') \<leftarrow> rewrite_first (\<lambda>f. strcmp_eq (fc_id f) i) (\<lambda>f. do {
           name \<leftarrow> strncpy MAX_NAME new_name; Some (f\<lparr>fc_name := name\<rparr>) }) fs;
         Some (ret, d\<lparr>faculty_dat := Some fs'\<rparr>) })"

definition change_password :: "string \<Rightarrow> string \<Rightarrow> (disk, int) prog" where
  "change_password user_id new_password = atomically (\<lambda>d. case users_dat d of
       None \<Rightarrow> Some (-1, d)
     | Some us \<Rightarrow> do {
         (ret, us') \<leftarrow> rewrite_first (\<lambda>u. strcmp_eq (uc_id u) user_id) (\<lambda>u. do {
           password \<leftarrow> strncpy MAX_PASS new_password; Some (u\<lparr>uc_password := password\<rparr>) }) us;
         Some (ret, d\<lparr>users_dat := Some us'\<rparr>) })"

section \<open>Courses\<close>

text \<open>Open \<open>courses.dat\<close>, then wait for the semaphore and run the section.\<close>

definition with_courses :: "bool \<Rightarrow> 'a \<Rightarrow> (nat \<Rightarrow> disk \<Rightarrow> ((disk, 'a) prog \<times> disk) option) \<Rightarrow> (disk, 'a) prog" where
  "with_courses creat failure body = Step (\<lambda>d. Some (case open_courses creat d of
       (None, d') \<Rightarrow> (Done failure, d')
     | (Some fd, d') \<Rightarrow> (Step (body fd), d')))"

definition add_course_section ::
  "string \<Rightarrow> string \<Rightarrow> string \<Rightarrow> int \<Rightarrow> nat \<Rightarrow> disk \<Rightarrow> ((disk, int) prog \<times> disk) option" where
  "add_course_section i name faculty_id seats fd d = do {
     found \<leftarrow> scan (\<lambda>c. strcmp_eq (cc_id c) i) 0 (read_courses fd d);
     if found \<noteq> None then Some (Done (-1), d)
     else do {
       i' \<leftarrow> strncpy MAX_ID i;
       name' \<leftarrow> strncpy MAX_NAME name;
       faculty' \<leftarrow> strncpy MAX_ID faculty_id;
       Some (Done 0, write_courses fd (read_courses fd d @
         [\<lparr>cc_id = i', cc_name = name', cc_faculty_id = faculty', total_seats = seats,
           enrolled_count = 0, enrolled_students = replicate MAX_USERS zero_id\<rparr>]) d) } }"

definition add_course :: "string \<Rightarrow> string \<Rightarrow> string \<Rightarrow> int \<Rightarrow> (disk, int) prog" where
  "add_course i name faculty_id seats = with_courses True (-1) (add_course_section i name faculty_id seats)"

text \<open>
  \<open>for (i = new_seats; i < MAX_USERS; i++) memset(enrolled_students[i], 0, MAX_ID)\<close> writes in
  front of the array when \<open>new_seats\<close> is negative.
\<close>

definition shrink_course :: "int \<Rightarrow> Course_c \<Rightarrow> Course_c option" where
  "shrink_course new_seats c =
     (if enrolled_count c > new_seats
      then if new_seats < 0 then None
        else Some (c\<lparr>enrolled_count := new_seats,
               enrolled_students := take (nat new_seats) (enrolled_students c) @
                 replicate (length (enrolled_students c) - nat new_seats) zero_id\<rparr>)
      else Some c)"

definition update_course_section ::
  "string \<Rightarrow> string \<Rightarrow> int \<Rightarrow> nat \<Rightarrow> disk \<Rightarrow> ((disk, int) prog \<times> disk) option" where
  "update_course_section i new_name new_seats fd d = do {
     (ret, cs) \<leftarrow> rewrite_first (\<lambda>c. strcmp_eq (cc_id c) i) (\<lambda>c. do {
       name \<leftarrow> strncpy MAX_NAME new_name;
       shrink_course new_seats (c\<lparr>cc_name := name, total_seats := new_seats\<rparr>) }) (read_courses fd d);
     Some (Done ret, write_courses fd cs d) }"

definition update_course_c :: "string \<Rightarrow> string \<Rightarrow> int \<Rightarrow> (disk, int) prog" where
  "update_course_c i new_name new_seats =
     with_courses False (-1) (update_course_section i new_name new_seats)"

text \<open>The loop that copies the other records to the temporary file.\<close>

fun copy_others :: "('r \<Rightarrow> bool option) \<Rightarrow> 'r list \<Rightarrow> 'r list option" where
  "copy_others match [] = Some []"
| "copy_others match (r # rs) = do {
     b \<leftarrow> match r;
     rest \<leftarrow> copy_others match rs;
     Some (if b then rest else r # rest) }"

text \<open>The loop over the slots of a student that clears those that hold the course.\<close>

fun clear_slots :: "string \<Rightarrow> string list \<Rightarrow> string list option" where
  "clear_slots i [] = Some []"
| "clear_slots i (c # cs) = do {
     b \<leftarrow> strcmp_eq c i;
     rest \<leftarrow> clear_slots i cs;
     Some ((if b then zero_id else c) # rest) }"

fun clear_students :: "string \<Rightarrow> Student_c list \<Rightarrow> Student_c list option" where
  "clear_students i [] = Some []"
| "clear_students i (s # ss) = do {
     slots \<leftarrow> clear_slots i (enrolled_courses s);
     rest \<leftarrow> clear_students i ss;
     Some (s\<lparr>enrolled_courses := slots\<rparr> # rest) }"

text \<open>The second half of \<open>remove_course\<close>: open \<open>students.dat\<close>, wait again, clear the slots.\<close>

definition unenroll_all :: "string \<Rightarrow> int \<Rightarrow> (disk, int) prog" where
  "unenroll_all i ret = atomically (\<lambda>d. case students_dat d of
       None \<Rightarrow> Some (ret, d)
     | Some ss \<Rightarrow> do {
         ss' \<leftarrow> clear_students i ss;
         Some (ret, d\<lparr>students_dat := Some ss'\<rparr>) })"

definition remove_course_section :: "string \<Rightarrow> nat \<Rightarrow> disk \<Rightarrow> ((disk, int) prog \<times> disk) option" where
  "remove_course_section i fd d = do {
     found \<leftarrow> scan (\<lambda>c. strcmp_eq (cc_id c) i) 0 (read_courses fd d);
     if found = None then Some (unenroll_all i (-1), d)
     else if \<not> can_create d then Some (Done (-1), d)
     else do {
       others \<leftarrow> copy_others (\<lambda>c. strcmp_eq (cc_id c) i) (read_courses fd d);
       Some (unenroll_all i 0,
         d\<lparr>courses_dat := Some (length (course_files d)), course_files := course_files d @ [others]\<rparr>) } }"

definition remove_course_c :: "string \<Rightarrow> (disk, int) prog" where
  "remove_course_c i = with_courses False (-1) (remove_course_section i)"

section \<open>Enrolling\<close>

text \<open>The loop over a student's slots: is the course there, and which slot is free?\<close>

fun find_slot :: "string \<Rightarrow> nat \<Rightarrow> string list \<Rightarrow> nat option \<Rightarrow> (bool \<times> nat option) option" where
  "find_slot i k [] free = Some (False, free)"
| "find_slot i k (c # cs) free = do {
     b \<leftarrow> strcmp_eq c i;
     if b then Some (True, free)
     else find_slot i (Suc k) cs (if free = None \<and> c ! 0 = NUL then Some k else free) }"

text \<open>\<open>for (int i = 0; i < enrolled_count; i++) if (strcmp(enrolled_students[i], id) == 0)\<close>.\<close>

fun find_enrolled :: "string \<Rightarrow> nat \<Rightarrow> nat \<Rightarrow> string list \<Rightarrow> nat option option" where
  "find_enrolled i k 0 xs = Some None"
| "find_enrolled i k (Suc n) [] = None"
| "find_enrolled i k (Suc n) (x # xs) = do {
     b \<leftarrow> strcmp_eq x i;
     if b then Some (Some k) else find_enrolled i (Suc k) n xs }"

text \<open>\<open>xs[k] = v\<close> on an array.\<close>

definition store :: "int \<Rightarrow> 'a \<Rightarrow> 'a list \<Rightarrow> 'a list option" where
  "store k v xs = (if 0 \<le> k \<and> nat k < length xs then Some (xs[nat k := v]) else None)"

definition enroll_in_course :: "string \<Rightarrow> string \<Rightarrow> Course_c list \<Rightarrow> (int \<times> Course_c list) option" where
  "enroll_in_course student_id course_id cs = do {
     found \<leftarrow> scan (\<lambda>c. strcmp_eq (cc_id c) course_id) 0 cs;
     case found of
       None \<Rightarrow> Some (ERR_COURSE_NOT_FOUND, cs)
     | Some (cpos, c) \<Rightarrow>
         if enrolled_count c \<ge> total_seats c then Some (ERR_FULL, cs)
         else do {
           at \<leftarrow> find_enrolled student_id 0 (nat (enrolled_count c)) (enrolled_students c);
           if at \<noteq> None then Some (ERR_ALREADY_ENROLLED, cs)
           else do {
             sid \<leftarrow> strncpy MAX_ID student_id;
             students \<leftarrow> store (enrolled_count c) sid (enrolled_students c);
             Some (0, cs[cpos := c\<lparr>enrolled_students := students,
                                    enrolled_count := enrolled_count c + 1\<rparr>]) } } }"

definition enroll_section :: "string \<Rightarrow> string \<Rightarrow> disk \<Rightarrow> (int \<times> disk) option" where
  "enroll_section student_id course_id d = (case students_dat d of
       None \<Rightarrow> Some (-1, d)
     | Some ss \<Rightarrow> do {
         found \<leftarrow> scan (\<lambda>s. strcmp_eq (sc_id s) student_id) 0 ss;
         case found of
           None \<Rightarrow> Some (ERR_NOT_FOUND, d)
         | Some (spos, s) \<Rightarrow>
             if sc_active s = 0 then Some (ERR_INVALID_INPUT, d)
             else do {
               (already, slot) \<leftarrow> find_slot course_id 0 (enrolled_courses s) None;
               if already then Some (ERR_ALREADY_ENROLLED, d)
               else case slot of
                 None \<Rightarrow> Some (ERR_FULL, d)
               | Some k \<Rightarrow> (case courses_dat d of
                   None \<Rightarrow> Some (-1, d)
                 | Some cfd \<Rightarrow> do {
                     (ret, cs) \<leftarrow> enroll_in_course student_id course_id (read_courses cfd d);
                     if ret \<noteq> 0 then Some (ret, d)
                     else do {
                       cid \<leftarrow> strncpy MAX_ID course_id;
                       Some (0, write_courses cfd cs (d\<lparr>students_dat := Some (ss[spos :=
                         s\<lparr>enrolled_courses := (enrolled_courses s)[k := cid]\<rparr>])\<rparr>)) } }) } })"

definition enroll_course :: "string \<Rightarrow> string \<Rightarrow> (disk, int) prog" where
  "enroll_course student_id course_id = atomically (enroll_section student_id course_id)"

text \<open>The loop that moves the later students down by one.\<close>

fun shift_down :: "nat \<Rightarrow> nat \<Rightarrow> string list \<Rightarrow> string list option" where
  "shift_down j 0 xs = Some xs"
| "shift_down j (Suc n) xs = do {
     x \<leftarrow> (if Suc j < length xs then strncpy MAX_ID (xs ! Suc j) else None);
     shift_down (Suc j) n (xs[j := x]) }"

definition unenroll_in_course :: "string \<Rightarrow> Course_c \<Rightarrow> Course_c option" where
  "unenroll_in_course student_id c = do {
     at \<leftarrow> find_enrolled student_id 0 (nat (enrolled_count c)) (enrolled_students c);
     case at of
       None \<Rightarrow> Some c
     | Some i \<Rightarrow> do {
         students \<leftarrow> shift_down i (nat (enrolled_count c) - 1 - i) (enrolled_students c);
         Some (c\<lparr>enrolled_students := students, enrolled_count := enrolled_count c - 1\<rparr>) } }"

fun clear_first_slot :: "string \<Rightarrow> string list \<Rightarrow> (bool \<times> string list) option" where
  "clear_first_slot i [] = Some (False, [])"
| "clear_first_slot i (c # cs) = do {
     b \<leftarrow> strcmp_eq c i;
     if b then Some (True, zero_id # cs)
     else do { (found, rest) \<leftarrow> clear_first_slot i cs; Some (found, c # rest) } }"

definition unenroll_student :: "string \<Rightarrow> string \<Rightarrow> (disk, int) prog" where
  "unenroll_student student_id course_id = atomically (\<lambda>d. case students_dat d of
       None \<Rightarrow> Some (-1, d)
     | Some ss \<Rightarrow> do {
         found \<leftarrow> scan (\<lambda>s. strcmp_eq (sc_id s) student_id) 0 ss;
         case found of
           None \<Rightarrow> Some (-1, d)
         | Some (pos, s) \<Rightarrow> do {
             (cleared, slots) \<leftarrow> clear_first_slot course_id (enrolled_courses s);
             if cleared then Some (0, d\<lparr>students_dat := Some (ss[pos := s\<lparr>enrolled_courses := slots\<rparr>])\<rparr>)
             else Some (ERR_NOT_ENROLLED, d) } })"

definition unenroll_section :: "string \<Rightarrow> string \<Rightarrow> nat \<Rightarrow> disk \<Rightarrow> ((disk, int) prog \<times> disk) option" where
  "unenroll_section student_id course_id fd d = do {
     (ret, cs) \<leftarrow> rewrite_first (\<lambda>c. strcmp_eq (cc_id c) course_id)
       (unenroll_in_course student_id) (read_courses fd d);
     Some (unenroll_student student_id course_id, write_courses fd cs d) }"

definition unenroll_course :: "string \<Rightarrow> string \<Rightarrow> (disk, int) prog" where
  "unenroll_course student_id course_id = with_courses False (-1) (unenroll_section student_id course_id)"

section \<open>First start\<close>

text \<open>A string literal of C.\<close>

definition literal :: "string \<Rightarrow> string" where "literal s = s @ [NUL]"

definition initial_setup :: "(disk, unit) prog" where
  "initial_setup = Step (\<lambda>d. Some (
     if case_option False (\<lambda>us. us \<noteq> []) (users_dat d) then Done ()
     else andthen (add_user (literal ''admin1'') (literal ''adminpass'') ADMIN) (\<lambda>admin.
       if admin \<noteq> 0 then Done ()
       else andthen (andthen (add_user (literal ''s1'') (literal ''pass1'') STUDENT) (\<lambda>r.
              if r = 0 then add_student (literal ''s1'') (literal ''John'') else Done r)) (\<lambda>_.
            andthen (andthen (add_user (literal ''f1'') (literal ''pass2'') FACULTY) (\<lambda>r.
              if r = 0 then add_faculty (literal ''f1'') (literal ''Dr. Smith'') else Done r)) (\<lambda>_.
            Done ()))), d))"

end
