(* ===== verification/Legacy_Views.thy ===== *)
theory Legacy_Views
  imports Legacy_Store
begin

text \<open>
  The \<open>view\<close> functions of \<^verbatim>\<open>academia/file_ops.c\<close>: each reads one file and builds a text in a
  heap buffer that it enlarges before every \<open>strcat\<close>. The result is the text, \<open>None\<close> for the
  NULL pointer; \<open>alloc\<close> is the allocator. That no \<open>strcat\<close> overruns its buffer is proved at the
  end, together with what the texts are.
\<close>

text \<open>
  The loop that appends a line for every record it selects: \<open>line n r\<close> is the text that the
  \<open>n\<close>-th line would have, or none if the record is passed over.
\<close>

fun view_loop :: "(nat \<Rightarrow> bool) \<Rightarrow> (int \<Rightarrow> 'r \<Rightarrow> string option option) \<Rightarrow> int \<Rightarrow> cbuf \<Rightarrow> 'r list
    \<Rightarrow> (int \<times> cbuf) option option" where
  "view_loop alloc line n b [] = Some (Some (n, b))"
| "view_loop alloc line n b (r # rs) = do {
     l \<leftarrow> line n r;
     case l of
       None \<Rightarrow> view_loop alloc line n b rs
     | Some info \<Rightarrow> do {
         b' \<leftarrow> append_text alloc b info;
         case b' of None \<Rightarrow> Some None | Some b' \<Rightarrow> view_loop alloc line (n + 1) b' rs } }"

text \<open>The loop followed by the line for an empty list.\<close>

definition view_listing :: "(nat \<Rightarrow> bool) \<Rightarrow> (int \<Rightarrow> 'r \<Rightarrow> string option option) \<Rightarrow> string \<Rightarrow> cbuf \<Rightarrow> 'r list
    \<Rightarrow> cbuf option option" where
  "view_listing alloc line none_text b rs = do {
     r \<leftarrow> view_loop alloc line 1 b rs;
     case r of
       None \<Rightarrow> Some None
     | Some (n, b') \<Rightarrow> if n = 1 then append_text alloc b' none_text else Some (Some b') }"

definition ln :: "string \<Rightarrow> string" where "ln s = s @ [CHR 0x0A]"

definition course_line :: "int \<Rightarrow> Course_c \<Rightarrow> string option option" where
  "course_line n c = do {
     i \<leftarrow> text_of (cc_id c); name \<leftarrow> text_of (cc_name c); fac \<leftarrow> text_of (cc_faculty_id c);
     Some (Some (snprintf 200 (ln (to_string n @ ''. ID: '' @ i @ '', Name: '' @ name @ '', Faculty ID: '' @ fac @
       '', Seats: '' @ to_string (total_seats c) @ '', Enrolled: '' @ to_string (enrolled_count c))))) }"

definition faculty_course_line :: "string \<Rightarrow> int \<Rightarrow> Course_c \<Rightarrow> string option option" where
  "faculty_course_line faculty_id n c = do {
     mine \<leftarrow> strcmp_eq (cc_faculty_id c) faculty_id;
     if \<not> mine then Some None
     else do {
       i \<leftarrow> text_of (cc_id c); name \<leftarrow> text_of (cc_name c);
       Some (Some (snprintf 200 (ln (to_string n @ ''. ID: '' @ i @ '', Name: '' @ name @
         '', Seats: '' @ to_string (total_seats c) @ '', Enrolled: '' @ to_string (enrolled_count c))))) } }"

definition student_line :: "int \<Rightarrow> Student_c \<Rightarrow> string option option" where
  "student_line n s = do {
     i \<leftarrow> text_of (sc_id s); name \<leftarrow> text_of (sc_name s);
     Some (Some (snprintf 200 (ln (to_string n @ ''. ID: '' @ i @ '', Name: '' @ name @
       '', Status: '' @ (if sc_active s \<noteq> 0 then ''Active'' else ''Blocked''))))) }"

definition faculty_line :: "int \<Rightarrow> Faculty_c \<Rightarrow> string option option" where
  "faculty_line n f = do {
     i \<leftarrow> text_of (fc_id f); name \<leftarrow> text_of (fc_name f);
     Some (Some (snprintf 200 (ln (to_string n @ ''. ID: '' @ i @ '', Name: '' @ name)))) }"

text \<open>A slot of a student's record, or of a course's.\<close>

definition slot_line :: "int \<Rightarrow> string \<Rightarrow> string option option" where
  "slot_line n c = (if c ! 0 = NUL then Some None
     else do { t \<leftarrow> text_of c; Some (Some (snprintf 100 (ln (to_string n @ ''. '' @ t)))) })"

definition enrollment_line :: "int \<Rightarrow> string \<Rightarrow> string option option" where
  "enrollment_line n x = do { t \<leftarrow> text_of x; Some (Some (snprintf 100 (ln (to_string n @ ''. '' @ t)))) }"

text \<open>The frame of all of them: open, wait, allocate 2048 bytes, print the heading.\<close>

definition view :: "(nat \<Rightarrow> bool) \<Rightarrow> string option \<Rightarrow> (cbuf \<Rightarrow> cbuf option option) \<Rightarrow> string option option" where
  "view alloc heading body = (if \<not> alloc 2048 then Some None
     else do {
       h \<leftarrow> heading;
       r \<leftarrow> body \<lparr>cb_text = snprintf 2048 h, cb_size = 2048\<rparr>;
       Some (map_option cb_text r) })"

definition view_courses_file ::
  "(Course_c list \<Rightarrow> string option option) \<Rightarrow> (disk, string option) prog" where
  "view_courses_file body = with_courses False None (\<lambda>fd d. do {
     r \<leftarrow> body (read_courses fd d); Some (Done r, d) })"

definition view_all_courses :: "(nat \<Rightarrow> bool) \<Rightarrow> (disk, string option) prog" where
  "view_all_courses alloc = view_courses_file (\<lambda>cs. view alloc (Some (ln ''All Available Courses:''))
     (\<lambda>b. view_listing alloc course_line (ln ''No courses available.'') b cs))"

definition view_faculty_courses :: "(nat \<Rightarrow> bool) \<Rightarrow> string \<Rightarrow> (disk, string option) prog" where
  "view_faculty_courses alloc faculty_id = view_courses_file (\<lambda>cs. view alloc
     (map_option (\<lambda>i. ln (''Courses Offered by Faculty '' @ i @ '':'')) (text_of faculty_id))
     (\<lambda>b. view_listing alloc (faculty_course_line faculty_id) (ln ''No courses offered.'') b cs))"

definition enrollments_heading :: "string \<Rightarrow> string" where
  "enrollments_heading i = ln (''Enrollments for Course '' @ i @ '':'')"

definition enrollments_in :: "(nat \<Rightarrow> bool) \<Rightarrow> string \<Rightarrow> Course_c list \<Rightarrow> cbuf \<Rightarrow> cbuf option option" where
  "enrollments_in alloc course_id cs b = do {
     found \<leftarrow> scan (\<lambda>c. strcmp_eq (cc_id c) course_id) 0 cs;
     case found of
       None \<Rightarrow> replace_text alloc b (ln ''Course not found'')
     | Some (_, c) \<Rightarrow>
         if nat (enrolled_count c) \<le> length (enrolled_students c)
         then view_listing alloc enrollment_line (ln ''No students enrolled.'') b
                (take (nat (enrolled_count c)) (enrolled_students c))
         else None }"

definition view_course_enrollments :: "(nat \<Rightarrow> bool) \<Rightarrow> string \<Rightarrow> (disk, string option) prog" where
  "view_course_enrollments alloc course_id = view_courses_file (\<lambda>cs. view alloc
     (map_option enrollments_heading (text_of course_id)) (enrollments_in alloc course_id cs))"

definition view_enrolled_courses :: "(nat \<Rightarrow> bool) \<Rightarrow> string \<Rightarrow> (disk, string option) prog" where
  "view_enrolled_courses alloc student_id = atomically (\<lambda>d. case students_dat d of
       None \<Rightarrow> Some (None, d)
     | Some ss \<Rightarrow> do {
         r \<leftarrow> view alloc (Some (ln ''Enrolled Courses:'')) (\<lambda>b. do {
           found \<leftarrow> scan (\<lambda>s. strcmp_eq (sc_id s) student_id) 0 ss;
           case found of
             None \<Rightarrow> replace_text alloc b (ln ''Student not found'')
           | Some (_, s) \<Rightarrow>
               view_listing alloc slot_line (ln ''No courses enrolled.'') b (enrolled_courses s) });
         Some (r, d) })"

definition view_all_students :: "(nat \<Rightarrow> bool) \<Rightarrow> (disk, string option) prog" where
  "view_all_students alloc = atomically (\<lambda>d. case students_dat d of
       None \<Rightarrow> Some (None, d)
     | Some ss \<Rightarrow> do {
         r \<leftarrow> view alloc (Some (ln ''All Students:''))
           (\<lambda>b. view_listing alloc student_line (ln ''No students available.'') b ss);
         Some (r, d) })"

definition view_all_faculty :: "(nat \<Rightarrow> bool) \<Rightarrow> (disk, string option) prog" where
  "view_all_faculty alloc = atomically (\<lambda>d. case faculty_dat d of
       None \<Rightarrow> Some (None, d)
     | Some fs \<Rightarrow> do {
         r \<leftarrow> view alloc (Some (ln ''All Faculty:''))
           (\<lambda>b. view_listing alloc faculty_line (ln ''No faculty available.'') b fs);
         Some (r, d) })"

section \<open>What the listings are\<close>

text \<open>The lines of the selected records, numbered from \<open>n\<close>.\<close>

fun listing :: "(int \<Rightarrow> 'r \<Rightarrow> string option option) \<Rightarrow> int \<Rightarrow> 'r list \<Rightarrow> string list option" where
  "listing line n [] = Some []"
| "listing line n (r # rs) = do {
     l \<leftarrow> line n r;
     case l of
       None \<Rightarrow> listing line n rs
     | Some info \<Rightarrow> map_option ((#) info) (listing line (n + 1) rs) }"

lemma view_loop_listing:
  assumes "listing line n rs = Some ls"
  shows "view_loop alloc line n b rs = Some None \<or>
    (\<exists>size. view_loop alloc line n b rs =
       Some (Some (n + int (length ls), \<lparr>cb_text = cb_text b @ concat ls, cb_size = size\<rparr>)))"
  using assms
proof (induction rs arbitrary: n b ls)
  case Nil
  then show ?case by (cases b) simp
next
  case (Cons r rs)
  from Cons.prems obtain l where l: "line n r = Some l"
    and ls: "(case l of None \<Rightarrow> listing line n rs
      | Some info \<Rightarrow> map_option ((#) info) (listing line (n + 1) rs)) = Some ls"
    by (auto simp: bind_eq_Some_conv)
  show ?case
  proof (cases l)
    case None
    then show ?thesis using Cons.IH [of n ls b] ls l by simp
  next
    case (Some info)
    with ls obtain ls' where ls': "listing line (n + 1) rs = Some ls'" "ls = info # ls'" by auto
    consider "append_text alloc b info = Some None"
      | size where "append_text alloc b info = Some (Some \<lparr>cb_text = cb_text b @ info, cb_size = size\<rparr>)"
      using append_text_ok by blast
    then show ?thesis
    proof cases
      case 2
      then show ?thesis using Cons.IH [OF ls'(1)] l Some ls'(2)
        by (fastforce simp: add.assoc)
    qed (simp add: l Some)
  qed
qed

lemma view_loop_allocated:
  assumes "\<And>k. alloc k" "listing line n rs = Some ls"
  shows "view_loop alloc line n b rs \<noteq> Some None"
  using assms(2)
proof (induction rs arbitrary: n b ls)
  case (Cons r rs)
  from Cons.prems obtain l where l: "line n r = Some l"
    and ls: "(case l of None \<Rightarrow> listing line n rs
      | Some info \<Rightarrow> map_option ((#) info) (listing line (n + 1) rs)) = Some ls"
    by (auto simp: bind_eq_Some_conv)
  show ?case
  proof (cases l)
    case None
    then show ?thesis using Cons.IH [of n ls b] ls l by simp
  next
    case (Some info)
    obtain size where "append_text alloc b info = Some (Some \<lparr>cb_text = cb_text b @ info, cb_size = size\<rparr>)"
      using append_text_allocated [of alloc b info] assms(1) by blast
    then show ?thesis using Cons.IH ls l Some by auto
  qed
qed simp

definition listing_text :: "string \<Rightarrow> string list \<Rightarrow> string" where
  "listing_text none_text ls = (if ls = [] then none_text else concat ls)"

lemma view_listing_text:
  assumes "listing line 1 rs = Some ls"
  shows "view_listing alloc line none_text b rs = Some None \<or>
    (\<exists>size. view_listing alloc line none_text b rs =
       Some (Some \<lparr>cb_text = cb_text b @ listing_text none_text ls, cb_size = size\<rparr>))"
proof -
  consider "view_loop alloc line 1 b rs = Some None"
    | size where "view_loop alloc line 1 b rs =
       Some (Some (1 + int (length ls), \<lparr>cb_text = cb_text b @ concat ls, cb_size = size\<rparr>))"
    using view_loop_listing [OF assms] by blast
  then show ?thesis
  proof cases
    case 2
    then have "view_listing alloc line none_text b rs = (if ls = []
        then append_text alloc \<lparr>cb_text = cb_text b @ concat ls, cb_size = size\<rparr> none_text
        else Some (Some \<lparr>cb_text = cb_text b @ concat ls, cb_size = size\<rparr>))"
      by (simp add: view_listing_def)
    then show ?thesis
      using append_text_ok [of alloc "\<lparr>cb_text = cb_text b @ concat ls, cb_size = size\<rparr>" none_text]
      by (cases "ls = []") (simp_all add: listing_text_def)
  qed (simp add: view_listing_def)
qed

lemma view_listing_allocated:
  assumes "\<And>k. alloc k" "listing line 1 rs = Some ls"
  shows "\<exists>size. view_listing alloc line none_text b rs =
       Some (Some \<lparr>cb_text = cb_text b @ listing_text none_text ls, cb_size = size\<rparr>)"
proof -
  have "view_listing alloc line none_text b rs \<noteq> Some None"
  proof -
    obtain size where "view_loop alloc line 1 b rs =
       Some (Some (1 + int (length ls), \<lparr>cb_text = cb_text b @ concat ls, cb_size = size\<rparr>))"
      using view_loop_listing [OF assms(2), of alloc b] view_loop_allocated [of alloc line 1 rs ls b] assms
      by auto
    then have "view_listing alloc line none_text b rs = (if ls = []
        then append_text alloc \<lparr>cb_text = cb_text b @ concat ls, cb_size = size\<rparr> none_text
        else Some (Some \<lparr>cb_text = cb_text b @ concat ls, cb_size = size\<rparr>))"
      by (simp add: view_listing_def)
    then show ?thesis
      using append_text_allocated [of alloc "\<lparr>cb_text = cb_text b @ concat ls, cb_size = size\<rparr>" none_text]
        assms(1) by (cases "ls = []") auto
  qed
  then show ?thesis using view_listing_text [OF assms(2), of alloc none_text b] by auto
qed

end
