(* ===== verification/Legacy_Invariant.thy ===== *)
theory Legacy_Invariant
  imports Legacy_Store
begin

text \<open>
  Well-formed files of the older program: every text field is terminated and no course has more
  students than seats, nor more seats than its array has places. On such files every function,
  called with texts that fit their fields and at most 100 seats, has a defined behaviour in each
  of its sections and keeps them well-formed, so any number of threads can run together.
\<close>

section \<open>Scanning loops\<close>

fun first_index :: "('r \<Rightarrow> bool) \<Rightarrow> 'r list \<Rightarrow> nat option" where
  "first_index P [] = None"
| "first_index P (r # rs) = (if P r then Some 0 else map_option Suc (first_index P rs))"

lemma first_index_Some:
  "first_index P rs = Some k \<Longrightarrow> k < length rs \<and> P (rs ! k) \<and> (\<forall>j < k. \<not> P (rs ! j))"
proof (induction rs arbitrary: k)
  case (Cons r rs)
  show ?case
  proof (cases "P r")
    case False
    with Cons.prems obtain m where m: "first_index P rs = Some m" "k = Suc m" by auto
    from Cons.IH [OF m(1)] False show ?thesis by (auto simp: m(2) less_Suc_eq_0_disj)
  qed (use Cons.prems in auto)
qed simp

lemma first_index_None: "first_index P rs = None \<longleftrightarrow> (\<forall>r \<in> set rs. \<not> P r)"
  by (induction rs) auto

lemma scan_total:
  "(\<And>r. r \<in> set rs \<Longrightarrow> match r = Some (P r)) \<Longrightarrow>
    scan match pos rs = Some (map_option (\<lambda>k. (pos + k, rs ! k)) (first_index P rs))"
proof (induction rs arbitrary: pos)
  case (Cons r rs)
  have "scan match (Suc pos) rs = Some (map_option (\<lambda>k. (Suc pos + k, rs ! k)) (first_index P rs))"
    using Cons by simp
  then show ?case using Cons.prems
    by (cases "P r") (simp_all add: option.map_comp comp_def)
qed simp

lemma rewrite_first_total:
  assumes "\<And>r. r \<in> set rs \<Longrightarrow> match r = Some (P r)" "\<And>r. r \<in> set rs \<Longrightarrow> P r \<Longrightarrow> f r = Some (g r)"
  shows "rewrite_first match f rs = Some (case first_index P rs of
    None \<Rightarrow> (-1, rs) | Some k \<Rightarrow> (0, rs[k := g (rs ! k)]))"
proof (cases "first_index P rs")
  case (Some k)
  then have "k < length rs" "P (rs ! k)" using first_index_Some by fast+
  then show ?thesis using assms Some
    by (simp add: rewrite_first_def scan_total [where P = P])
qed (use assms in \<open>simp add: rewrite_first_def scan_total [where P = P]\<close>)

lemma rewrite_first_list_all:
  assumes "list_all Q rs" "\<And>r. Q r \<Longrightarrow> match r = Some (P r)" "\<And>r. Q r \<Longrightarrow> \<exists>r'. f r = Some r' \<and> Q r'"
  shows "\<exists>ret rs'. rewrite_first match f rs = Some (ret, rs') \<and> list_all Q rs' \<and> (ret = 0 \<or> ret = - 1)"
proof -
  have "\<forall>r. \<exists>r'. Q r \<longrightarrow> f r = Some r' \<and> Q r'" using assms(3) by blast
  then obtain g where g: "\<And>r. Q r \<Longrightarrow> f r = Some (g r) \<and> Q (g r)" by metis
  have Q: "\<And>r. r \<in> set rs \<Longrightarrow> Q r" using assms(1) by (simp add: list_all_iff)
  then have r: "rewrite_first match f rs = Some (case first_index P rs of
    None \<Rightarrow> (-1, rs) | Some k \<Rightarrow> (0, rs[k := g (rs ! k)]))"
    using assms(2) g by (intro rewrite_first_total) auto
  show ?thesis
  proof (cases "first_index P rs")
    case (Some k)
    then have "k < length rs" using first_index_Some by fast
    then have "Q (g (rs ! k))" using Q g nth_mem by blast
    then show ?thesis using r Some assms(1) by (simp add: list_all_update)
  qed (use r assms(1) in simp)
qed

lemma copy_others_total:
  "(\<And>r. r \<in> set rs \<Longrightarrow> match r = Some (P r)) \<Longrightarrow> copy_others match rs = Some (filter (\<lambda>r. \<not> P r) rs)"
  by (induction rs) auto

section \<open>Well-formed files\<close>

definition user_ok :: "User_c \<Rightarrow> bool" where
  "user_ok u \<longleftrightarrow> field MAX_ID (uc_id u) \<and> field MAX_PASS (uc_password u)"

definition faculty_ok :: "Faculty_c \<Rightarrow> bool" where
  "faculty_ok f \<longleftrightarrow> field MAX_ID (fc_id f) \<and> field MAX_NAME (fc_name f)"

definition student_ok :: "Student_c \<Rightarrow> bool" where
  "student_ok s \<longleftrightarrow> field MAX_ID (sc_id s) \<and> field MAX_NAME (sc_name s) \<and>
     length (enrolled_courses s) = MAX_COURSES \<and> list_all (field MAX_ID) (enrolled_courses s)"

definition course_ok :: "Course_c \<Rightarrow> bool" where
  "course_ok c \<longleftrightarrow> field MAX_ID (cc_id c) \<and> field MAX_NAME (cc_name c) \<and> field MAX_ID (cc_faculty_id c) \<and>
     length (enrolled_students c) = MAX_USERS \<and> list_all (field MAX_ID) (enrolled_students c) \<and>
     0 \<le> enrolled_count c \<and> enrolled_count c \<le> max 0 (total_seats c) \<and> total_seats c \<le> int MAX_USERS"

definition disk_ok :: "disk \<Rightarrow> bool" where
  "disk_ok d \<longleftrightarrow> pred_option (list_all user_ok) (users_dat d) \<and>
     pred_option (list_all student_ok) (students_dat d) \<and>
     pred_option (list_all faculty_ok) (faculty_dat d) \<and>
     list_all (list_all course_ok) (course_files d) \<and>
     pred_option (\<lambda>fd. fd < length (course_files d)) (courses_dat d)"

lemma id_limits [simp]: "0 < MAX_ID" "0 < MAX_NAME" "0 < MAX_PASS"
  by (simp_all add: c_limits)

lemma zero_id_ok [simp]: "field MAX_ID zero_id" "c_str zero_id = []"
  by (simp_all add: zero_id_def)

lemma strcmp_field:
  "field n a \<Longrightarrow> fits m b \<Longrightarrow> strcmp_eq a b = Some (c_str a = c_str b)"
  by (simp add: strcmp_eq_terminated field_terminated fits_terminated)

lemma list_all_take: "list_all P xs \<Longrightarrow> list_all P (take n xs)"
  by (auto simp: list_all_iff dest: in_set_takeD)

lemma disk_ok_courses:
  "disk_ok d \<Longrightarrow> list_all course_ok (read_courses fd d)"
  by (auto simp: disk_ok_def read_courses_def list_all_length)

lemma write_courses_ok:
  "disk_ok d \<Longrightarrow> list_all course_ok cs \<Longrightarrow> disk_ok (write_courses fd cs d)"
  by (auto simp: disk_ok_def write_courses_def list_all_update)

lemma disk_ok_users [intro]: "disk_ok d \<Longrightarrow> list_all user_ok us \<Longrightarrow> disk_ok (d\<lparr>users_dat := Some us\<rparr>)"
  by (simp add: disk_ok_def)

lemma disk_ok_students [intro]: "disk_ok d \<Longrightarrow> list_all student_ok ss \<Longrightarrow> disk_ok (d\<lparr>students_dat := Some ss\<rparr>)"
  by (simp add: disk_ok_def)

lemma disk_ok_faculty [intro]: "disk_ok d \<Longrightarrow> list_all faculty_ok fs \<Longrightarrow> disk_ok (d\<lparr>faculty_dat := Some fs\<rparr>)"
  by (simp add: disk_ok_def)

lemma open_courses_ok: "disk_ok d \<Longrightarrow> disk_ok (snd (open_courses creat d))"
  by (auto simp: disk_ok_def open_courses_def split: option.split)

section \<open>Every section is defined and keeps the files well-formed\<close>

lemma keeps_atomically:
  "(\<And>d. I d \<Longrightarrow> \<exists>r d'. f d = Some (r, d') \<and> I d') \<Longrightarrow> keeps_inv I (atomically f)"
  unfolding atomically_def keeps_inv_simps by fastforce

lemma keeps_with_courses:
  assumes "\<And>fd d. disk_ok d \<Longrightarrow> \<exists>p d'. body fd d = Some (p, d') \<and> disk_ok d' \<and> keeps_inv disk_ok p"
  shows "keeps_inv disk_ok (with_courses creat failure body)"
proof -
  have "\<exists>p s'. (case open_courses creat d of (None, d') \<Rightarrow> (Done failure, d')
      | (Some fd, d') \<Rightarrow> (Step (body fd), d')) = (p, s') \<and> disk_ok s' \<and> keeps_inv disk_ok p"
    if "disk_ok d" for d
    using open_courses_ok [OF that, of creat] assms
    by (cases "open_courses creat d"; cases "fst (open_courses creat d)") auto
  then show ?thesis by (simp add: with_courses_def)
qed

lemma add_user_keeps: "fits MAX_ID i \<Longrightarrow> fits MAX_PASS password \<Longrightarrow> keeps_inv disk_ok (add_user i password role)"
  unfolding add_user_def
  by (rule keeps_atomically) (auto simp: disk_ok_def user_ok_def split: option.split)

lemma new_student_ok: "fits MAX_ID i \<Longrightarrow> fits MAX_NAME name \<Longrightarrow>
    student_ok \<lparr>sc_id = c_field MAX_ID i, sc_name = c_field MAX_NAME name, sc_active = 1,
       enrolled_courses = replicate MAX_COURSES zero_id\<rparr>"
  by (simp add: student_ok_def list_all_iff)

lemma add_student_keeps: "fits MAX_ID i \<Longrightarrow> fits MAX_NAME name \<Longrightarrow> keeps_inv disk_ok (add_student i name)"
  unfolding add_student_def
  by (rule keeps_atomically) (auto simp: disk_ok_def new_student_ok split: option.split)

lemma add_faculty_keeps: "fits MAX_ID i \<Longrightarrow> fits MAX_NAME name \<Longrightarrow> keeps_inv disk_ok (add_faculty i name)"
  unfolding add_faculty_def
  by (rule keeps_atomically) (auto simp: disk_ok_def faculty_ok_def split: option.split)

lemma student_match:
  "fits MAX_ID i \<Longrightarrow> student_ok s \<Longrightarrow> strcmp_eq (sc_id s) i = Some (c_str (sc_id s) = c_str i)"
  by (rule strcmp_field) (auto simp: student_ok_def)

lemma course_match:
  "fits MAX_ID i \<Longrightarrow> course_ok c \<Longrightarrow> strcmp_eq (cc_id c) i = Some (c_str (cc_id c) = c_str i)"
  by (rule strcmp_field) (auto simp: course_ok_def)

text \<open>The functions that rewrite one record of a file.\<close>

lemma keeps_rewrite:
  assumes "\<And>r. Q r \<Longrightarrow> match r = Some (P r)" "\<And>r. Q r \<Longrightarrow> \<exists>r'. f r = Some r' \<and> Q r'"
    and sel: "\<And>d rs. disk_ok d \<Longrightarrow> sel d = Some rs \<Longrightarrow> list_all Q rs"
    and put: "\<And>d rs. disk_ok d \<Longrightarrow> list_all Q rs \<Longrightarrow> disk_ok (put rs d)"
  shows "keeps_inv disk_ok (atomically (\<lambda>d. case sel d of None \<Rightarrow> Some (- 1, d)
    | Some rs \<Rightarrow> rewrite_first match f rs \<bind> (\<lambda>(ret, rs'). Some (ret, put rs' d))))"
proof (rule keeps_atomically)
  fix d assume d: "disk_ok d"
  show "\<exists>r d'. (case sel d of None \<Rightarrow> Some (- 1, d)
    | Some rs \<Rightarrow> rewrite_first match f rs \<bind> (\<lambda>(ret, rs'). Some (ret, put rs' d))) = Some (r, d') \<and> disk_ok d'"
  proof (cases "sel d")
    case (Some rs)
    obtain ret rs' where "rewrite_first match f rs = Some (ret, rs')" "list_all Q rs'"
      using rewrite_first_list_all [of Q rs match P f] sel [OF d Some] assms(1,2) by blast
    then show ?thesis using d Some put by simp
  qed (use d in simp)
qed

lemma change_student_keeps:
  assumes "fits MAX_ID i" "\<And>s. student_ok s \<Longrightarrow> \<exists>s'. f s = Some s' \<and> student_ok s'"
  shows "keeps_inv disk_ok (change_student i f)"
  unfolding change_student_def
  by (rule keeps_rewrite [where Q = student_ok])
    (use assms in \<open>auto intro: student_match simp: disk_ok_def\<close>)

lemma activate_deactivate_student_keeps:
  "fits MAX_ID i \<Longrightarrow> keeps_inv disk_ok (activate_deactivate_student i activate)"
  unfolding activate_deactivate_student_def
  by (erule change_student_keeps) (simp add: student_ok_def)

lemma update_student_keeps:
  "fits MAX_ID i \<Longrightarrow> fits MAX_NAME name \<Longrightarrow> keeps_inv disk_ok (update_student i name)"
  unfolding update_student_def
  by (erule change_student_keeps) (simp add: student_ok_def)

lemma update_faculty_keeps:
  "fits MAX_ID i \<Longrightarrow> fits MAX_NAME name \<Longrightarrow> keeps_inv disk_ok (update_faculty i name)"
  unfolding update_faculty_def
  by (rule keeps_rewrite [where Q = faculty_ok])
    (auto intro!: strcmp_field simp: disk_ok_def faculty_ok_def)

lemma change_password_keeps:
  "fits MAX_ID i \<Longrightarrow> fits MAX_PASS password \<Longrightarrow> keeps_inv disk_ok (change_password i password)"
  unfolding change_password_def
  by (rule keeps_rewrite [where Q = user_ok])
    (auto intro!: strcmp_field simp: disk_ok_def user_ok_def)

section \<open>Courses\<close>

lemma new_course_ok:
  "fits MAX_ID i \<Longrightarrow> fits MAX_NAME name \<Longrightarrow> fits MAX_ID fac \<Longrightarrow> seats \<le> int MAX_USERS \<Longrightarrow>
    course_ok \<lparr>cc_id = c_field MAX_ID i, cc_name = c_field MAX_NAME name, cc_faculty_id = c_field MAX_ID fac,
      total_seats = seats, enrolled_count = 0, enrolled_students = replicate MAX_USERS zero_id\<rparr>"
  by (simp add: course_ok_def list_all_iff)

lemma scan_ok:
  assumes "list_all Q rs" "\<And>r. Q r \<Longrightarrow> match r = Some (P r)"
  shows "scan match 0 rs = Some (map_option (\<lambda>k. (k, rs ! k)) (first_index P rs))"
  using scan_total [of rs match P 0] assms by (simp add: list_all_iff)

lemma add_course_keeps:
  assumes "fits MAX_ID i" "fits MAX_NAME name" "fits MAX_ID fac" "seats \<le> int MAX_USERS"
  shows "keeps_inv disk_ok (add_course i name fac seats)"
  unfolding add_course_def
proof (rule keeps_with_courses)
  fix fd d assume d: "disk_ok d"
  let ?cs = "read_courses fd d"
  have cs: "list_all course_ok ?cs" using d by (rule disk_ok_courses)
  have "disk_ok (write_courses fd (?cs @ [\<lparr>cc_id = c_field MAX_ID i, cc_name = c_field MAX_NAME name,
      cc_faculty_id = c_field MAX_ID fac, total_seats = seats, enrolled_count = 0,
      enrolled_students = replicate MAX_USERS zero_id\<rparr>]) d)"
    using d by (rule write_courses_ok) (simp add: cs new_course_ok assms)
  then show "\<exists>p d'. add_course_section i name fac seats fd d = Some (p, d') \<and> disk_ok d' \<and> keeps_inv disk_ok p"
    using d by (auto simp: add_course_section_def scan_ok [OF cs course_match [OF assms(1)]] assms)
qed

lemma shrink_course_ok:
  assumes "course_ok c" "0 \<le> seats" "seats \<le> int MAX_USERS" "field MAX_NAME name"
  shows "\<exists>c'. shrink_course seats (c\<lparr>cc_name := name, total_seats := seats\<rparr>) = Some c' \<and> course_ok c'"
  using assms by (auto simp: shrink_course_def course_ok_def list_all_take list_all_iff dest: in_set_takeD)

lemma update_course_keeps:
  assumes "fits MAX_ID i" "fits MAX_NAME name" "0 \<le> seats" "seats \<le> int MAX_USERS"
  shows "keeps_inv disk_ok (update_course_c i name seats)"
  unfolding update_course_c_def
proof (rule keeps_with_courses)
  fix fd d assume d: "disk_ok d"
  let ?f = "\<lambda>c. strncpy MAX_NAME name \<bind> (\<lambda>name.
    shrink_course seats (c\<lparr>cc_name := name, total_seats := seats\<rparr>))"
  have "\<exists>c'. ?f c = Some c' \<and> course_ok c'" if "course_ok c" for c
    using shrink_course_ok [OF that assms(3,4), of "c_field MAX_NAME name"] assms(2) by simp
  then obtain ret cs where "rewrite_first (\<lambda>c. strcmp_eq (cc_id c) i) ?f (read_courses fd d) = Some (ret, cs)"
    "list_all course_ok cs"
    using rewrite_first_list_all [OF disk_ok_courses [OF d, of fd], of "\<lambda>c. strcmp_eq (cc_id c) i"
        "\<lambda>c. c_str (cc_id c) = c_str i" ?f]
      course_match [OF assms(1)] by blast
  then show "\<exists>p d'. update_course_section i name seats fd d = Some (p, d') \<and> disk_ok d' \<and> keeps_inv disk_ok p"
    using write_courses_ok [OF d] by (simp add: update_course_section_def)
qed

lemma clear_slots_total:
  "fits MAX_ID i \<Longrightarrow> list_all (field MAX_ID) xs \<Longrightarrow>
    clear_slots i xs = Some (map (\<lambda>x. if c_str x = c_str i then zero_id else x) xs)"
  by (induction xs) (simp_all add: strcmp_field [where n = MAX_ID and m = MAX_ID])

lemma clear_students_total:
  "fits MAX_ID i \<Longrightarrow> list_all student_ok ss \<Longrightarrow>
    clear_students i ss = Some (map (\<lambda>s. s\<lparr>enrolled_courses :=
      map (\<lambda>x. if c_str x = c_str i then zero_id else x) (enrolled_courses s)\<rparr>) ss)"
  by (induction ss) (simp_all add: clear_slots_total student_ok_def)

lemma unenroll_all_keeps:
  assumes "fits MAX_ID i"
  shows "keeps_inv disk_ok (unenroll_all i ret)"
  unfolding unenroll_all_def
proof (rule keeps_atomically)
  fix d assume d: "disk_ok d"
  show "\<exists>r d'. (case students_dat d of None \<Rightarrow> Some (ret, d)
    | Some ss \<Rightarrow> clear_students i ss \<bind> (\<lambda>ss'. Some (ret, d\<lparr>students_dat := Some ss'\<rparr>))) = Some (r, d') \<and> disk_ok d'"
  proof (cases "students_dat d")
    case (Some ss)
    with d have ss: "list_all student_ok ss" by (simp add: disk_ok_def)
    then have "list_all student_ok (map (\<lambda>s. s\<lparr>enrolled_courses :=
      map (\<lambda>x. if c_str x = c_str i then zero_id else x) (enrolled_courses s)\<rparr>) ss)"
      by (auto simp: list_all_iff student_ok_def)
    then show ?thesis using d Some by (simp add: clear_students_total [OF assms ss] disk_ok_students)
  qed (use d in simp)
qed

lemma remove_course_keeps:
  assumes "fits MAX_ID i"
  shows "keeps_inv disk_ok (remove_course_c i)"
  unfolding remove_course_c_def
proof (rule keeps_with_courses)
  fix fd d assume d: "disk_ok d"
  have cs: "list_all course_ok (read_courses fd d)" using d by (rule disk_ok_courses)
  let ?others = "filter (\<lambda>c. c_str (cc_id c) \<noteq> c_str i) (read_courses fd d)"
  have others: "copy_others (\<lambda>c. strcmp_eq (cc_id c) i) (read_courses fd d) = Some ?others"
    using cs by (intro copy_others_total course_match assms) (simp add: list_all_iff)
  have "disk_ok (d\<lparr>courses_dat := Some (length (course_files d)), course_files := course_files d @ [?others]\<rparr>)"
    using d cs by (simp add: disk_ok_def list_all_iff)
  then show "\<exists>p d'. remove_course_section i fd d = Some (p, d') \<and> disk_ok d' \<and> keeps_inv disk_ok p"
    using d by (simp add: remove_course_section_def scan_ok [OF cs course_match [OF assms]] others
        unenroll_all_keeps [OF assms])
qed

section \<open>Enrolling and dropping\<close>

text \<open>The students of a course: the first places of its array.\<close>

definition roster :: "Course_c \<Rightarrow> string list" where
  "roster c = map c_str (take (nat (enrolled_count c)) (enrolled_students c))"

lemma find_slot_total:
  assumes "fits MAX_ID i" "list_all (field MAX_ID) xs"
  shows "if \<exists>x \<in> set xs. c_str x = c_str i then \<exists>f. find_slot i k xs free = Some (True, f)
    else find_slot i k xs free = Some (False, case free of Some j \<Rightarrow> Some j
      | None \<Rightarrow> map_option (\<lambda>j. k + j) (first_index (\<lambda>x. c_str x = []) xs))"
  using assms(2)
proof (induction xs arbitrary: k free)
  case (Cons x xs)
  then have x: "field MAX_ID x" "list_all (field MAX_ID) xs" by simp_all
  then have "x \<noteq> []" by (auto simp: field_def)
  then have nul: "x ! 0 = NUL \<longleftrightarrow> c_str x = []" by (simp add: c_str_Nil_iff)
  show ?case
    using Cons.IH [OF x(2), of "Suc k" "if free = None \<and> x ! 0 = NUL then Some k else free"] x(1)
    by (auto simp: strcmp_field [OF _ assms(1)] nul option.map_comp comp_def split: option.splits if_splits)
qed (simp split: option.split)

lemma find_enrolled_total:
  assumes "fits MAX_ID i"
  shows "list_all (field MAX_ID) xs \<Longrightarrow> n \<le> length xs \<Longrightarrow>
    find_enrolled i k n xs = Some (map_option (\<lambda>j. k + j) (first_index (\<lambda>x. c_str x = c_str i) (take n xs)))"
proof (induction xs arbitrary: k n)
  case (Cons x xs)
  then show ?case
    by (cases n) (auto simp: strcmp_field [OF _ assms] option.map_comp comp_def intro!: option.map_cong)
qed simp

lemma roster_find_enrolled:
  assumes "fits MAX_ID i" "course_ok c"
  shows "find_enrolled i 0 (nat (enrolled_count c)) (enrolled_students c) =
    Some (first_index (\<lambda>x. x = c_str i) (roster c))"
proof -
  have "nat (enrolled_count c) \<le> length (enrolled_students c)" "list_all (field MAX_ID) (enrolled_students c)"
    using assms(2) by (auto simp: course_ok_def)
  moreover have "first_index (\<lambda>x. c_str x = y) zs = first_index (\<lambda>x. x = y) (map c_str zs)" for y zs
    by (induction zs) auto
  ultimately show ?thesis
    using find_enrolled_total [OF assms(1)] by (simp add: roster_def option.map_ident)
qed

lemma length_roster: "course_ok c \<Longrightarrow> length (roster c) = nat (enrolled_count c)"
  by (auto simp: roster_def course_ok_def)

text \<open>The course after a student was added, and the places it writes.\<close>

definition add_to_roster :: "string \<Rightarrow> Course_c \<Rightarrow> Course_c" where
  "add_to_roster i c = c\<lparr>enrolled_students := (enrolled_students c)[nat (enrolled_count c) := c_field MAX_ID i],
     enrolled_count := enrolled_count c + 1\<rparr>"

lemma add_to_roster_ok:
  assumes "course_ok c" "fits MAX_ID i" "enrolled_count c < total_seats c"
  shows "course_ok (add_to_roster i c)" "roster (add_to_roster i c) = roster c @ [c_str i]"
proof -
  show "course_ok (add_to_roster i c)"
    using assms by (auto simp: add_to_roster_def course_ok_def list_all_update)
  have "nat (enrolled_count c) < length (enrolled_students c)" "0 \<le> enrolled_count c"
    using assms by (auto simp: course_ok_def)
  then show "roster (add_to_roster i c) = roster c @ [c_str i]"
    using assms(2) by (simp add: roster_def add_to_roster_def nat_add_distrib take_Suc_conv_app_nth)
qed

lemma enroll_in_course_total:
  assumes "fits MAX_ID sid" "fits MAX_ID cid" "list_all course_ok cs"
  shows "enroll_in_course sid cid cs = Some (
    case first_index (\<lambda>c. c_str (cc_id c) = c_str cid) cs of
      None \<Rightarrow> (ERR_COURSE_NOT_FOUND, cs)
    | Some k \<Rightarrow>
        if total_seats (cs ! k) \<le> enrolled_count (cs ! k) then (ERR_FULL, cs)
        else if c_str sid \<in> set (roster (cs ! k)) then (ERR_ALREADY_ENROLLED, cs)
        else (0, cs[k := add_to_roster sid (cs ! k)]))"
proof (cases "first_index (\<lambda>c. c_str (cc_id c) = c_str cid) cs")
  case (Some k)
  then have "k < length cs" using first_index_Some by fast
  then have c: "course_ok (cs ! k)" using assms(3) by (simp add: list_all_length)
  have "(\<exists>y. first_index (\<lambda>x. x = c_str sid) (roster (cs ! k)) = Some y) \<longleftrightarrow> c_str sid \<in> set (roster (cs ! k))"
    using first_index_None [of "\<lambda>x. x = c_str sid" "roster (cs ! k)"] by auto
  moreover have "store (enrolled_count (cs ! k)) x (enrolled_students (cs ! k)) =
      Some ((enrolled_students (cs ! k))[nat (enrolled_count (cs ! k)) := x])"
    if "\<not> total_seats (cs ! k) \<le> enrolled_count (cs ! k)" for x
    using c that by (auto simp: store_def course_ok_def)
  ultimately show ?thesis
    by (simp add: enroll_in_course_def scan_ok [OF assms(3) course_match [OF assms(2)]] Some assms(1)
        roster_find_enrolled [OF assms(1) c] add_to_roster_def)
qed (simp add: enroll_in_course_def scan_ok [OF assms(3) course_match [OF assms(2)]])

lemma enroll_in_course_ok:
  assumes "fits MAX_ID sid" "fits MAX_ID cid" "list_all course_ok cs"
  shows "\<exists>ret cs'. enroll_in_course sid cid cs = Some (ret, cs') \<and> list_all course_ok cs'"
proof -
  have "course_ok (add_to_roster sid (cs ! k))"
    if "first_index (\<lambda>c. c_str (cc_id c) = c_str cid) cs = Some k" "\<not> total_seats (cs ! k) \<le> enrolled_count (cs ! k)" for k
    using first_index_Some [OF that(1)] that(2) assms by (intro add_to_roster_ok) (auto simp: list_all_length)
  then show ?thesis
    using assms(3) by (auto simp: enroll_in_course_total [OF assms] list_all_update split: option.split)
qed

lemma enroll_section_ok:
  assumes "fits MAX_ID sid" "fits MAX_ID cid" "disk_ok d"
  shows "\<exists>ret d'. enroll_section sid cid d = Some (ret, d') \<and> disk_ok d'"
proof (cases "students_dat d")
  case None
  then show ?thesis using assms(3) by (simp add: enroll_section_def)
next
  case (Some ss)
  with assms(3) have ss: "list_all student_ok ss" by (simp add: disk_ok_def)
  show ?thesis
  proof (cases "first_index (\<lambda>s. c_str (sc_id s) = c_str sid) ss")
    case None
    then show ?thesis
      using Some assms(3) by (simp add: enroll_section_def scan_ok [OF ss student_match [OF assms(1)]])
  next
    case k: (Some k)
    let ?s = "ss ! k"
    have s: "student_ok ?s" using first_index_Some [OF k] ss by (simp add: list_all_length)
    then have slots: "list_all (field MAX_ID) (enrolled_courses ?s)" by (simp add: student_ok_def)
    obtain already slot where f: "find_slot cid 0 (enrolled_courses ?s) None = Some (already, slot)"
      using find_slot_total [OF assms(2) slots, of 0 None] by (auto split: if_splits)
    have put: "disk_ok (write_courses cfd cs (d\<lparr>students_dat := Some (ss[k :=
        ?s\<lparr>enrolled_courses := (enrolled_courses ?s)[j := c_field MAX_ID cid]\<rparr>])\<rparr>))"
      if "list_all course_ok cs" for cfd cs j
      using that s ss assms by (intro write_courses_ok disk_ok_students list_all_update)
        (simp_all add: student_ok_def list_all_update)
    have enroll: "\<exists>ret cs. enroll_in_course sid cid (read_courses cfd d) = Some (ret, cs) \<and> list_all course_ok cs" for cfd
      using enroll_in_course_ok [OF assms(1,2) disk_ok_courses [OF assms(3)]] .
    show ?thesis
    proof (cases "sc_active ?s = 0 \<or> already \<or> slot = None \<or> courses_dat d = None")
      case True
      then show ?thesis using Some k f assms(3)
        by (auto simp: enroll_section_def scan_ok [OF ss student_match [OF assms(1)]] split: option.split)
    next
      case False
      then obtain j cfd where "slot = Some j" "courses_dat d = Some cfd" by auto
      moreover obtain ret cs where "enroll_in_course sid cid (read_courses cfd d) = Some (ret, cs)" "list_all course_ok cs"
        using enroll by blast
      ultimately show ?thesis using Some k f assms(2,3) False put
        by (simp add: enroll_section_def scan_ok [OF ss student_match [OF assms(1)]])
    qed
  qed
qed

lemma enroll_course_keeps:
  "fits MAX_ID sid \<Longrightarrow> fits MAX_ID cid \<Longrightarrow> keeps_inv disk_ok (enroll_course sid cid)"
  unfolding enroll_course_def by (rule keeps_atomically) (rule enroll_section_ok)

text \<open>Moving the later students down drops one name from the roster.\<close>

lemma shift_down_total:
  "list_all (field MAX_ID) xs \<Longrightarrow> j + n < length xs \<Longrightarrow>
    \<exists>ys. shift_down j n xs = Some ys \<and> list_all (field MAX_ID) ys \<and> length ys = length xs \<and>
      (\<forall>k < length xs. c_str (ys ! k) = (if j \<le> k \<and> k < j + n then c_str (xs ! Suc k) else c_str (xs ! k)))"
proof (induction n arbitrary: j xs)
  case (Suc n)
  let ?x = "c_field MAX_ID (xs ! Suc j)"
  have f: "field MAX_ID (xs ! Suc j)" using Suc.prems by (simp add: list_all_length)
  then have x: "strncpy MAX_ID (xs ! Suc j) = Some ?x" "field MAX_ID ?x" "c_str ?x = c_str (xs ! Suc j)"
    by (simp_all add: field_fits)
  have "list_all (field MAX_ID) (xs[j := ?x])" "Suc j + n < length (xs[j := ?x])"
    using Suc.prems x(2) by (simp_all add: list_all_update)
  from Suc.IH [OF this] obtain ys where ys: "shift_down (Suc j) n (xs[j := ?x]) = Some ys"
    "list_all (field MAX_ID) ys" "length ys = length xs"
    "\<forall>k < length xs. c_str (ys ! k) = (if Suc j \<le> k \<and> k < Suc j + n then c_str (xs[j := ?x] ! Suc k)
       else c_str (xs[j := ?x] ! k))"
    by auto
  have "shift_down j (Suc n) xs = Some ys" using Suc.prems x(1) ys(1) by simp
  moreover have "c_str (ys ! k) = (if j \<le> k \<and> k < j + Suc n then c_str (xs ! Suc k) else c_str (xs ! k))"
    if "k < length xs" for k
    using ys(4) that x(3) by (cases "k = j") auto
  ultimately show ?case using ys(2,3) by blast
qed auto

definition remove_at :: "nat \<Rightarrow> 'a list \<Rightarrow> 'a list" where
  "remove_at k xs = take k xs @ drop (Suc k) xs"

lemma nth_remove_at:
  "k < length xs \<Longrightarrow> m < length xs - 1 \<Longrightarrow> remove_at k xs ! m = (if k \<le> m then xs ! Suc m else xs ! m)"
  by (auto simp: remove_at_def nth_append min_def)

lemma length_remove_at: "k < length xs \<Longrightarrow> length (remove_at k xs) = length xs - 1"
  by (simp add: remove_at_def)

lemma unenroll_in_course_total:
  assumes "fits MAX_ID i" "course_ok c"
  shows "\<exists>c'. unenroll_in_course i c = Some c' \<and> course_ok c' \<and> cc_id c' = cc_id c \<and>
    total_seats c' = total_seats c \<and>
    roster c' = (case first_index (\<lambda>x. x = c_str i) (roster c) of None \<Rightarrow> roster c | Some k \<Rightarrow> remove_at k (roster c))"
proof (cases "first_index (\<lambda>x. x = c_str i) (roster c)")
  case None
  then show ?thesis using assms by (simp add: unenroll_in_course_def roster_find_enrolled)
next
  case (Some k)
  let ?n = "nat (enrolled_count c)"
  have k: "k < length (roster c)" using first_index_Some [OF Some] by blast
  have n: "k < ?n" "?n \<le> length (enrolled_students c)" "0 < enrolled_count c"
    using k assms(2) length_roster [OF assms(2)] by (auto simp: course_ok_def)
  have "list_all (field MAX_ID) (enrolled_students c)" "k + (?n - 1 - k) < length (enrolled_students c)"
    using assms(2) n by (auto simp: course_ok_def)
  from shift_down_total [OF this] obtain ys where ys: "shift_down k (?n - 1 - k) (enrolled_students c) = Some ys"
    "list_all (field MAX_ID) ys" "length ys = length (enrolled_students c)"
    "\<forall>m < length (enrolled_students c). c_str (ys ! m) =
      (if k \<le> m \<and> m < k + (?n - 1 - k) then c_str (enrolled_students c ! Suc m) else c_str (enrolled_students c ! m))"
    by blast
  let ?c = "c\<lparr>enrolled_students := ys, enrolled_count := enrolled_count c - 1\<rparr>"
  have ok: "course_ok ?c" using assms(2) ys(2,3) n(3) by (auto simp: course_ok_def)
  have "roster ?c = remove_at k (roster c)"
  proof (rule nth_equalityI)
    show len: "length (roster ?c) = length (remove_at k (roster c))"
      using length_roster [OF ok] length_roster [OF assms(2)] length_remove_at [OF k] by simp
    fix m assume "m < length (roster ?c)"
    then have m: "m < ?n - 1" using length_roster [OF ok] by simp
    have "roster ?c ! m = c_str (ys ! m)" using m n ys(3) by (simp add: roster_def)
    also have "\<dots> = (if k \<le> m then c_str (enrolled_students c ! Suc m) else c_str (enrolled_students c ! m))"
      using m n ys(4) by auto
    also have "\<dots> = remove_at k (roster c) ! m"
      using m n k nth_remove_at [OF k, of m] length_roster [OF assms(2)] by (simp add: roster_def)
    finally show "roster ?c ! m = remove_at k (roster c) ! m" .
  qed
  then show ?thesis
    using ok by (simp add: unenroll_in_course_def roster_find_enrolled [OF assms] Some ys(1) [simplified])
qed

lemma clear_first_slot_total:
  assumes "fits MAX_ID i"
  shows "list_all (field MAX_ID) xs \<Longrightarrow> clear_first_slot i xs = Some (
    case first_index (\<lambda>x. c_str x = c_str i) xs of None \<Rightarrow> (False, xs) | Some k \<Rightarrow> (True, xs[k := zero_id]))"
  by (induction xs) (auto simp: strcmp_field [OF _ assms] split: option.split)

lemma unenroll_student_keeps:
  assumes "fits MAX_ID sid" "fits MAX_ID cid"
  shows "keeps_inv disk_ok (unenroll_student sid cid)"
  unfolding unenroll_student_def
proof (rule keeps_atomically)
  fix d assume d: "disk_ok d"
  show "\<exists>r d'. (case students_dat d of None \<Rightarrow> Some (- 1, d)
    | Some ss \<Rightarrow> scan (\<lambda>s. strcmp_eq (sc_id s) sid) 0 ss \<bind> (\<lambda>found. case found of
         None \<Rightarrow> Some (- 1, d)
       | Some (pos, s) \<Rightarrow> clear_first_slot cid (enrolled_courses s) \<bind> (\<lambda>(cleared, slots).
           if cleared then Some (0, d\<lparr>students_dat := Some (ss[pos := s\<lparr>enrolled_courses := slots\<rparr>])\<rparr>)
           else Some (ERR_NOT_ENROLLED, d)))) = Some (r, d') \<and> disk_ok d'"
  proof (cases "students_dat d")
    case (Some ss)
    with d have ss: "list_all student_ok ss" by (simp add: disk_ok_def)
    show ?thesis
    proof (cases "first_index (\<lambda>s. c_str (sc_id s) = c_str sid) ss")
      case k: (Some k)
      have s: "student_ok (ss ! k)" using first_index_Some [OF k] ss by (simp add: list_all_length)
      then have "list_all (field MAX_ID) (enrolled_courses (ss ! k))" by (simp add: student_ok_def)
      moreover have "disk_ok (d\<lparr>students_dat := Some (ss[k := (ss ! k)\<lparr>enrolled_courses :=
          (enrolled_courses (ss ! k))[j := zero_id]\<rparr>])\<rparr>)" for j
        using s ss d by (intro disk_ok_students list_all_update) (simp_all add: student_ok_def list_all_update)
      ultimately show ?thesis
        using Some k d by (simp add: scan_ok [OF ss student_match [OF assms(1)]]
            clear_first_slot_total [OF assms(2)] split: option.split)
    qed (use Some d in \<open>simp add: scan_ok [OF ss student_match [OF assms(1)]]\<close>)
  qed (use d in simp)
qed

lemma unenroll_course_keeps:
  assumes "fits MAX_ID sid" "fits MAX_ID cid"
  shows "keeps_inv disk_ok (unenroll_course sid cid)"
  unfolding unenroll_course_def
proof (rule keeps_with_courses)
  fix fd d assume d: "disk_ok d"
  obtain ret cs where "rewrite_first (\<lambda>c. strcmp_eq (cc_id c) cid) (unenroll_in_course sid) (read_courses fd d) = Some (ret, cs)"
    "list_all course_ok cs"
    using rewrite_first_list_all [OF disk_ok_courses [OF d, of fd], of "\<lambda>c. strcmp_eq (cc_id c) cid"
        "\<lambda>c. c_str (cc_id c) = c_str cid" "unenroll_in_course sid"]
      course_match [OF assms(2)] unenroll_in_course_total [OF assms(1)] by blast
  then show "\<exists>p d'. unenroll_section sid cid fd d = Some (p, d') \<and> disk_ok d' \<and> keeps_inv disk_ok p"
    using write_courses_ok [OF d] unenroll_student_keeps [OF assms] by (simp add: unenroll_section_def)
qed

end
