(* ===== verification/Legacy_Correctness.thy ===== *)
theory Legacy_Correctness
  imports Legacy_Invariant
begin

text \<open>
  What the file store of the older program promises: any number of threads keep the files
  well-formed and never run into undefined behaviour, enrolling and dropping behave as their
  specification over texts says, and dropping undoes enrolling. Four theorems show where it
  does not keep its promises: a course with too many seats, a course made smaller, a thread
  that opened the course file before another replaced it, and accounts with the same name.
\<close>

section \<open>The functions as calls\<close>

datatype file_call =
    Call_add_user string string Role_c
  | Call_add_student string string
  | Call_add_faculty string string
  | Call_activate string int
  | Call_update_student string string
  | Call_update_faculty string string
  | Call_change_password string string
  | Call_add_course string string string int
  | Call_update_course string string int
  | Call_remove_course string
  | Call_enroll string string
  | Call_unenroll string string

fun program_of :: "file_call \<Rightarrow> (disk, int) prog" where
  "program_of (Call_add_user i p r) = add_user i p r"
| "program_of (Call_add_student i n) = add_student i n"
| "program_of (Call_add_faculty i n) = add_faculty i n"
| "program_of (Call_activate i a) = activate_deactivate_student i a"
| "program_of (Call_update_student i n) = update_student i n"
| "program_of (Call_update_faculty i n) = update_faculty i n"
| "program_of (Call_change_password i p) = change_password i p"
| "program_of (Call_add_course i n f seats) = add_course i n f seats"
| "program_of (Call_update_course i n seats) = update_course_c i n seats"
| "program_of (Call_remove_course i) = remove_course_c i"
| "program_of (Call_enroll s c) = enroll_course s c"
| "program_of (Call_unenroll s c) = unenroll_course s c"

text \<open>Arguments within the limits of the header.\<close>

fun valid_call :: "file_call \<Rightarrow> bool" where
  "valid_call (Call_add_user i p r) \<longleftrightarrow> fits MAX_ID i \<and> fits MAX_PASS p"
| "valid_call (Call_add_student i n) \<longleftrightarrow> fits MAX_ID i \<and> fits MAX_NAME n"
| "valid_call (Call_add_faculty i n) \<longleftrightarrow> fits MAX_ID i \<and> fits MAX_NAME n"
| "valid_call (Call_activate i a) \<longleftrightarrow> fits MAX_ID i"
| "valid_call (Call_update_student i n) \<longleftrightarrow> fits MAX_ID i \<and> fits MAX_NAME n"
| "valid_call (Call_update_faculty i n) \<longleftrightarrow> fits MAX_ID i \<and> fits MAX_NAME n"
| "valid_call (Call_change_password i p) \<longleftrightarrow> fits MAX_ID i \<and> fits MAX_PASS p"
| "valid_call (Call_add_course i n f seats) \<longleftrightarrow>
     fits MAX_ID i \<and> fits MAX_NAME n \<and> fits MAX_ID f \<and> seats \<le> int MAX_USERS"
| "valid_call (Call_update_course i n seats) \<longleftrightarrow>
     fits MAX_ID i \<and> fits MAX_NAME n \<and> 0 \<le> seats \<and> seats \<le> int MAX_USERS"
| "valid_call (Call_remove_course i) \<longleftrightarrow> fits MAX_ID i"
| "valid_call (Call_enroll s c) \<longleftrightarrow> fits MAX_ID s \<and> fits MAX_ID c"
| "valid_call (Call_unenroll s c) \<longleftrightarrow> fits MAX_ID s \<and> fits MAX_ID c"

lemmas all_keep = add_user_keeps add_student_keeps add_faculty_keeps activate_deactivate_student_keeps
  update_student_keeps update_faculty_keeps change_password_keeps add_course_keeps update_course_keeps
  remove_course_keeps enroll_course_keeps unenroll_course_keeps

lemma program_keeps: "valid_call c \<Longrightarrow> keeps_inv disk_ok (program_of c)"
  by (cases c) (simp_all add: all_keep)

definition threads_start :: "(disk, int) prog list \<times> disk \<Rightarrow> bool" where
  "threads_start c \<longleftrightarrow> (\<exists>calls. list_all valid_call calls \<and> fst c = map program_of calls) \<and> disk_ok (snd c)"

interpretation files: step_invariant threads_start interleave "threads_ok disk_ok"
proof unfold_locales
  show "threads_ok disk_ok c" if "threads_start c" for c
    using that program_keeps by (auto simp: threads_start_def threads_ok_def list_all_iff)
  show "threads_ok disk_ok c'" if "threads_ok disk_ok c" "interleave c c'" for c c'
    using that by (rule interleave_threads_ok)
qed

lemma fits_literal: "NUL \<notin> set s \<Longrightarrow> length s < n \<Longrightarrow> fits n (literal s)"
  by (simp add: fits_def literal_def c_str_append terminated_def c_str_id)

lemma c_str_literal [simp]: "NUL \<notin> set s \<Longrightarrow> c_str (literal s) = s"
  by (simp add: literal_def c_str_append terminated_def c_str_id)

definition no_files :: disk where
  "no_files = \<lparr>users_dat = None, students_dat = None, faculty_dat = None, courses_dat = None,
     course_files = [], can_create = True\<rparr>"

lemma no_files_ok [simp]: "disk_ok no_files"
  by (simp add: disk_ok_def no_files_def)

text \<open>However many threads run the functions of the file store with arguments within the limits,
  and however their sections interleave, the files stay well-formed (every text terminated, no
  course with more students than seats) and every section a thread is about to execute is
  free of undefined behaviour.\<close>

theorem file_threads_are_safe:
  assumes "reachable threads_start interleave (ts, d)"
  shows "disk_ok d \<and> (\<forall>i < length ts. \<forall>f. ts ! i = Step f \<longrightarrow> f d \<noteq> None)"
proof -
  have ok: "threads_ok disk_ok (ts, d)" using assms by (rule files.reachable_inv)
  have "f d \<noteq> None" if "i < length ts" "ts ! i = Step f" for i f
    using threads_progress [OF ok that] that ok
    by (auto elim!: interleaveE simp: threads_ok_def list_all_length)
      (metis keeps_inv_simps(2) option.distinct(1))
  moreover have "disk_ok d" using ok by (simp add: threads_ok_def)
  ultimately show ?thesis by blast
qed

theorem file_threads_are_safe_witness:
  "case program_of (Call_add_course (literal ''c1'') (literal ''OS'') (literal ''f1'') 2) of
     Done r \<Rightarrow> False | Step f \<Rightarrow> f no_files \<noteq> None"
proof -
  let ?calls = "[Call_add_course (literal ''c1'') (literal ''OS'') (literal ''f1'') 2, Call_remove_course (literal ''c1'')]"
  obtain f where f: "program_of (hd ?calls) = Step f" by (simp add: add_course_def with_courses_def)
  have "threads_start (map program_of ?calls, no_files)"
    unfolding threads_start_def by (intro conjI exI [of _ ?calls]) (simp_all add: fits_literal c_limits)
  then have "reachable threads_start interleave (map program_of ?calls, no_files)" by (rule reachable.start)
  from file_threads_are_safe [OF this]
  have "\<forall>i < 2. \<forall>f. map program_of ?calls ! i = Step f \<longrightarrow> f no_files \<noteq> None" by (simp add: numeral_2_eq_2)
  then have "f no_files \<noteq> None" using f by (auto dest: spec [of _ "0::nat"])
  then show ?thesis using f by simp
qed

section \<open>Enrolling and dropping over texts\<close>

text \<open>The first record with a given key.\<close>

definition first_of :: "('r \<Rightarrow> string) \<Rightarrow> ('r \<Rightarrow> 'v) \<Rightarrow> 'r list \<Rightarrow> string \<Rightarrow> 'v option" where
  "first_of key val rs x = map_option (\<lambda>k. val (rs ! k)) (first_index (\<lambda>r. key r = x) rs)"

lemma first_index_update:
  "first_index P rs = Some k \<Longrightarrow> P r = P (rs ! k) \<Longrightarrow> Q r = Q (rs ! k) \<Longrightarrow> first_index Q (rs[k := r]) = first_index Q rs"
proof (induction rs arbitrary: k)
  case (Cons q rs)
  then show ?case by (cases k) (auto split: if_splits)
qed simp

lemma first_of_update:
  assumes "first_index (\<lambda>r. key r = x) rs = Some k" "key r = x"
  shows "first_of key val (rs[k := r]) = (first_of key val rs)(x \<mapsto> val r)"
proof
  fix y
  have k: "k < length rs" "key (rs ! k) = x" using first_index_Some [OF assms(1)] by blast+
  have i: "first_index (\<lambda>r. key r = y) (rs[k := r]) = first_index (\<lambda>r. key r = y) rs"
    using assms k by (intro first_index_update [OF assms(1)]) auto
  show "first_of key val (rs[k := r]) y = ((first_of key val rs)(x \<mapsto> val r)) y"
  proof (cases "y = x")
    case False
    then have "m \<noteq> k" if "first_index (\<lambda>r. key r = y) rs = Some m" for m
      using first_index_Some [OF that] k by auto
    then show ?thesis using False i
      by (cases "first_index (\<lambda>r. key r = y) rs") (auto simp: first_of_def)
  qed (use i k assms in \<open>simp add: first_of_def\<close>)
qed

text \<open>A student as (active, courses in the slots), a course as (seats, roster).\<close>

definition student_view :: "Student_c \<Rightarrow> bool \<times> string list" where
  "student_view s = (sc_active s \<noteq> 0, map c_str (enrolled_courses s))"

definition course_view :: "Course_c \<Rightarrow> int \<times> string list" where
  "course_view c = (total_seats c, roster c)"

definition students_of :: "disk \<Rightarrow> string \<Rightarrow> (bool \<times> string list) option" where
  "students_of d = first_of (\<lambda>s. c_str (sc_id s)) student_view (case_option [] id (students_dat d))"

definition courses_of :: "disk \<Rightarrow> string \<Rightarrow> (int \<times> string list) option" where
  "courses_of d = first_of (\<lambda>c. c_str (cc_id c)) course_view (case courses_dat d of None \<Rightarrow> [] | Some fd \<Rightarrow> read_courses fd d)"

text \<open>The outcome of an enrolment.\<close>

fun enroll_outcome :: "string \<Rightarrow> string \<Rightarrow> (bool \<times> string list) option \<Rightarrow> (int \<times> string list) option \<Rightarrow> bool \<Rightarrow> int" where
  "enroll_outcome sid cid None course has_courses = ERR_NOT_FOUND"
| "enroll_outcome sid cid (Some (active, slots)) course has_courses =
     (if \<not> active then ERR_INVALID_INPUT
      else if cid \<in> set slots then ERR_ALREADY_ENROLLED
      else if [] \<notin> set slots then ERR_FULL
      else if \<not> has_courses then - 1
      else case course of
        None \<Rightarrow> ERR_COURSE_NOT_FOUND
      | Some (seats, names) \<Rightarrow>
          if seats \<le> int (length names) then ERR_FULL
          else if sid \<in> set names then ERR_ALREADY_ENROLLED else 0)"

text \<open>Its effect, when it succeeds: the first free slot and the end of the roster.\<close>

fun take_slot :: "string \<Rightarrow> string list \<Rightarrow> string list" where
  "take_slot x [] = []"
| "take_slot x (y # ys) = (if y = [] then x # ys else y # take_slot x ys)"

definition enrolled_state ::
  "string \<Rightarrow> string \<Rightarrow> (string \<Rightarrow> (bool \<times> string list) option) \<times> (string \<Rightarrow> (int \<times> string list) option)
    \<Rightarrow> (string \<Rightarrow> (bool \<times> string list) option) \<times> (string \<Rightarrow> (int \<times> string list) option)" where
  "enrolled_state sid cid = (\<lambda>(students, courses).
     (students(sid \<mapsto> (fst (the (students sid)), take_slot cid (snd (the (students sid))))),
      courses(cid \<mapsto> (fst (the (courses cid)), snd (the (courses cid)) @ [sid]))))"

lemma take_slot_index:
  "first_index (\<lambda>y. c_str y = []) xs = Some k \<Longrightarrow> c_str x' = x \<Longrightarrow>
    map c_str (xs[k := x']) = take_slot x (map c_str xs)"
proof (induction xs arbitrary: k)
  case (Cons y ys)
  then show ?case by (cases k) (auto split: if_splits)
qed simp

lemma students_of_index:
  assumes "students_dat d = Some ss" "first_index (\<lambda>s. c_str (sc_id s) = x) ss = Some k"
  shows "students_of d x = Some (sc_active (ss ! k) \<noteq> 0, map c_str (enrolled_courses (ss ! k)))"
  using assms by (simp add: students_of_def first_of_def student_view_def)

lemma courses_of_index:
  assumes "courses_dat d = Some fd" "first_index (\<lambda>c. c_str (cc_id c) = x) (read_courses fd d) = Some k"
  shows "courses_of d x = Some (total_seats (read_courses fd d ! k), roster (read_courses fd d ! k))"
  using assms by (simp add: courses_of_def first_of_def course_view_def)

lemma read_write_courses:
  "disk_ok d \<Longrightarrow> courses_dat d = Some fd \<Longrightarrow> read_courses fd (write_courses fd cs d) = cs"
  by (simp add: disk_ok_def read_courses_def write_courses_def)

lemma write_courses_fields [simp]:
  "students_dat (write_courses fd cs d) = students_dat d" "courses_dat (write_courses fd cs d) = courses_dat d"
  by (simp_all add: write_courses_def)

lemma courses_of_write:
  assumes "disk_ok d" "courses_dat d = Some fd"
    and "first_index (\<lambda>c. c_str (cc_id c) = x) (read_courses fd d) = Some k" "c_str (cc_id c') = x"
  shows "courses_of (write_courses fd ((read_courses fd d)[k := c']) d) = (courses_of d)(x \<mapsto> course_view c')"
  using assms first_of_update [OF assms(3,4), of course_view]
  by (simp add: courses_of_def read_write_courses)

lemma students_of_update:
  assumes "students_dat d = Some ss" "first_index (\<lambda>s. c_str (sc_id s) = x) ss = Some k" "c_str (sc_id s') = x"
    and "students_dat d' = Some (ss[k := s'])"
  shows "students_of d' = (students_of d)(x \<mapsto> student_view s')"
  using first_of_update [OF assms(2,3), of student_view] assms(1,4) by (simp add: students_of_def)

lemma read_courses_students_dat [simp]: "read_courses fd (d\<lparr>students_dat := x\<rparr>) = read_courses fd d"
  by (simp add: read_courses_def)

lemma courses_of_students_dat [simp]: "courses_of (d\<lparr>students_dat := x\<rparr>) = courses_of d"
  by (simp add: courses_of_def split: option.split)

lemma in_map_c_str: "y \<in> set (map c_str xs) \<longleftrightarrow> (\<exists>x \<in> set xs. c_str x = y)"
  by auto

lemma map_option_add_0 [simp]: "map_option ((+) (0::nat)) x = x"
  by (cases x) simp_all

text \<open>The slots as \<open>find_slot\<close> sees them.\<close>

lemma slot_lookup:
  assumes "fits MAX_ID cid" "student_ok s"
  shows "\<exists>slot. find_slot cid 0 (enrolled_courses s) None = Some (c_str cid \<in> set (map c_str (enrolled_courses s)), slot) \<and>
    (c_str cid \<notin> set (map c_str (enrolled_courses s)) \<longrightarrow>
       slot = first_index (\<lambda>x. c_str x = []) (enrolled_courses s))"
proof -
  have "list_all (field MAX_ID) (enrolled_courses s)" using assms(2) by (simp add: student_ok_def)
  from find_slot_total [OF assms(1) this, of 0 None] show ?thesis
    unfolding in_map_c_str by (auto split: if_splits)
qed

text \<open>The section of \<open>enroll_course\<close> as a case distinction over texts.\<close>

lemma enroll_section_outcome:
  assumes d: "disk_ok d" and sid: "fits MAX_ID sid" and cid: "fits MAX_ID cid"
    and ret: "ret = enroll_outcome (c_str sid) (c_str cid) (students_of d (c_str sid)) (courses_of d (c_str cid))
      (courses_dat d \<noteq> None)"
  shows "\<exists>d'. enroll_section sid cid d = Some (ret, d') \<and> (if ret = 0
    then (students_of d', courses_of d') = enrolled_state (c_str sid) (c_str cid) (students_of d, courses_of d)
    else d' = d)"
proof (cases "case_option None (first_index (\<lambda>s. c_str (sc_id s) = c_str sid)) (students_dat d)")
  case None
  then have "students_of d (c_str sid) = None"
    by (auto simp: students_of_def first_of_def split: option.splits)
  moreover have "enroll_section sid cid d = Some (ERR_NOT_FOUND, d)"
  proof (cases "students_dat d")
    case (Some ss)
    with d have ss: "list_all student_ok ss" by (simp add: disk_ok_def)
    then show ?thesis using Some None
      by (simp add: enroll_section_def scan_ok [OF ss student_match [OF sid]])
  qed (simp add: enroll_section_def ERR_NOT_FOUND_def)
  ultimately show ?thesis using ret by (simp add: ERR_NOT_FOUND_def)
next
  case (Some k)
  then obtain ss where ss: "students_dat d = Some ss" and k: "first_index (\<lambda>s. c_str (sc_id s) = c_str sid) ss = Some k"
    by (auto split: option.splits)
  have ok: "list_all student_ok ss" using d ss by (simp add: disk_ok_def)
  let ?s = "ss ! k"
  have k': "k < length ss" "c_str (sc_id ?s) = c_str sid" using first_index_Some [OF k] by blast+
  then have s: "student_ok ?s" using ok by (simp add: list_all_length)
  have st: "students_of d (c_str sid) = Some (sc_active ?s \<noteq> 0, map c_str (enrolled_courses ?s))"
    by (rule students_of_index [OF ss k])
  obtain slot where slot: "find_slot cid 0 (enrolled_courses ?s) None =
      Some (c_str cid \<in> set (map c_str (enrolled_courses ?s)), slot)"
    "c_str cid \<notin> set (map c_str (enrolled_courses ?s)) \<Longrightarrow> slot = first_index (\<lambda>x. c_str x = []) (enrolled_courses ?s)"
    using slot_lookup [OF cid s] by blast
  note sec = enroll_section_def ss scan_ok [OF ok student_match [OF sid]] k slot(1)
  have free: "slot = None \<longleftrightarrow> [] \<notin> set (map c_str (enrolled_courses ?s))"
    if "c_str cid \<notin> set (map c_str (enrolled_courses ?s))"
    using slot(2) [OF that] first_index_None [of "\<lambda>x. c_str x = []" "enrolled_courses ?s"]
    unfolding in_map_c_str by auto
  consider (blocked) "sc_active ?s = 0"
    | (already) "sc_active ?s \<noteq> 0" "c_str cid \<in> set (map c_str (enrolled_courses ?s))"
    | (no_slot) "sc_active ?s \<noteq> 0" "c_str cid \<notin> set (map c_str (enrolled_courses ?s))" "slot = None"
    | (slot) j where "sc_active ?s \<noteq> 0" "c_str cid \<notin> set (map c_str (enrolled_courses ?s))" "slot = Some j"
    by (cases slot) blast+
  then show ?thesis
  proof cases
    case blocked
    then show ?thesis using ret st by (simp add: sec ERR_INVALID_INPUT_def)
  next
    case already
    then show ?thesis using ret st by (simp add: sec ERR_ALREADY_ENROLLED_def)
  next
    case no_slot
    then show ?thesis using ret st free by (simp add: sec ERR_FULL_def)
  next
    case (slot j)
    have j: "first_index (\<lambda>x. c_str x = []) (enrolled_courses ?s) = Some j" using slot \<open>_ \<Longrightarrow> slot = _\<close> by simp
    have has: "[] \<in> set (map c_str (enrolled_courses ?s))" using free slot by simp
    show ?thesis
    proof (cases "courses_dat d")
      case None
      then show ?thesis using ret st slot has by (simp add: sec)
    next
      case (Some fd)
      let ?cs = "read_courses fd d"
      have cs: "list_all course_ok ?cs" by (rule disk_ok_courses [OF d])
      note total = enroll_in_course_total [OF sid cid cs]
      show ?thesis
      proof (cases "first_index (\<lambda>c. c_str (cc_id c) = c_str cid) ?cs")
        case None
        then have "courses_of d (c_str cid) = None" using Some by (simp add: courses_of_def first_of_def)
        then show ?thesis using ret st slot has Some None total
          by (simp add: sec ERR_COURSE_NOT_FOUND_def)
      next
        case m: (Some m)
        let ?c = "?cs ! m"
        have m': "m < length ?cs" "c_str (cc_id ?c) = c_str cid" using first_index_Some [OF m] by blast+
        then have c: "course_ok ?c" using cs by (simp add: list_all_length)
        have co: "courses_of d (c_str cid) = Some (total_seats ?c, roster ?c)"
          by (rule courses_of_index [OF Some m])
        have len: "int (length (roster ?c)) = enrolled_count ?c"
          using c length_roster [OF c] by (simp add: course_ok_def)
        show ?thesis
        proof (cases "ret = 0")
          case False
          then show ?thesis using ret st slot has Some m total co len
            by (auto simp: sec c_errors split: if_splits)
        next
          case True
          then have seats: "\<not> total_seats ?c \<le> enrolled_count ?c" "c_str sid \<notin> set (roster ?c)"
            using ret st slot has Some co len by (auto simp: c_errors split: if_splits)
          let ?ss = "ss[k := ?s\<lparr>enrolled_courses := (enrolled_courses ?s)[j := c_field MAX_ID cid]\<rparr>]"
          let ?d = "write_courses fd (?cs[m := add_to_roster sid ?c]) (d\<lparr>students_dat := Some ?ss\<rparr>)"
          have ok': "disk_ok (d\<lparr>students_dat := Some ?ss\<rparr>)"
            using d ok s cid by (intro disk_ok_students list_all_update) (simp_all add: student_ok_def list_all_update)
          have "enroll_section sid cid d = Some (ret, ?d)"
            using True slot Some m total seats cid by (simp add: sec)
          moreover have "students_of ?d = (students_of d)(c_str sid \<mapsto>
              student_view (?s\<lparr>enrolled_courses := (enrolled_courses ?s)[j := c_field MAX_ID cid]\<rparr>))"
            by (rule students_of_update [OF ss k]) (use k' in simp_all)
          moreover have "courses_of ?d = (courses_of d)(c_str cid \<mapsto> course_view (add_to_roster sid ?c))"
            using courses_of_write [OF ok', of fd "c_str cid" m "add_to_roster sid ?c"] Some m m'(2)
            by (simp add: add_to_roster_def)
          moreover have "roster (add_to_roster sid ?c) = roster ?c @ [c_str sid]"
            using add_to_roster_ok(2) [OF c sid] seats by simp
          ultimately show ?thesis
            using True st co slot(1) take_slot_index [OF j, of "c_field MAX_ID cid"] cid
            by (simp add: enrolled_state_def student_view_def course_view_def add_to_roster_def)
        qed
      qed
    qed
  qed
qed

text \<open>C28: On well-formed files \<open>enroll_course\<close> returns what the specification over texts says:
  whether the student exists and is active, whether the course is already in one of her slots
  or no slot is free, whether the course exists, is full or has her already. When it returns 0
  the first free slot holds the course and the student is the last of the roster; otherwise
  nothing changes.\<close>

theorem enroll_meets_spec:
  assumes "disk_ok d" "fits MAX_ID sid" "fits MAX_ID cid"
    and "ret = enroll_outcome (c_str sid) (c_str cid) (students_of d (c_str sid)) (courses_of d (c_str cid))
      (courses_dat d \<noteq> None)"
  shows "\<exists>d'. run (enroll_course sid cid) d = Some (ret, d') \<and> disk_ok d' \<and> (if ret = 0
    then (students_of d', courses_of d') = enrolled_state (c_str sid) (c_str cid) (students_of d, courses_of d)
    else d' = d)"
  using enroll_section_outcome [OF assms] enroll_section_ok [OF assms(2,3,1)]
  by (auto simp: enroll_course_def)

definition demo_student :: Student_c where
  "demo_student = \<lparr>sc_id = c_field MAX_ID (literal ''s1''), sc_name = c_field MAX_NAME (literal ''John''),
     sc_active = 1, enrolled_courses = replicate MAX_COURSES zero_id\<rparr>"

definition demo_course :: "int \<Rightarrow> Course_c" where
  "demo_course seats = \<lparr>cc_id = c_field MAX_ID (literal ''c1''), cc_name = c_field MAX_NAME (literal ''OS''),
     cc_faculty_id = c_field MAX_ID (literal ''f1''), total_seats = seats, enrolled_count = 0,
     enrolled_students = replicate MAX_USERS zero_id\<rparr>"

definition demo_disk :: "int \<Rightarrow> disk" where
  "demo_disk seats = \<lparr>users_dat = None, students_dat = Some [demo_student], faculty_dat = None,
     courses_dat = Some 0, course_files = [[demo_course seats]], can_create = True\<rparr>"

lemma demo_ids [simp]: "fits MAX_ID (literal ''s1'')" "fits MAX_ID (literal ''c1'')" "fits MAX_ID (literal ''f1'')"
    "fits MAX_NAME (literal ''John'')" "fits MAX_NAME (literal ''OS'')"
  by (simp_all add: fits_literal c_limits)

lemma demo_disk_ok [simp]: "seats \<le> 100 \<Longrightarrow> disk_ok (demo_disk seats)"
  using new_course_ok [of "literal ''c1''" "literal ''OS''" "literal ''f1''" seats]
    new_student_ok [of "literal ''s1''" "literal ''John''"]
  by (simp add: disk_ok_def demo_disk_def demo_student_def demo_course_def) (simp add: c_limits)

lemma demo_disk_courses_dat [simp]: "courses_dat (demo_disk seats) = Some 0"
  by (simp add: demo_disk_def)

lemma demo_disk_view:
  "students_of (demo_disk seats) ''s1'' = Some (True, replicate MAX_COURSES [])"
  "courses_of (demo_disk seats) ''c1'' = Some (seats, [])"
  by (simp_all add: students_of_def courses_of_def first_of_def demo_disk_def demo_student_def demo_course_def
      read_courses_def student_view_def course_view_def roster_def)

theorem enroll_meets_spec_witness:
  "\<exists>d'. run (enroll_course (literal ''s1'') (literal ''c1'')) (demo_disk 3) = Some (0, d') \<and>
     courses_of d' ''c1'' = Some (3, [''s1''])"
  using enroll_meets_spec [of "demo_disk 3" "literal ''s1''" "literal ''c1''" 0]
  by (auto simp: demo_disk_view enrolled_state_def MAX_COURSES_def)

section \<open>Dropping\<close>

lemma remove1_first_index:
  "remove1 x xs = (case first_index (\<lambda>y. y = x) xs of None \<Rightarrow> xs | Some k \<Rightarrow> remove_at k xs)"
  by (induction xs) (auto simp: remove_at_def split: option.split)

fun drop_slot :: "string \<Rightarrow> string list \<Rightarrow> string list" where
  "drop_slot x [] = []"
| "drop_slot x (y # ys) = (if y = x then [] # ys else y # drop_slot x ys)"

lemma drop_slot_index:
  "first_index (\<lambda>y. c_str y = x) xs = Some k \<Longrightarrow> map c_str (xs[k := zero_id]) = drop_slot x (map c_str xs)"
proof (induction xs arbitrary: k)
  case (Cons y ys)
  then show ?case by (cases k) (auto split: if_splits)
qed simp

lemma drop_take_slot: "x \<notin> set ys \<Longrightarrow> [] \<in> set ys \<Longrightarrow> x \<in> set (take_slot x ys) \<and> drop_slot x (take_slot x ys) = ys"
  by (induction ys) auto

text \<open>What dropping does to the two files, and what it returns.\<close>

definition dropped_courses :: "string \<Rightarrow> string \<Rightarrow> (string \<Rightarrow> (int \<times> string list) option) \<Rightarrow> string \<Rightarrow> (int \<times> string list) option" where
  "dropped_courses sid cid courses = (case courses cid of None \<Rightarrow> courses
     | Some (seats, names) \<Rightarrow> courses(cid \<mapsto> (seats, remove1 sid names)))"

definition dropped_students :: "string \<Rightarrow> string \<Rightarrow> (string \<Rightarrow> (bool \<times> string list) option) \<Rightarrow> string \<Rightarrow> (bool \<times> string list) option" where
  "dropped_students sid cid students = (case students sid of None \<Rightarrow> students
     | Some (active, slots) \<Rightarrow> if cid \<in> set slots then students(sid \<mapsto> (active, drop_slot cid slots)) else students)"

definition drop_outcome :: "string \<Rightarrow> (bool \<times> string list) option \<Rightarrow> int" where
  "drop_outcome cid student = (case student of None \<Rightarrow> -1
     | Some (active, slots) \<Rightarrow> if cid \<in> set slots then 0 else ERR_NOT_ENROLLED)"

lemma unenroll_student_outcome:
  assumes d: "disk_ok d" and sid: "fits MAX_ID sid" and cid: "fits MAX_ID cid"
  shows "\<exists>d'. run (unenroll_student sid cid) d = Some (drop_outcome (c_str cid) (students_of d (c_str sid)), d') \<and>
    students_of d' = dropped_students (c_str sid) (c_str cid) (students_of d) \<and> courses_of d' = courses_of d"
proof (cases "case_option None (first_index (\<lambda>s. c_str (sc_id s) = c_str sid)) (students_dat d)")
  case None
  then have "students_of d (c_str sid) = None"
    by (auto simp: students_of_def first_of_def split: option.splits)
  moreover have "run (unenroll_student sid cid) d = Some (-1, d)"
  proof (cases "students_dat d")
    case (Some ss)
    with d have ss: "list_all student_ok ss" by (simp add: disk_ok_def)
    then show ?thesis using Some None
      by (simp add: unenroll_student_def scan_ok [OF ss student_match [OF sid]])
  qed (simp add: unenroll_student_def)
  ultimately show ?thesis by (simp add: drop_outcome_def dropped_students_def)
next
  case (Some k)
  then obtain ss where ss: "students_dat d = Some ss" and k: "first_index (\<lambda>s. c_str (sc_id s) = c_str sid) ss = Some k"
    by (auto split: option.splits)
  have ok: "list_all student_ok ss" using d ss by (simp add: disk_ok_def)
  let ?s = "ss ! k"
  have k': "k < length ss" "c_str (sc_id ?s) = c_str sid" using first_index_Some [OF k] by blast+
  then have "list_all (field MAX_ID) (enrolled_courses ?s)" using ok by (simp add: list_all_length student_ok_def)
  note clear = clear_first_slot_total [OF cid this]
  have st: "students_of d (c_str sid) = Some (sc_active ?s \<noteq> 0, map c_str (enrolled_courses ?s))"
    by (rule students_of_index [OF ss k])
  note sec = unenroll_student_def ss scan_ok [OF ok student_match [OF sid]] k clear
  show ?thesis
  proof (cases "first_index (\<lambda>x. c_str x = c_str cid) (enrolled_courses ?s)")
    case None
    then have "c_str cid \<notin> set (map c_str (enrolled_courses ?s))"
      unfolding in_map_c_str by (simp add: first_index_None)
    then show ?thesis using st None by (simp add: sec drop_outcome_def dropped_students_def)
  next
    case (Some j)
    then have has: "c_str cid \<in> set (map c_str (enrolled_courses ?s))"
      unfolding in_map_c_str using first_index_Some [OF Some] nth_mem by blast
    let ?s' = "?s\<lparr>enrolled_courses := (enrolled_courses ?s)[j := zero_id]\<rparr>"
    let ?d = "d\<lparr>students_dat := Some (ss[k := ?s'])\<rparr>"
    have "students_of ?d = (students_of d)(c_str sid \<mapsto> student_view ?s')"
      by (rule students_of_update [OF ss k]) (use k' in simp_all)
    then show ?thesis using st has Some drop_slot_index [OF Some]
      by (simp add: sec drop_outcome_def dropped_students_def student_view_def)
  qed
qed

lemma unenroll_outcome:
  assumes d: "disk_ok d" and sid: "fits MAX_ID sid" and cid: "fits MAX_ID cid" and fd: "courses_dat d = Some fd"
  shows "\<exists>d'. run (unenroll_course sid cid) d = Some (drop_outcome (c_str cid) (students_of d (c_str sid)), d') \<and>
    students_of d' = dropped_students (c_str sid) (c_str cid) (students_of d) \<and>
    courses_of d' = dropped_courses (c_str sid) (c_str cid) (courses_of d)"
proof -
  let ?cs = "read_courses fd d" and ?g = "\<lambda>c. the (unenroll_in_course sid c)"
  have cs: "list_all course_ok ?cs" by (rule disk_ok_courses [OF d])
  have g: "unenroll_in_course sid c = Some (?g c) \<and> course_ok (?g c) \<and> cc_id (?g c) = cc_id c \<and>
      course_view (?g c) = (total_seats c, remove1 (c_str sid) (roster c))" if "course_ok c" for c
    using unenroll_in_course_total [OF sid that] by (auto simp: course_view_def remove1_first_index)
  have rw: "rewrite_first (\<lambda>c. strcmp_eq (cc_id c) cid) (unenroll_in_course sid) ?cs = Some (
      case first_index (\<lambda>c. c_str (cc_id c) = c_str cid) ?cs of None \<Rightarrow> (-1, ?cs)
      | Some k \<Rightarrow> (0, ?cs[k := ?g (?cs ! k)]))"
    by (rule rewrite_first_total [where P = "\<lambda>c. c_str (cc_id c) = c_str cid"])
      (use cs course_match [OF cid] g in \<open>auto simp: list_all_iff\<close>)
  define cs' where "cs' = (case first_index (\<lambda>c. c_str (cc_id c) = c_str cid) ?cs of None \<Rightarrow> ?cs
      | Some k \<Rightarrow> ?cs[k := ?g (?cs ! k)])"
  have ok': "list_all course_ok cs'"
  proof (cases "first_index (\<lambda>c. c_str (cc_id c) = c_str cid) ?cs")
    case (Some k)
    then have "k < length ?cs" using first_index_Some by fast
    then have "course_ok (?cs ! k)" using cs by (simp add: list_all_length)
    then show ?thesis using cs g Some by (simp add: cs'_def list_all_update)
  qed (simp add: cs'_def cs)
  let ?d = "write_courses fd cs' d"
  have "run (unenroll_course sid cid) d = run (unenroll_student sid cid) ?d"
    using rw fd by (simp add: unenroll_course_def with_courses_def open_courses_def unenroll_section_def cs'_def
        split: option.split)
  moreover have "students_of ?d = students_of d" by (simp add: students_of_def)
  moreover have "courses_of ?d = dropped_courses (c_str sid) (c_str cid) (courses_of d)"
  proof (cases "first_index (\<lambda>c. c_str (cc_id c) = c_str cid) ?cs")
    case None
    then have "courses_of d (c_str cid) = None" using fd by (simp add: courses_of_def first_of_def)
    then show ?thesis using None fd read_write_courses [OF d fd]
      by (simp add: dropped_courses_def cs'_def courses_of_def)
  next
    case (Some k)
    have k: "k < length ?cs" "c_str (cc_id (?cs ! k)) = c_str cid" using first_index_Some [OF Some] by blast+
    then have c: "course_ok (?cs ! k)" using cs by (simp add: list_all_length)
    have "courses_of ?d = (courses_of d)(c_str cid \<mapsto> course_view (?g (?cs ! k)))"
      using courses_of_write [OF d fd Some, of "?g (?cs ! k)"] g [OF c] k Some by (simp add: cs'_def)
    then show ?thesis using courses_of_index [OF fd Some] g [OF c] by (simp add: dropped_courses_def)
  qed
  ultimately show ?thesis
    using unenroll_student_outcome [OF write_courses_ok [OF d ok', of fd] sid cid] by simp
qed

text \<open>A student who enrolled successfully and then drops the course leaves the files as they
  were: the drop returns 0, and the slots of every student and the roster of every course are
  the ones from before.\<close>

theorem drop_undoes_enroll:
  assumes d: "disk_ok d" and sid: "fits MAX_ID sid" and cid: "fits MAX_ID cid"
    and e: "run (enroll_course sid cid) d = Some (0, d1)"
  shows "\<exists>d2. run (unenroll_course sid cid) d1 = Some (0, d2) \<and>
    students_of d2 = students_of d \<and> courses_of d2 = courses_of d"
proof -
  let ?s = "c_str sid" and ?c = "c_str cid"
  define ret where "ret = enroll_outcome ?s ?c (students_of d ?s) (courses_of d ?c) (courses_dat d \<noteq> None)"
  obtain d' where d': "enroll_section sid cid d = Some (ret, d')"
    "if ret = 0 then (students_of d', courses_of d') = enrolled_state ?s ?c (students_of d, courses_of d) else d' = d"
    using enroll_section_outcome [OF d sid cid ret_def] by blast
  have r: "ret = 0" "d' = d1" using e d'(1) by (simp_all add: enroll_course_def)
  have d1: "disk_ok d1" using enroll_section_ok [OF sid cid d] d'(1) r(2) by auto
  obtain slots where s: "students_of d ?s = Some (True, slots)" "?c \<notin> set slots" "[] \<in> set slots"
    using r(1) ret_def by (cases "students_of d ?s") (auto simp: c_errors split: if_splits)
  have has: "courses_dat d \<noteq> None"
    using r(1) ret_def s by (auto simp: c_errors split: if_splits)
  then obtain seats names where c: "courses_of d ?c = Some (seats, names)" "?s \<notin> set names"
    using r(1) ret_def s by (cases "courses_of d ?c") (auto simp: c_errors split: if_splits)
  have d1s: "students_of d1 = (students_of d)(?s \<mapsto> (True, take_slot ?c slots))"
    and d1c: "courses_of d1 = (courses_of d)(?c \<mapsto> (seats, names @ [?s]))"
    using d'(2) r s(1) c(1) by (simp_all add: enrolled_state_def)
  have "courses_of d1 ?c \<noteq> None" using d1c by simp
  then obtain fd where fd: "courses_dat d1 = Some fd"
    by (auto simp: courses_of_def first_of_def split: option.splits)
  note undo = drop_take_slot [OF s(2,3)]
  obtain d2 where "run (unenroll_course sid cid) d1 = Some (drop_outcome ?c (students_of d1 ?s), d2)"
    "students_of d2 = dropped_students ?s ?c (students_of d1)" "courses_of d2 = dropped_courses ?s ?c (courses_of d1)"
    using unenroll_outcome [OF d1 sid cid fd] by blast
  moreover have "drop_outcome ?c (students_of d1 ?s) = 0" using d1s undo by (simp add: drop_outcome_def)
  moreover have "dropped_students ?s ?c (students_of d1) = students_of d"
    using d1s undo s(1) by (simp add: dropped_students_def map_upd_triv)
  moreover have "dropped_courses ?s ?c (courses_of d1) = courses_of d"
    using d1c c by (simp add: dropped_courses_def map_upd_triv remove1_append)
  ultimately show ?thesis by auto
qed

lemma demo_enroll:
  "\<exists>d'. run (enroll_course (literal ''s1'') (literal ''c1'')) (demo_disk 3) = Some (0, d')"
  using enroll_section_outcome [of "demo_disk 3" "literal ''s1''" "literal ''c1''" 0]
  by (auto simp: enroll_course_def demo_disk_view MAX_COURSES_def)

theorem drop_undoes_enroll_witness:
  "\<exists>d1 d2. run (enroll_course (literal ''s1'') (literal ''c1'')) (demo_disk 3) = Some (0, d1) \<and>
     run (unenroll_course (literal ''s1'') (literal ''c1'')) d1 = Some (0, d2) \<and> courses_of d2 ''c1'' = Some (3, [])"
proof -
  obtain d1 where d1: "run (enroll_course (literal ''s1'') (literal ''c1'')) (demo_disk 3) = Some (0, d1)"
    using demo_enroll by blast
  then show ?thesis
    using drop_undoes_enroll [OF _ _ _ d1] demo_disk_view(2) [of 3] by auto
qed

section \<open>Where the files go wrong\<close>

text \<open>The arguments that the functions themselves do not check.\<close>

lemma run_with_courses:
  "courses_dat d = Some fd \<Longrightarrow> run (with_courses creat failure body) d =
    (case body fd d of None \<Rightarrow> None | Some (p, d') \<Rightarrow> run p d')"
  by (simp add: with_courses_def open_courses_def)

text \<open>A course may be created with more seats than its record has places for students. When
  such a course has 100 students, the next student who enrols makes the server write behind the
  array: nothing bounds the count but the number of seats.\<close>

theorem oversized_course_overflows:
  assumes "disk_ok (d\<lparr>course_files := []\<rparr>\<lparr>courses_dat := None\<rparr>)" "fits MAX_ID sid" "fits MAX_ID cid"
    and "courses_dat d = Some fd" "read_courses fd d = [c]" "c_str (cc_id c) = c_str cid" "terminated (cc_id c)"
    and "list_all (field MAX_ID) (enrolled_students c)" "length (enrolled_students c) = MAX_USERS"
    and "enrolled_count c = int MAX_USERS" "int MAX_USERS < total_seats c" "c_str sid \<notin> set (roster c)"
    and "students_of d (c_str sid) = Some (True, slots)" "c_str cid \<notin> set slots" "[] \<in> set slots"
  shows "run (enroll_course sid cid) d = None"
proof -
  have "enroll_in_course sid cid [c] = None"
  proof -
    have "strcmp_eq (cc_id c) cid = Some True"
      using assms(6) strcmp_eq_terminated [OF assms(7) fits_terminated [OF assms(3)]] by simp
    moreover have "find_enrolled sid 0 (nat (enrolled_count c)) (enrolled_students c) = Some None"
    proof -
      have "c_str x \<noteq> c_str sid" if "x \<in> set (take (nat (enrolled_count c)) (enrolled_students c))" for x
        using assms(12) that unfolding roster_def in_map_c_str by blast
      then show ?thesis
        using find_enrolled_total [OF assms(2,8), of "nat (enrolled_count c)" 0] assms(9,10)
          first_index_None [of "\<lambda>x. c_str x = c_str sid" "take (nat (enrolled_count c)) (enrolled_students c)"]
        by simp
    qed
    moreover have "store (enrolled_count c) x (enrolled_students c) = None" for x
      using assms(9,10) by (simp add: store_def)
    ultimately show ?thesis using assms(2,10,11) by (simp add: enroll_in_course_def)
  qed
  moreover obtain ss where ss: "students_dat d = Some ss"
    using assms(13) by (auto simp: students_of_def first_of_def split: option.splits)
  moreover obtain k where k: "first_index (\<lambda>s. c_str (sc_id s) = c_str sid) ss = Some k"
    using assms(13) ss by (auto simp: students_of_def first_of_def)
  moreover have ok: "list_all student_ok ss" using assms(1) ss by (simp add: disk_ok_def)
  moreover have st: "(sc_active (ss ! k) \<noteq> 0, map c_str (enrolled_courses (ss ! k))) = (True, slots)"
    using students_of_index [OF ss k] assms(13) by simp
  moreover have "student_ok (ss ! k)" using first_index_Some [OF k] ok by (simp add: list_all_length)
  then obtain slot where sl: "find_slot cid 0 (enrolled_courses (ss ! k)) None =
      Some (c_str cid \<in> set (map c_str (enrolled_courses (ss ! k))), slot)"
    "c_str cid \<notin> set (map c_str (enrolled_courses (ss ! k))) \<longrightarrow>
      slot = first_index (\<lambda>x. c_str x = []) (enrolled_courses (ss ! k))"
    using slot_lookup [OF assms(3)] by blast
  have no: "c_str cid \<notin> set (map c_str (enrolled_courses (ss ! k)))"
    using st assms(14) by (simp del: set_map)
  have "find_slot cid 0 (enrolled_courses (ss ! k)) None = Some (False, slot)"
    "slot = first_index (\<lambda>x. c_str x = []) (enrolled_courses (ss ! k))"
    using sl no by (simp_all del: set_map)
  moreover have "first_index (\<lambda>x. c_str x = []) (enrolled_courses (ss ! k)) \<noteq> None"
    using assms(15) st unfolding first_index_None by (auto simp: in_map_c_str simp del: set_map)
  ultimately show ?thesis
    using assms(4,5) by (auto simp: enroll_course_def enroll_section_def
        scan_ok [OF ok student_match [OF assms(2)]])
qed

definition crowded_course :: Course_c where
  "crowded_course = (demo_course 101)\<lparr>enrolled_count := 100,
     enrolled_students := replicate MAX_USERS (c_field MAX_ID (literal ''s2''))\<rparr>"

theorem oversized_course_overflows_witness:
  "run (enroll_course (literal ''s1'') (literal ''c1'')) ((demo_disk 101)\<lparr>course_files := [[crowded_course]]\<rparr>) = None"
proof (rule oversized_course_overflows [where fd = 0 and c = crowded_course and slots = "replicate MAX_COURSES []"])
  show "disk_ok ((demo_disk 101)\<lparr>course_files := [[crowded_course]], course_files := [], courses_dat := None\<rparr>)"
    using demo_disk_ok [of 3] by (simp add: disk_ok_def demo_disk_def)
  have s2: "fits MAX_ID (literal ''s2'')" by (simp add: fits_literal c_limits)
  show "c_str (literal ''s1'') \<notin> set (roster crowded_course)"
    by (simp add: roster_def crowded_course_def s2)
  show "list_all (field MAX_ID) (enrolled_students crowded_course)"
    by (simp add: crowded_course_def s2 list_all_iff)
  show "students_of ((demo_disk 101)\<lparr>course_files := [[crowded_course]]\<rparr>) (c_str (literal ''s1'')) =
      Some (True, replicate MAX_COURSES [])"
    using demo_disk_view(1) [of 101] by (simp add: students_of_def demo_disk_def)
qed (simp_all add: demo_disk_def crowded_course_def demo_course_def read_courses_def MAX_USERS_def MAX_COURSES_def
    field_terminated [OF c_field_ok(1)])

text \<open>Making a course smaller forgets the students behind the new last seat in the course's record
  but not in theirs: a student who was cut off still has the course in her slots, cannot enrol
  again (the answer is "already enrolled") and is not on the roster.\<close>

theorem shrinking_strands_students:
  assumes d: "disk_ok d" and sid: "fits MAX_ID sid" and cid: "fits MAX_ID cid" and name: "fits MAX_NAME name"
    and c: "courses_of d (c_str cid) = Some (seats, names)" "0 \<le> new_seats" "new_seats < int (length names)"
    and s: "students_of d (c_str sid) = Some (True, slots)" "c_str cid \<in> set slots"
    and cut: "c_str sid \<notin> set (take (nat new_seats) names)"
  shows "\<exists>d1. run (update_course_c cid name new_seats) d = Some (0, d1) \<and>
    courses_of d1 (c_str cid) = Some (new_seats, take (nat new_seats) names) \<and>
    students_of d1 (c_str sid) = Some (True, slots) \<and>
    run (enroll_course sid cid) d1 = Some (ERR_ALREADY_ENROLLED, d1)"
proof -
  obtain fd where fd: "courses_dat d = Some fd"
    using c(1) by (auto simp: courses_of_def first_of_def split: option.splits)
  let ?cs = "read_courses fd d"
  have cs: "list_all course_ok ?cs" by (rule disk_ok_courses [OF d])
  obtain k where k: "first_index (\<lambda>c. c_str (cc_id c) = c_str cid) ?cs = Some k"
    using c(1) fd by (auto simp: courses_of_def first_of_def)
  let ?c = "?cs ! k"
  have k': "k < length ?cs" "c_str (cc_id ?c) = c_str cid" using first_index_Some [OF k] by blast+
  then have ok: "course_ok ?c" using cs by (simp add: list_all_length)
  have names: "names = roster ?c" "int (length names) = enrolled_count ?c"
    using c(1) courses_of_index [OF fd k] length_roster [OF ok] ok by (auto simp: course_ok_def)
  define c' where "c' = ?c\<lparr>cc_name := c_field MAX_NAME name, total_seats := new_seats, enrolled_count := new_seats,
    enrolled_students := take (nat new_seats) (enrolled_students ?c) @
      replicate (length (enrolled_students ?c) - nat new_seats) zero_id\<rparr>"
  have new: "shrink_course new_seats (?c\<lparr>cc_name := c_field MAX_NAME name, total_seats := new_seats\<rparr>) = Some c'"
    using c(2,3) names(2) by (simp add: shrink_course_def c'_def)
  have seats: "new_seats \<le> int MAX_USERS" using c(3) names(2) ok by (auto simp: course_ok_def max_def split: if_splits)
  have c'_ok: "course_ok c'"
    using shrink_course_ok [OF ok c(2) seats, of "c_field MAX_NAME name"] name new by simp
  have c'_id: "c_str (cc_id c') = c_str cid" using k'(2) by (simp add: c'_def)
  let ?d = "write_courses fd (?cs[k := c']) d"
  have "rewrite_first (\<lambda>c. strcmp_eq (cc_id c) cid) (\<lambda>c. strncpy MAX_NAME name \<bind> (\<lambda>name.
      shrink_course new_seats (c\<lparr>cc_name := name, total_seats := new_seats\<rparr>))) ?cs = Some (0, ?cs[k := c'])"
    using k new name by (simp add: rewrite_first_def scan_ok [OF cs course_match [OF cid]])
  then have "run (update_course_c cid name new_seats) d = Some (0, ?d)"
    using fd by (simp add: update_course_c_def run_with_courses update_course_section_def)
  moreover have co: "courses_of ?d (c_str cid) = Some (new_seats, take (nat new_seats) names)"
  proof -
    have "roster c' = take (nat new_seats) names"
      using c(2,3) names ok by (simp add: roster_def c'_def take_map min_def course_ok_def)
    then show ?thesis using courses_of_write [OF d fd k c'_id] by (simp add: course_view_def c'_def)
  qed
  moreover have st: "students_of ?d (c_str sid) = Some (True, slots)" using s(1) by (simp add: students_of_def)
  moreover have "run (enroll_course sid cid) ?d = Some (ERR_ALREADY_ENROLLED, ?d)"
  proof -
    have ok': "disk_ok ?d" using d cs c'_ok by (intro write_courses_ok list_all_update)
    show ?thesis
      using enroll_section_outcome [OF ok' sid cid refl] st s(2)
      by (simp add: enroll_course_def c_errors)
  qed
  ultimately show ?thesis by blast
qed

theorem shrinking_strands_students_witness:
  "\<exists>d d1. run (enroll_course (literal ''s1'') (literal ''c1'')) (demo_disk 3) = Some (0, d) \<and>
     run (update_course_c (literal ''c1'') (literal ''OS'') 0) d = Some (0, d1) \<and>
     courses_of d1 ''c1'' = Some (0, []) \<and>
     run (enroll_course (literal ''s1'') (literal ''c1'')) d1 = Some (ERR_ALREADY_ENROLLED, d1)"
proof -
  have ok: "disk_ok (demo_disk 3)" by simp
  obtain d where d: "run (enroll_course (literal ''s1'') (literal ''c1'')) (demo_disk 3) = Some (0, d)"
    using demo_enroll by blast
  have e: "enroll_section (literal ''s1'') (literal ''c1'') (demo_disk 3) = Some (0, d)"
    using d by (simp add: enroll_course_def)
  have "disk_ok d" using enroll_section_ok [OF demo_ids(1,2) ok] e by auto
  moreover have "students_of d ''s1'' = Some (True, take_slot ''c1'' (replicate MAX_COURSES []))"
    "courses_of d ''c1'' = Some (3, [''s1''])"
    using enroll_section_outcome [OF ok demo_ids(1,2) refl] e
    by (auto simp: demo_disk_view enrolled_state_def MAX_COURSES_def)
  moreover have "''c1'' \<in> set (take_slot ''c1'' (replicate MAX_COURSES []))"
    by (rule drop_take_slot [THEN conjunct1]) (simp_all add: MAX_COURSES_def)
  ultimately show ?thesis
    using d shrinking_strands_students [of d "literal ''s1''" "literal ''c1''" "literal ''OS''" 3 "[''s1'']" 0] by auto
qed

text \<open>One thread of two executes its next section.\<close>

lemma first_thread: "f s = Some (p, s') \<Longrightarrow> interleave ([Step f, q], s) ([p, q], s')"
  using interleave.critical [of 0 "[Step f, q]" f s p s'] by simp

lemma second_thread: "f s = Some (p, s') \<Longrightarrow> interleave ([q, Step f], s) ([q, p], s')"
  using interleave.critical [of 1 "[q, Step f]" f s p s'] by simp

lemma unenroll_all_run:
  assumes "disk_ok d" "fits MAX_ID i"
  shows "\<exists>d'. interleave ([q, unenroll_all i ret], d) ([q, Done ret], d') \<and> disk_ok d' \<and>
    courses_dat d' = courses_dat d \<and> course_files d' = course_files d"
proof (cases "students_dat d")
  case None
  then show ?thesis using assms(1)
    by (auto simp: unenroll_all_def atomically_def intro!: exI [of _ d] second_thread)
next
  case (Some ss)
  with assms(1) have ss: "list_all student_ok ss" by (simp add: disk_ok_def)
  let ?ss = "map (\<lambda>s. s\<lparr>enrolled_courses :=
      map (\<lambda>x. if c_str x = c_str i then zero_id else x) (enrolled_courses s)\<rparr>) ss"
  have "disk_ok (d\<lparr>students_dat := Some ?ss\<rparr>)"
    using ss by (intro disk_ok_students assms(1)) (auto simp: list_all_iff student_ok_def)
  moreover have "interleave ([q, unenroll_all i ret], d) ([q, Done ret], d\<lparr>students_dat := Some ?ss\<rparr>)"
    unfolding unenroll_all_def atomically_def
    by (rule second_thread) (simp add: Some clear_students_total [OF assms(2) ss])
  ultimately show ?thesis by (intro exI [of _ "d\<lparr>students_dat := Some ?ss\<rparr>"]) simp
qed

text \<open>A course added while another thread removes one can be lost although both calls return 0:
  the first thread opens the file before it waits for the semaphore, the second replaces the
  file by a copy, and the first then appends to the file that no longer has a name.\<close>

theorem removal_loses_added_course:
  assumes d: "disk_ok d" and new: "fits MAX_ID new" "fits MAX_NAME name" "fits MAX_ID fac" "seats \<le> int MAX_USERS"
    and old: "fits MAX_ID old" "courses_of d (c_str old) \<noteq> None"
    and "courses_of d (c_str new) = None" and can: "can_create d"
  shows "\<exists>d'. interleave\<^sup>*\<^sup>* ([add_course new name fac seats, remove_course_c old], d) ([Done 0, Done 0], d') \<and>
    courses_of d' (c_str new) = None"
proof -
  obtain fd where fd: "courses_dat d = Some fd"
    using old(2) by (auto simp: courses_of_def first_of_def split: option.splits)
  let ?cs = "read_courses fd d" and ?new = "length (course_files d)"
  have cs: "list_all course_ok ?cs" by (rule disk_ok_courses [OF d])
  have lt: "fd < ?new" using d fd by (simp add: disk_ok_def)
  let ?others = "filter (\<lambda>c. c_str (cc_id c) \<noteq> c_str old) ?cs"
  let ?d1 = "d\<lparr>courses_dat := Some ?new, course_files := course_files d @ [?others]\<rparr>"
  let ?add = "Step (add_course_section new name fac seats fd) :: (disk, int) prog"
  have found: "first_index (\<lambda>c. c_str (cc_id c) = c_str old) ?cs \<noteq> None"
    using old(2) fd by (auto simp: courses_of_def first_of_def)
  have absent: "\<forall>c \<in> set ?cs. c_str (cc_id c) \<noteq> c_str new"
    using assms(8) fd by (simp add: courses_of_def first_of_def first_index_None)
  have s1: "interleave ([add_course new name fac seats, remove_course_c old], d) ([?add, remove_course_c old], d)"
    unfolding add_course_def with_courses_def by (rule first_thread) (simp add: open_courses_def fd)
  have s2: "interleave ([?add, remove_course_c old], d) ([?add, Step (remove_course_section old fd)], d)"
    unfolding remove_course_c_def with_courses_def by (rule second_thread) (simp add: open_courses_def fd)
  have "copy_others (\<lambda>c. strcmp_eq (cc_id c) old) ?cs = Some ?others"
    using cs by (intro copy_others_total course_match old) (simp add: list_all_iff)
  then have s3: "interleave ([?add, Step (remove_course_section old fd)], d) ([?add, unenroll_all old 0], ?d1)"
    using found can by (intro second_thread)
      (auto simp: remove_course_section_def scan_ok [OF cs course_match [OF old(1)]])
  have d1: "disk_ok ?d1" using d cs by (simp add: disk_ok_def list_all_iff)
  obtain d2 where s4: "interleave ([?add, unenroll_all old 0], ?d1) ([?add, Done 0], d2)"
    and d2: "disk_ok d2" "courses_dat d2 = Some ?new" "course_files d2 = course_files d @ [?others]"
    using unenroll_all_run [OF d1 old(1), of ?add 0] by auto
  have same: "read_courses fd d2 = ?cs" using d2(3) lt by (simp add: read_courses_def nth_append)
  have "first_index (\<lambda>c. c_str (cc_id c) = c_str new) ?cs = None" using absent by (simp add: first_index_None)
  then obtain cs' where "add_course_section new name fac seats fd d2 = Some (Done 0, write_courses fd cs' d2)"
    using cs by (simp add: add_course_section_def same scan_ok [OF cs course_match [OF new(1)]] new)
  note s5 = first_thread [where f = "add_course_section new name fac seats fd", OF this]
  have "read_courses ?new (write_courses fd cs' d2) = ?others"
    using d2(3) lt by (simp add: read_courses_def write_courses_def nth_append)
  then have "courses_of (write_courses fd cs' d2) (c_str new) = None"
    using absent d2(2) by (simp add: courses_of_def first_of_def first_index_None)
  then show ?thesis
    using s1 s2 s3 s4 s5 by (meson converse_rtranclp_into_rtranclp rtranclp.rtrancl_refl)
qed

theorem removal_loses_added_course_witness:
  "\<exists>d'. interleave\<^sup>*\<^sup>* ([add_course (literal ''c2'') (literal ''DB'') (literal ''f1'') 5, remove_course_c (literal ''c1'')],
      demo_disk 3) ([Done 0, Done 0], d') \<and> courses_of d' ''c2'' = None"
proof -
  have "courses_of (demo_disk 3) ''c2'' = None"
    by (simp add: courses_of_def first_of_def demo_disk_def read_courses_def demo_course_def)
  moreover have "fits MAX_ID (literal ''c2'')" "fits MAX_NAME (literal ''DB'')" "(5::int) \<le> int MAX_USERS"
    by (simp_all add: fits_literal c_limits)
  ultimately show ?thesis
    using removal_loses_added_course [of "demo_disk 3" "literal ''c2''" "literal ''DB''" "literal ''f1''" 5 "literal ''c1''"]
    by (simp add: demo_disk_view) (simp add: demo_disk_def)
qed

section \<open>First start\<close>

text \<open>The accounts of the user file, as texts.\<close>

definition accounts_c :: "disk \<Rightarrow> (string \<times> Role_c \<times> string) list" where
  "accounts_c d = map (\<lambda>u. (c_str (uc_id u), uc_role u, c_str (uc_password u))) (case_option [] id (users_dat d))"

text \<open>On an empty directory the first start creates the three accounts of the source and the
  records of the student and the lecturer, and every later start changes nothing.\<close>

theorem initial_setup_creates_accounts:
  "\<exists>d. run initial_setup no_files = Some ((), d) \<and>
     accounts_c d = [(''admin1'', ADMIN, ''adminpass''), (''s1'', STUDENT, ''pass1''), (''f1'', FACULTY, ''pass2'')] \<and>
     students_of d = [''s1'' \<mapsto> (True, replicate MAX_COURSES [])] \<and> disk_ok d \<and>
     run initial_setup d = Some ((), d)"
proof -
  have ids: "fits MAX_ID (literal ''admin1'')" "fits MAX_PASS (literal ''adminpass'')" "fits MAX_PASS (literal ''pass1'')"
    "fits MAX_PASS (literal ''pass2'')" "fits MAX_NAME (literal ''Dr. Smith'')"
    by (simp_all add: fits_literal c_limits)
  let ?d = "no_files\<lparr>users_dat := Some
      [\<lparr>uc_id = c_field MAX_ID (literal ''admin1''), uc_role = ADMIN, uc_password = c_field MAX_PASS (literal ''adminpass'')\<rparr>,
       \<lparr>uc_id = c_field MAX_ID (literal ''s1''), uc_role = STUDENT, uc_password = c_field MAX_PASS (literal ''pass1'')\<rparr>,
       \<lparr>uc_id = c_field MAX_ID (literal ''f1''), uc_role = FACULTY, uc_password = c_field MAX_PASS (literal ''pass2'')\<rparr>],
     students_dat := Some [demo_student],
     faculty_dat := Some [\<lparr>fc_id = c_field MAX_ID (literal ''f1''), fc_name = c_field MAX_NAME (literal ''Dr. Smith'')\<rparr>]\<rparr>"
  have "run initial_setup no_files = Some ((), ?d)"
    by (simp add: initial_setup_def run_andthen add_user_def add_student_def add_faculty_def no_files_def ids
        demo_student_def)
  moreover have "students_of ?d = [''s1'' \<mapsto> (True, replicate MAX_COURSES [])]"
    by (rule ext) (simp add: students_of_def first_of_def demo_student_def student_view_def)
  moreover have "disk_ok ?d"
    using demo_disk_ok [of 3] by (simp add: disk_ok_def demo_disk_def no_files_def user_ok_def faculty_ok_def ids)
  moreover have "run initial_setup ?d = Some ((), ?d)" by (simp add: initial_setup_def)
  ultimately show ?thesis by (auto simp: accounts_c_def ids)
qed

end
