(* ===== verification/Legacy_Listings.thy ===== *)
theory Legacy_Listings
  imports Legacy_Views Legacy_Correctness
begin

text \<open>
  The listings of the older program on well-formed files: no view overruns its buffer or reads
  an unterminated text, whatever the allocator does and whatever other threads do between its
  sections, and the list of a course's students is complete and in order.
\<close>

section \<open>Lines\<close>

lemma course_line_total: "course_ok c \<Longrightarrow> \<exists>l. course_line n c = Some (Some l)"
  by (auto simp: course_line_def course_ok_def field_terminated)

lemma faculty_course_line_total: "course_ok c \<Longrightarrow> fits MAX_ID i \<Longrightarrow> \<exists>l. faculty_course_line i n c = Some l"
  by (auto simp: faculty_course_line_def course_ok_def field_terminated strcmp_field [where m = MAX_ID])

lemma student_line_total: "student_ok s \<Longrightarrow> \<exists>l. student_line n s = Some (Some l)"
  by (auto simp: student_line_def student_ok_def field_terminated)

lemma faculty_line_total: "faculty_ok f \<Longrightarrow> \<exists>l. faculty_line n f = Some (Some l)"
  by (auto simp: faculty_line_def faculty_ok_def field_terminated)

lemma slot_line_total: "field MAX_ID x \<Longrightarrow> \<exists>l. slot_line n x = Some l"
  by (auto simp: slot_line_def field_terminated)

lemma enrollment_line_total: "field MAX_ID x \<Longrightarrow> \<exists>l. enrollment_line n x = Some (Some l)"
  by (auto simp: enrollment_line_def field_terminated)

lemma listing_total:
  "(\<And>n r. r \<in> set rs \<Longrightarrow> \<exists>l. line n r = Some l) \<Longrightarrow> \<exists>ls. listing line n rs = Some ls"
proof (induction rs arbitrary: n)
  case (Cons r rs)
  obtain l where l: "line n r = Some l" using Cons.prems [of r] by auto
  obtain ls ls' where "listing line n rs = Some ls" "listing line (n + 1) rs = Some ls'"
    using Cons.IH [of n] Cons.IH [of "n + 1"] Cons.prems by (metis list.set_intros(2))
  then show ?case using l by (cases l) simp_all
qed simp

lemma view_listing_total:
  assumes "\<And>n r. r \<in> set rs \<Longrightarrow> \<exists>l. line n r = Some l"
  shows "\<exists>r. view_listing alloc line none_text b rs = Some r"
proof -
  obtain ls where "listing line 1 rs = Some ls" using listing_total [of rs line 1] assms by blast
  from view_listing_text [OF this, of alloc none_text b] show ?thesis by blast
qed

lemma view_total:
  assumes "\<And>b. \<exists>r. body b = Some r"
  shows "\<exists>r. view alloc (Some h) body = Some r"
proof -
  obtain r where "body \<lparr>cb_text = snprintf 2048 h, cb_size = 2048\<rparr> = Some r" using assms by blast
  then show ?thesis by (simp add: view_def)
qed

lemma replace_text_total: "\<exists>r. replace_text alloc b s = Some r"
  using replace_text_ok [of alloc b s] by blast

section \<open>The views run safely beside the other functions\<close>

lemma courses_view_keeps:
  assumes "\<And>cs. list_all course_ok cs \<Longrightarrow> \<exists>r. body cs = Some r"
  shows "keeps_inv disk_ok (view_courses_file body)"
  unfolding view_courses_file_def
proof (rule keeps_with_courses)
  fix fd d assume d: "disk_ok d"
  then obtain r where "body (read_courses fd d) = Some r" using assms disk_ok_courses by blast
  then show "\<exists>p d'. body (read_courses fd d) \<bind> (\<lambda>r. Some (Done r, d)) = Some (p, d') \<and> disk_ok d' \<and> keeps_inv disk_ok p"
    using d by simp
qed

lemma view_all_courses_keeps: "keeps_inv disk_ok (view_all_courses alloc)"
  unfolding view_all_courses_def
  by (intro courses_view_keeps view_total view_listing_total) (auto simp: list_all_iff dest: course_line_total)

lemma view_faculty_courses_keeps: "fits MAX_ID i \<Longrightarrow> keeps_inv disk_ok (view_faculty_courses alloc i)"
  unfolding view_faculty_courses_def text_of_terminated [OF fits_terminated] option.map
  by (intro courses_view_keeps view_total view_listing_total)
    (auto simp: list_all_iff dest: faculty_course_line_total)

lemma enrollments_body:
  assumes "fits MAX_ID i" "list_all course_ok cs"
  shows "enrollments_in alloc i cs b = (case first_index (\<lambda>c. c_str (cc_id c) = c_str i) cs of
      None \<Rightarrow> replace_text alloc b (ln ''Course not found'')
    | Some k \<Rightarrow> view_listing alloc enrollment_line (ln ''No students enrolled.'') b
        (take (nat (enrolled_count (cs ! k))) (enrolled_students (cs ! k))))"
proof (cases "first_index (\<lambda>c. c_str (cc_id c) = c_str i) cs")
  case (Some k)
  then have "course_ok (cs ! k)" using first_index_Some [OF Some] assms(2) by (simp add: list_all_length)
  then have "nat (enrolled_count (cs ! k)) \<le> length (enrolled_students (cs ! k))" by (auto simp: course_ok_def)
  then show ?thesis using Some by (simp add: enrollments_in_def scan_ok [OF assms(2) course_match [OF assms(1)]])
qed (simp add: enrollments_in_def scan_ok [OF assms(2) course_match [OF assms(1)]])

lemma roster_slots:
  "list_all course_ok cs \<Longrightarrow> first_index P cs = Some k \<Longrightarrow>
    x \<in> set (take m (enrolled_students (cs ! k))) \<Longrightarrow> field MAX_ID x"
  using first_index_Some [of P cs k] by (auto simp: list_all_length course_ok_def in_set_conv_nth)

lemma view_course_enrollments_keeps: "fits MAX_ID i \<Longrightarrow> keeps_inv disk_ok (view_course_enrollments alloc i)"
  unfolding view_course_enrollments_def text_of_terminated [OF fits_terminated] option.map
proof (intro courses_view_keeps view_total)
  fix cs b assume i: "fits MAX_ID i" and cs: "list_all course_ok cs"
  show "\<exists>r. enrollments_in alloc i cs b = Some r"
    unfolding enrollments_body [OF i cs]
    by (cases "first_index (\<lambda>c. c_str (cc_id c) = c_str i) cs")
      (auto intro!: replace_text_total view_listing_total dest: enrollment_line_total roster_slots [OF cs])
qed

lemma file_view_keeps:
  assumes "\<And>d. disk_ok d \<Longrightarrow> \<exists>r. f d = Some (r, d)"
  shows "keeps_inv disk_ok (atomically f)"
  by (rule keeps_atomically) (use assms in blast)

lemma view_all_students_keeps: "keeps_inv disk_ok (view_all_students alloc)"
  unfolding view_all_students_def
proof (rule file_view_keeps)
  fix d assume d: "disk_ok d"
  have "\<exists>r. view alloc (Some (ln ''All Students:''))
      (\<lambda>b. view_listing alloc student_line (ln ''No students available.'') b ss) = Some r"
    if "list_all student_ok ss" for ss
    using that by (intro view_total view_listing_total) (auto simp: list_all_iff dest: student_line_total)
  then show "\<exists>r. (case students_dat d of None \<Rightarrow> Some (None, d)
    | Some ss \<Rightarrow> view alloc (Some (ln ''All Students:''))
      (\<lambda>b. view_listing alloc student_line (ln ''No students available.'') b ss) \<bind> (\<lambda>r. Some (r, d))) = Some (r, d)"
    using d by (cases "students_dat d") (fastforce simp: disk_ok_def)+
qed

lemma view_all_faculty_keeps: "keeps_inv disk_ok (view_all_faculty alloc)"
  unfolding view_all_faculty_def
proof (rule file_view_keeps)
  fix d assume d: "disk_ok d"
  have "\<exists>r. view alloc (Some (ln ''All Faculty:''))
      (\<lambda>b. view_listing alloc faculty_line (ln ''No faculty available.'') b fs) = Some r"
    if "list_all faculty_ok fs" for fs
    using that by (intro view_total view_listing_total) (auto simp: list_all_iff dest: faculty_line_total)
  then show "\<exists>r. (case faculty_dat d of None \<Rightarrow> Some (None, d)
    | Some fs \<Rightarrow> view alloc (Some (ln ''All Faculty:''))
      (\<lambda>b. view_listing alloc faculty_line (ln ''No faculty available.'') b fs) \<bind> (\<lambda>r. Some (r, d))) = Some (r, d)"
    using d by (cases "faculty_dat d") (fastforce simp: disk_ok_def)+
qed

lemma view_enrolled_courses_keeps: "fits MAX_ID i \<Longrightarrow> keeps_inv disk_ok (view_enrolled_courses alloc i)"
  unfolding view_enrolled_courses_def
proof (rule file_view_keeps)
  fix d assume i: "fits MAX_ID i" and d: "disk_ok d"
  let ?body = "\<lambda>ss b. scan (\<lambda>s. strcmp_eq (sc_id s) i) 0 ss \<bind> (\<lambda>found. case found of
      None \<Rightarrow> replace_text alloc b (ln ''Student not found'')
    | Some (u, s) \<Rightarrow> view_listing alloc slot_line (ln ''No courses enrolled.'') b (enrolled_courses s))"
  have "\<exists>r. ?body ss b = Some r" if ss: "list_all student_ok ss" for ss b
  proof (cases "first_index (\<lambda>s. c_str (sc_id s) = c_str i) ss")
    case None
    then show ?thesis using replace_text_total by (simp add: scan_ok [OF ss student_match [OF i]])
  next
    case (Some k)
    then have "student_ok (ss ! k)" using first_index_Some [OF Some] ss by (simp add: list_all_length)
    then have "\<exists>r. view_listing alloc slot_line (ln ''No courses enrolled.'') b (enrolled_courses (ss ! k)) = Some r"
      by (intro view_listing_total) (auto simp: student_ok_def list_all_iff dest: slot_line_total)
    then show ?thesis using Some by (simp add: scan_ok [OF ss student_match [OF i]])
  qed
  then have v: "\<exists>r. view alloc (Some (ln ''Enrolled Courses:'')) (?body ss) = Some r" if "list_all student_ok ss" for ss
    using that by (intro view_total)
  show "\<exists>r. (case students_dat d of None \<Rightarrow> Some (None, d)
    | Some ss \<Rightarrow> view alloc (Some (ln ''Enrolled Courses:'')) (?body ss) \<bind> (\<lambda>r. Some (r, d))) = Some (r, d)"
  proof (cases "students_dat d")
    case (Some ss)
    then obtain r where "view alloc (Some (ln ''Enrolled Courses:'')) (?body ss) = Some r"
      using v d by (fastforce simp: disk_ok_def)
    then show ?thesis using Some by simp
  qed simp
qed

text \<open>C32: On well-formed files every view, run with any allocator and with other threads changing the
  files between its sections, has a defined behaviour: no \<open>strcat\<close> writes past the buffer and
  no text is read past its end.\<close>

theorem views_never_overrun:
  assumes "fits MAX_ID i"
    and "v \<in> {view_all_courses alloc, view_faculty_courses alloc i, view_course_enrollments alloc i,
      view_enrolled_courses alloc i, view_all_students alloc, view_all_faculty alloc}"
  shows "keeps_inv disk_ok v \<and> (disk_ok d \<longrightarrow> (\<exists>r d'. run v d = Some (r, d') \<and> disk_ok d'))"
proof -
  have "keeps_inv disk_ok v"
    using assms(2) by (elim insertE emptyE) (simp_all only: view_all_courses_keeps view_all_students_keeps
        view_all_faculty_keeps view_faculty_courses_keeps [OF assms(1)] view_course_enrollments_keeps [OF assms(1)]
        view_enrolled_courses_keeps [OF assms(1)])
  then show ?thesis using run_keeps_inv [of disk_ok v d] by (intro conjI impI)
qed

theorem views_never_overrun_witness:
  "\<exists>r d'. run (view_enrolled_courses (\<lambda>n. n < 4096) (literal ''s1'')) (demo_disk 3) = Some (r, d') \<and> disk_ok d'"
proof -
  let ?alloc = "\<lambda>n::nat. n < 4096" and ?i = "literal ''s1''"
  have "view_enrolled_courses ?alloc ?i \<in> {view_all_courses ?alloc, view_faculty_courses ?alloc ?i,
      view_course_enrollments ?alloc ?i, view_enrolled_courses ?alloc ?i, view_all_students ?alloc,
      view_all_faculty ?alloc}"
    by (intro insertI2 insertI1)
  moreover have "disk_ok (demo_disk 3)" by simp
  ultimately show ?thesis using views_never_overrun [OF demo_ids(1), THEN conjunct2, THEN mp] by blast
qed

section \<open>The list of a course's students\<close>

lemma length_dec_nat: "n < 1000 \<Longrightarrow> length (dec_nat n) \<le> 3"
  by (subst dec_nat.simps, subst dec_nat.simps, subst dec_nat.simps) auto

lemma length_to_string: "0 \<le> n \<Longrightarrow> n < 1000 \<Longrightarrow> length (to_string n) \<le> 3"
  unfolding to_string_def using length_dec_nat [of "nat n"] by simp

text \<open>The lines of the students, numbered from \<open>n\<close>.\<close>

fun name_lines :: "int \<Rightarrow> string list \<Rightarrow> string list" where
  "name_lines n [] = []"
| "name_lines n (x # xs) = ln (to_string n @ ''. '' @ x) # name_lines (n + 1) xs"

lemma listing_enrollments:
  "list_all (field MAX_ID) xs \<Longrightarrow> 1 \<le> n \<Longrightarrow> n + int (length xs) < 1000 \<Longrightarrow>
    listing enrollment_line n xs = Some (name_lines n (map c_str xs))"
proof (induction xs arbitrary: n)
  case (Cons x xs)
  then have x: "field MAX_ID x" and n: "length (to_string n) \<le> 3" using length_to_string [of n] by simp_all
  have "length (c_str x) < 10" using field_fits [OF x] by (simp add: fits_def MAX_ID_def)
  then have "length (ln (to_string n @ ''. '' @ c_str x)) \<le> 99" using n by (simp add: ln_def)
  then have "enrollment_line n x = Some (Some (ln (to_string n @ ''. '' @ c_str x)))"
    using x by (simp add: enrollment_line_def snprintf_def field_terminated)
  then show ?case using Cons by simp
qed simp

text \<open>What \<open>view_course_enrollments\<close> answers.\<close>

definition enrollments_text :: "string \<Rightarrow> (int \<times> string list) option \<Rightarrow> string" where
  "enrollments_text cid course = (case course of
     None \<Rightarrow> ln ''Course not found''
   | Some (seats, names) \<Rightarrow> enrollments_heading cid @
       listing_text (ln ''No students enrolled.'') (name_lines 1 names))"

text \<open>When memory suffices, the list of a course's students has a heading and then one numbered
  line per student of the roster, in the order of the roster and none cut short; for an unknown
  course it says so. The files are only read.\<close>

theorem enrollments_are_complete:
  assumes d: "disk_ok d" and cid: "fits MAX_ID cid" and alloc: "\<And>n. alloc n" and has: "courses_dat d \<noteq> None"
  shows "run (view_course_enrollments alloc cid) d =
    Some (Some (enrollments_text (c_str cid) (courses_of d (c_str cid))), d)"
proof -
  obtain fd where fd: "courses_dat d = Some fd" using has by blast
  let ?cs = "read_courses fd d" and ?h = "enrollments_heading (c_str cid)"
  have cs: "list_all course_ok ?cs" by (rule disk_ok_courses [OF d])
  have "length ?h \<le> 2047" using cid by (simp add: enrollments_heading_def ln_def fits_def MAX_ID_def)
  then have h: "snprintf 2048 ?h = ?h" by (simp add: snprintf_def)
  have "\<exists>n. enrollments_in alloc cid ?cs \<lparr>cb_text = ?h, cb_size = 2048\<rparr> =
      Some (Some \<lparr>cb_text = enrollments_text (c_str cid) (courses_of d (c_str cid)), cb_size = n\<rparr>)"
  proof (cases "first_index (\<lambda>c. c_str (cc_id c) = c_str cid) ?cs")
    case None
    then have "courses_of d (c_str cid) = None" using fd by (simp add: courses_of_def first_of_def)
    then show ?thesis using None replace_text_allocated [of alloc, OF alloc]
      by (simp add: enrollments_body [OF cid cs] enrollments_text_def)
  next
    case (Some k)
    let ?c = "?cs ! k"
    have c: "course_ok ?c" using first_index_Some [OF Some] cs by (simp add: list_all_length)
    let ?xs = "take (nat (enrolled_count ?c)) (enrolled_students ?c)"
    have "list_all (field MAX_ID) ?xs" using c by (simp add: course_ok_def list_all_take)
    moreover have "length ?xs \<le> 100" using c by (auto simp: course_ok_def MAX_USERS_def)
    ultimately have "listing enrollment_line 1 ?xs = Some (name_lines 1 (roster ?c))"
      unfolding roster_def by (intro listing_enrollments) simp_all
    from view_listing_allocated [of alloc, OF alloc this, of "ln ''No students enrolled.''"
        "\<lparr>cb_text = ?h, cb_size = 2048\<rparr>"]
    show ?thesis using Some courses_of_index [OF fd Some]
      by (simp add: enrollments_body [OF cid cs] enrollments_text_def)
  qed
  then show ?thesis using fd cid alloc h
    by (auto simp: view_course_enrollments_def view_courses_file_def run_with_courses view_def fits_terminated)
qed

theorem enrollments_are_complete_witness:
  "run (view_course_enrollments (\<lambda>n. True) (literal ''c1'')) (demo_disk 3) =
    Some (Some (''Enrollments for Course c1:'' @ [CHR 0x0A] @ ''No students enrolled.'' @ [CHR 0x0A]), demo_disk 3)"
  using enrollments_are_complete [of "demo_disk 3" "literal ''c1''" "\<lambda>n. True"]
  by (simp add: demo_disk_view enrollments_text_def listing_text_def ln_def enrollments_heading_def)

text \<open>A record whose line cannot be printed makes the whole listing undefined.\<close>

lemma view_loop_undefined:
  assumes "\<And>k. alloc k" "\<And>n r. r \<in> set rs \<Longrightarrow> \<exists>l. line n r = Some (Some l)" "\<And>n. line n bad = None"
  shows "view_loop alloc line n b (rs @ [bad]) = None"
  using assms(2)
proof (induction rs arbitrary: n b)
  case (Cons r rs)
  obtain l where l: "line n r = Some (Some l)" using Cons.prems by auto
  obtain k where "append_text alloc b l = Some (Some \<lparr>cb_text = cb_text b @ l, cb_size = k\<rparr>)"
    using append_text_allocated [of alloc b l, OF assms(1)] by blast
  then show ?case using l Cons.IH [of "n + 1" "\<lparr>cb_text = cb_text b @ l, cb_size = k\<rparr>"] Cons.prems by simp
qed (simp add: assms(3))

text \<open>The functions of the store trust the texts they are given. The server passes on what it read from
  the socket, so an administrator's client that sends an id of ten bytes without a NUL (the older
  client never does) gets a record whose id has no end, and the next listing of the students reads
  behind it.\<close>

theorem unterminated_id_breaks_listing:
  assumes d: "disk_ok d" and can: "can_create d" and i: "length i = MAX_ID" "NUL \<notin> set i"
    and name: "fits MAX_NAME name" and alloc: "\<And>n. alloc n"
  shows "\<exists>d1. run (add_student i name) d = Some (0, d1) \<and> run (view_all_students alloc) d1 = None"
proof -
  let ?new = "\<lparr>sc_id = i, sc_name = c_field MAX_NAME name, sc_active = 1,
    enrolled_courses = replicate MAX_COURSES zero_id\<rparr>"
  let ?ss = "case_option [] id (students_dat d)"
  let ?d = "d\<lparr>students_dat := Some (?ss @ [?new])\<rparr>"
  have "c_str i = i" using i(2) by (rule c_str_id)
  then have "strncpy MAX_ID i = Some i" using strncpy_cuts [of MAX_ID i] i(1) by simp
  then have added: "run (add_student i name) d = Some (0, ?d)"
    using can name by (simp add: add_student_def)
  have "\<exists>l. student_line n s = Some (Some l)" if "s \<in> set ?ss" for n s
    using d that by (cases "students_dat d") (auto simp: disk_ok_def list_all_iff intro!: student_line_total)
  moreover have "student_line n ?new = None" for n
    using i(2) by (simp add: student_line_def text_of_def terminated_def)
  ultimately have "view_listing alloc student_line none b (?ss @ [?new]) = None" for none b
    using view_loop_undefined [of alloc ?ss student_line ?new, OF alloc] by (simp add: view_listing_def)
  then have "run (view_all_students alloc) ?d = None"
    using alloc by (simp add: view_all_students_def view_def)
  then show ?thesis using added by blast
qed

theorem unterminated_id_breaks_listing_witness:
  "\<exists>d1. run (add_student ''0123456789'' (literal ''Eve'')) (demo_disk 3) = Some (0, d1) \<and>
     run (view_all_students (\<lambda>n. True)) d1 = None"
proof (rule unterminated_id_breaks_listing)
  show "disk_ok (demo_disk 3)" by (rule demo_disk_ok) simp_all
  show "fits MAX_NAME (literal ''Eve'')" by (simp add: fits_literal c_limits)
qed (simp_all add: demo_disk_def MAX_ID_def)

end
