(* ===== verification/Message_Framing.thy ===== *)
theory Message_Framing
  imports C_Strings
begin

text \<open>
  Messages with a length prefix over TCP: \<^verbatim>\<open>systems/tcp/TcpServer.cpp\<close> and \<^verbatim>\<open>TcpClient.cpp\<close>, and
  the framing of the older \<^verbatim>\<open>server/server.c\<close> and \<^verbatim>\<open>client/client.c\<close>.

  TCP keeps the order of the bytes but not the boundaries of the writes. The receiving side of a
  socket is the list of the segments that are still to be read: one read returns at most as
  many bytes as it asks for, and never more than the rest of the first segment. Every
  behaviour of the network is some such list. An empty segment, or none, is the end of the
  connection or an error: the read returns no byte.
\<close>

type_synonym segments = "string list"

fun recv :: "nat \<Rightarrow> segments \<Rightarrow> string \<times> segments" where
  "recv n [] = ([], [])"
| "recv n (seg # rest) = (take n seg, if drop n seg = [] then rest else drop n seg # rest)"

section \<open>The four bytes of the prefix\<close>

text \<open>\<open>htonl\<close> of a 32 bit number, most significant byte first, and back.\<close>

definition be32 :: "nat \<Rightarrow> string" where
  "be32 n = [char_of (n div 2 ^ 24), char_of (n div 2 ^ 16), char_of (n div 2 ^ 8), char_of n]"

definition be32_value :: "string \<Rightarrow> nat" where
  "be32_value s = foldl (\<lambda>v c. 256 * v + of_char c) 0 s"

lemma length_be32 [simp]: "length (be32 n) = 4"
  by (simp add: be32_def)

lemma be32_value_be32: "n < 2 ^ 32 \<Longrightarrow> be32_value (be32 n) = n"
proof -
  assume n: "n < 2 ^ 32"
  have "n div 2 ^ 24 < 256" using n by (simp add: div_less_iff_less_mult)
  then have "n div 2 ^ 24 mod 256 = n div 2 ^ 24" by simp
  moreover have "n div 2 ^ 16 = 256 * (n div 2 ^ 24) + n div 2 ^ 16 mod 256"
    using div_mult_mod_eq [of "n div 2 ^ 16" 256] by (simp add: div_mult2_eq [symmetric])
  moreover have "n div 2 ^ 8 = 256 * (n div 2 ^ 16) + n div 2 ^ 8 mod 256"
    using div_mult_mod_eq [of "n div 2 ^ 8" 256] by (simp add: div_mult2_eq [symmetric])
  moreover have "n = 256 * (n div 2 ^ 8) + n mod 256"
    using div_mult_mod_eq [of n 256] by simp
  ultimately show ?thesis
    by (simp only: be32_value_def be32_def foldl.simps of_char_of) simp
qed

section \<open>The C++ demonstration\<close>

text \<open>The prefix is \<open>static_cast<uint32_t>(msg.size())\<close>.\<close>

definition send_message :: "string \<Rightarrow> string" where
  "send_message msg = be32 (length msg mod 2 ^ 32) @ msg"

text \<open>The loop that fills the buffer: the bytes, or none if the connection ends first.\<close>

function receive_loop :: "nat \<Rightarrow> string \<Rightarrow> segments \<Rightarrow> string option \<times> segments" where
  "receive_loop missing buf segs =
     (if missing = 0 then (Some buf, segs)
      else let (got, segs') = recv missing segs in
        if got = [] then (None, segs') else receive_loop (missing - length got) (buf @ got) segs')"
  by pat_completeness auto
termination
  by (relation "measure (\<lambda>(m, b, s). m)") auto

declare receive_loop.simps [simp del]

text \<open>
  A prefix of which fewer than four bytes arrive is completed by indeterminate bytes: \<open>None\<close>. The
  length is cast to \<open>int\<close> for the loop, so for a length of \<open>2 ^ 31\<close> or more the loop does not run
  and the buffer stays as it was made.
\<close>

definition receive_message :: "segments \<Rightarrow> (string \<times> segments) option" where
  "receive_message segs = (let (prefix, segs') = recv 4 segs in
     if prefix = [] then Some ([], segs')
     else if length prefix < 4 then None
     else let len = be32_value prefix in
       if 2 ^ 31 \<le> len then Some (replicate len NUL, segs')
       else case receive_loop len [] segs' of
         (None, segs'') \<Rightarrow> Some ([], segs'')
       | (Some buf, segs'') \<Rightarrow> Some (buf, segs''))"

definition greeting :: string where
  "greeting = ''Welcome to the TCP Demo Server! Send messages, or 'quit' to exit.''"

definition echo :: "string \<Rightarrow> string" where
  "echo msg = ''Echo: '' @ msg @ '' (length='' @ to_string (int (length msg)) @ '')''"

lemma recv_concat: "recv n segs = (got, segs') \<Longrightarrow> concat segs = got @ concat segs'"
  by (cases segs) (auto split: if_splits)

lemma recv_nonempty:
  "recv n segs = (got, segs') \<Longrightarrow> [] \<notin> set segs \<Longrightarrow> [] \<notin> set segs'"
  by (cases segs) (auto split: if_splits)

lemma recv_got: "segs \<noteq> [] \<Longrightarrow> fst (recv n segs) = take n (hd segs)"
  by (cases segs) auto

lemma receive_loop_concat: "receive_loop missing buf segs = (r, segs') \<Longrightarrow> length (concat segs') \<le> length (concat segs)"
proof (induction missing buf segs rule: receive_loop.induct)
  case (1 missing buf segs)
  show ?case
  proof (cases "missing = 0")
    case False
    obtain got rest where g: "recv missing segs = (got, rest)" by fastforce
    then have "length (concat rest) \<le> length (concat segs)" by (simp add: recv_concat)
    then show ?thesis using 1 False g by (fastforce simp: receive_loop.simps [of missing] split: if_splits)
  qed (use 1 in \<open>simp add: receive_loop.simps\<close>)
qed

text \<open>Every message takes its prefix off the stream.\<close>

lemma receive_message_shrinks:
  assumes "receive_message segs = Some (msg, segs')" "msg \<noteq> []"
  shows "length (concat segs') < length (concat segs)"
proof -
  obtain prefix rest where p: "recv 4 segs = (prefix, rest)" by fastforce
  then have l: "length (concat segs) = length prefix + length (concat rest)" by (simp add: recv_concat)
  have "prefix \<noteq> []" "length prefix \<ge> 4" using assms p by (auto simp: receive_message_def split: if_splits)
  moreover have "length (concat segs') \<le> length (concat rest)"
    using assms p by (auto simp: receive_message_def Let_def split: if_splits prod.splits option.splits
        dest: receive_loop_concat)
  ultimately show ?thesis using l by linarith
qed

text \<open>The thread of one client. \<open>running k\<close> is what the \<open>k\<close>-th test of \<open>g_running\<close> reads.\<close>

function serve_loop :: "(nat \<Rightarrow> bool) \<Rightarrow> nat \<Rightarrow> segments \<Rightarrow> string \<Rightarrow> string option" where
  "serve_loop running k segs sent =
     (if \<not> running k then Some sent
      else case receive_message segs of
        None \<Rightarrow> None
      | Some (msg, segs') \<Rightarrow>
          if msg = [] \<or> msg = ''quit'' then Some sent
          else serve_loop running (Suc k) segs' (sent @ send_message (echo msg)))"
  by pat_completeness auto
termination
  by (relation "measure (\<lambda>(r, k, segs, s). length (concat segs))") (auto dest: receive_message_shrinks)

declare serve_loop.simps [simp del]

definition handle_client :: "(nat \<Rightarrow> bool) \<Rightarrow> segments \<Rightarrow> string option" where
  "handle_client running segs = serve_loop running 0 segs (send_message greeting)"

text \<open>
  The client: it reads the greeting, then sends each non-empty line of its input and reads the
  answer. At the end of the input \<open>std::getline\<close> leaves an empty line. The inner \<open>None\<close> is
  undefined behaviour, the outer one a loop that never ends.
\<close>

partial_function (option) client_loop :: "string list \<Rightarrow> segments \<Rightarrow> string \<Rightarrow> string option option" where
  "client_loop input segs sent =
     (case (case input of [] \<Rightarrow> ([], []) | l # ls \<Rightarrow> (l, ls)) of (line, input') \<Rightarrow>
        if line = [] then client_loop input' segs sent
        else if line = ''quit'' then Some (Some (sent @ send_message line))
        else case receive_message segs of
          None \<Rightarrow> Some None
        | Some (response, segs') \<Rightarrow>
            if response = [] then Some (Some (sent @ send_message line))
            else client_loop input' segs' (sent @ send_message line))"

definition client_main :: "string list \<Rightarrow> segments \<Rightarrow> string option option" where
  "client_main input segs = (case receive_message segs of
     None \<Rightarrow> Some None | Some (w, segs') \<Rightarrow> client_loop input segs' [])"

section \<open>What framing guarantees\<close>

lemma receive_loop_ok:
  "concat segs = msg @ rest \<Longrightarrow> [] \<notin> set segs \<Longrightarrow> length msg = missing \<Longrightarrow>
    \<exists>segs'. receive_loop missing buf segs = (Some (buf @ msg), segs') \<and> concat segs' = rest \<and> [] \<notin> set segs'"
proof (induction missing buf segs arbitrary: msg rule: receive_loop.induct)
  case (1 missing buf segs)
  show ?case
  proof (cases "missing = 0")
    case True
    then show ?thesis using 1 by (auto simp: receive_loop.simps)
  next
    case False
    then obtain seg segs0 where segs: "segs = seg # segs0" using 1(2,4) by (cases segs) auto
    obtain got segs' where g: "recv missing segs = (got, segs')" by fastforce
    have got: "got = take missing seg" "got \<noteq> []" using g 1(3) False segs by auto
    have len: "length got \<le> missing" using got(1) by simp
    have c: "msg @ rest = got @ concat segs'" using recv_concat [OF g] 1(2) by simp
    then have m: "msg = got @ drop (length got) msg" "concat segs' = drop (length got) msg @ rest"
      using len 1(4) by (auto simp: append_eq_append_conv_if split: if_splits)
        (metis append_take_drop_id)
    have "\<exists>segs''. receive_loop (missing - length got) (buf @ got) segs' =
        (Some ((buf @ got) @ drop (length got) msg), segs'') \<and> concat segs'' = rest \<and> [] \<notin> set segs''"
      by (rule 1(1) [OF False g [symmetric] refl got(2)]) (use m(2) recv_nonempty [OF g 1(3)] 1(4) in simp_all)
    moreover have "receive_loop missing buf segs = receive_loop (missing - length got) (buf @ got) segs'"
      using False g got(2) by (simp add: receive_loop.simps [of missing])
    ultimately show ?thesis using m(1) by (metis append.assoc)
  qed
qed

text \<open>C31: Whatever the network does to the boundaries, a message of fewer than \<open>2 ^ 31\<close> bytes is
  received as it was sent and the stream continues right behind it, provided that the four
  bytes of its prefix arrive together.\<close>

theorem framing_roundtrip:
  assumes "concat segs = send_message msg @ rest" "[] \<notin> set segs" "4 \<le> length (hd segs)" "length msg < 2 ^ 31"
  shows "\<exists>segs'. receive_message segs = Some (msg, segs') \<and> concat segs' = rest \<and> [] \<notin> set segs'"
proof -
  obtain seg segs0 where segs: "segs = seg # segs0" using assms(1) by (cases segs) (auto simp: send_message_def be32_def)
  obtain segs' where r: "recv 4 segs = (take 4 seg, segs')" using segs by (cases "recv 4 segs") auto
  have "length msg mod 2 ^ 32 = length msg" using assms(4) by simp
  then have "concat segs = be32 (length msg) @ msg @ rest" using assms(1) by (simp add: send_message_def)
  moreover have "concat segs = take 4 seg @ concat segs'" by (rule recv_concat [OF r])
  moreover have len: "length (take 4 seg) = 4" using assms(3) segs by simp
  ultimately have p: "take 4 seg = be32 (length msg)" and c: "concat segs' = msg @ rest"
    by (metis append_eq_append_conv length_be32)+
  obtain segs'' where "receive_loop (length msg) [] segs' = (Some ([] @ msg), segs'')" "concat segs'' = rest" "[] \<notin> set segs''"
    using receive_loop_ok [OF c recv_nonempty [OF r assms(2)] refl, of "[]"] by blast
  moreover have "take 4 seg \<noteq> []" using len by fastforce
  moreover have "be32_value (take 4 seg) = length msg" using assms(4) by (simp add: p be32_value_be32)
  ultimately show ?thesis using r len assms(4) by (simp add: receive_message_def Let_def)
qed

theorem framing_roundtrip_witness:
  "\<exists>segs'. receive_message [be32 2 @ ''h'', ''i'', ''next''] = Some (''hi'', segs') \<and> concat segs' = ''next'' \<and> [] \<notin> set segs'"
  by (rule framing_roundtrip) (simp_all add: send_message_def numeral_2_eq_2 [symmetric])

text \<open>When the network delivers the prefix in two parts, the receiver does not wait for the second:
  it takes a length from bytes it never received.\<close>

theorem split_prefix_is_undefined:
  assumes "concat segs = send_message msg @ rest" "0 < length (hd segs)" "length (hd segs) < 4"
  shows "receive_message segs = None"
proof -
  obtain seg segs0 where "segs = seg # segs0" using assms(2,1) by (cases segs) (auto simp: send_message_def be32_def)
  then show ?thesis using assms(2,3) by (auto simp: receive_message_def)
qed

theorem split_prefix_is_undefined_witness: "receive_message [take 1 (be32 2), drop 1 (be32 2), ''hi''] = None"
  by (rule split_prefix_is_undefined [where msg = "''hi''" and rest = "[]"]) (simp_all add: send_message_def be32_def)

section \<open>The echo server and its client\<close>

lemma receive_frame:
  "length msg < 2 ^ 31 \<Longrightarrow> [] \<notin> set segs \<Longrightarrow> receive_message (send_message msg # segs) = Some (msg, segs)"
proof -
  assume m: "length msg < 2 ^ 31" and s: "[] \<notin> set segs"
  have "receive_loop (length msg) [] (if msg = [] then segs else msg # segs) = (Some msg, segs)"
    using m by (cases "msg = []") (simp_all add: receive_loop.simps [of "length msg"] receive_loop.simps [of 0])
  moreover have "recv 4 (send_message msg # segs) = (be32 (length msg), if msg = [] then segs else msg # segs)"
    using m by (simp add: send_message_def)
  moreover have "be32 (length msg) \<noteq> []" by (simp add: be32_def)
  moreover have "be32_value (be32 (length msg)) = length msg" using m by (simp add: be32_value_be32)
  ultimately show ?thesis using m by (simp add: receive_message_def Let_def)
qed

definition a_message :: "string \<Rightarrow> bool" where
  "a_message m \<longleftrightarrow> m \<noteq> [] \<and> m \<noteq> ''quit'' \<and> length m < 2 ^ 31"

lemma serve_loop_frames:
  assumes "\<And>k. running k" "list_all a_message msgs"
  shows "serve_loop running k (map send_message msgs @ [send_message ''quit'']) sent =
    Some (sent @ concat (map (\<lambda>m. send_message (echo m)) msgs))"
  using assms(2)
proof (induction msgs arbitrary: k sent)
  case Nil
  show ?case using assms(1) [of k] by (subst serve_loop.simps) (simp add: receive_frame)
next
  case (Cons m msgs)
  have "[] \<notin> set (map send_message msgs @ [send_message ''quit''])"
    by (auto simp: send_message_def be32_def)
  then have "receive_message (map send_message (m # msgs) @ [send_message ''quit'']) =
      Some (m, map send_message msgs @ [send_message ''quit''])"
    using Cons.prems by (simp add: receive_frame a_message_def)
  then show ?case using assms(1) [of k] Cons by (subst serve_loop.simps) (simp add: a_message_def)
qed

text \<open>A client that sends any messages and then \<open>quit\<close> is greeted and gets one echo for each
  message, in order, and nothing for \<open>quit\<close>.\<close>

theorem server_echoes_every_message:
  assumes "\<And>k. running k" "list_all a_message msgs"
  shows "handle_client running (map send_message msgs @ [send_message ''quit'']) =
    Some (send_message greeting @ concat (map (\<lambda>m. send_message (echo m)) msgs))"
  unfolding handle_client_def by (rule serve_loop_frames [OF assms])

theorem server_echoes_every_message_witness:
  "handle_client (\<lambda>_. True) (map send_message [''hi''] @ [send_message ''quit'']) =
    Some (send_message greeting @ concat (map (\<lambda>m. send_message (echo m)) [''hi'']))"
  by (rule server_echoes_every_message) (simp_all add: a_message_def)

lemma client_loop_returns:
  assumes "client_loop input segs sent = Some r"
  shows "\<exists>l \<in> set input. l \<noteq> []"
proof (rule client_loop.raw_induct [where P = "\<lambda>input segs sent r. \<exists>l \<in> set input. l \<noteq> []", OF _ assms])
  fix loop :: "string list \<Rightarrow> segments \<Rightarrow> string \<Rightarrow> string option option" and input segs sent r
  assume IH: "\<And>input segs sent r. loop input segs sent = Some r \<Longrightarrow> \<exists>l \<in> set input. l \<noteq> []"
    and r: "(case (case input of [] \<Rightarrow> ([], []) | l # ls \<Rightarrow> (l, ls)) of (line, input') \<Rightarrow>
        if line = [] then loop input' segs sent
        else if line = ''quit'' then Some (Some (sent @ send_message line))
        else case receive_message segs of
          None \<Rightarrow> Some None
        | Some (response, segs') \<Rightarrow>
            if response = [] then Some (Some (sent @ send_message line))
            else loop input' segs' (sent @ send_message line)) = Some r"
  show "\<exists>l \<in> set input. l \<noteq> []"
  proof (cases input)
    case Nil
    with r have "loop [] segs sent = Some r" by simp
    from IH [OF this] show ?thesis by simp
  next
    case (Cons l ls)
    show ?thesis
    proof (cases "l = []")
      case True
      with r Cons have "loop ls segs sent = Some r" by simp
      from IH [OF this] show ?thesis using Cons by simp
    qed (simp add: Cons)
  qed
qed

text \<open>When its input ends without \<open>quit\<close>, the client does not stop: it reads empty lines for ever.\<close>

theorem client_spins_at_end_of_input:
  assumes "list_all (\<lambda>l. l = []) input"
  shows "client_loop input segs sent = None"
  using assms client_loop_returns [of input segs sent] by (cases "client_loop input segs sent") (auto simp: list_all_iff)

theorem client_spins_at_end_of_input_witness: "client_loop [] [] [] = None"
  by (rule client_spins_at_end_of_input) simp

end
