(* ===== verification/Legacy_Server.thy ===== *)
theory Legacy_Server
  imports Legacy_Views Message_Framing
begin

text \<open>
  \<^verbatim>\<open>server/server.c\<close>: the thread that serves one client. The client's socket belongs to the thread
  alone: what is still to be read, and what was sent. The shared state is the disk, so the
  thread is a program over \<open>disk\<close> whose sections are those of the file functions it calls. A
  buffer holds the bytes a read returned; the bytes behind them are indeterminate, and a
  function that reads them is undefined behaviour. Logging is left out.
\<close>

record client_sock =
  inbox :: segments
  sent :: string

definition read_sock :: "nat \<Rightarrow> client_sock \<Rightarrow> string \<times> client_sock" where
  "read_sock n s = (let (got, rest) = recv n (inbox s) in (got, s\<lparr>inbox := rest\<rparr>))"

text \<open>The prefix is \<open>uint32_t len = strlen(message)\<close>.\<close>

definition send_with_length :: "string \<Rightarrow> client_sock \<Rightarrow> client_sock" where
  "send_with_length message s = s\<lparr>sent := sent s @ be32 (length (c_str message) mod 2 ^ 32) @ c_str message\<rparr>"

definition undefined_behaviour :: "('s, 'a) prog" where
  "undefined_behaviour = Step (\<lambda>_. None)"

text \<open>\<open>int choice = atoi(buffer)\<close> after \<open>buffer[bytes] = '\0'\<close>.\<close>

definition choice_of :: "string \<Rightarrow> int option" where
  "choice_of got = atoi (got @ [NUL])"

text \<open>\<open>read(sock, &seats, sizeof(seats))\<close> on a little-endian machine.\<close>

definition int_of_bytes :: "string \<Rightarrow> int option" where
  "int_of_bytes s = (if length s = 4 then Some (to_i32 (int (be32_value (rev s)))) else None)"

section \<open>The menus\<close>

definition admin_menu :: string where
  "admin_menu = concat (map ln [''....... Welcome to Admin Menu .......'', ''1. Add Student'', ''2. View Student Details'',
     ''3. Add Faculty'', ''4. View Faculty Details'', ''5. Activate Student'', ''6. Block Student'',
     ''7. Modify Student Details'', ''8. Modify Faculty Details'', ''9. Logout and Exit'']) @ ''Enter Your Choice: ''"

definition student_menu :: string where
  "student_menu = concat (map ln [''....... Welcome to Student Menu .......'', ''1. View All Courses'',
     ''2. Enroll New Course'', ''3. Drop Course'', ''4. View Enrolled Course Details'', ''5. Change Password'',
     ''6. Logout and Exit'']) @ ''Enter Your Choice: ''"

definition faculty_menu :: string where
  "faculty_menu = concat (map ln [''....... Welcome to Faculty Menu .......'', ''1. View Offering Courses'',
     ''2. Add New Course'', ''3. Remove Course from Catalog'', ''4. Update Course Details'', ''5. Change Password'',
     ''6. Logout and Exit'']) @ ''Enter Your Choice: ''"

text \<open>What the switch of a menu does: the program it runs and the socket after its reads.\<close>

type_synonym request_c = "(disk, string) prog \<times> client_sock"

definition report :: "(disk, int) prog \<Rightarrow> string \<Rightarrow> string \<Rightarrow> (disk, string) prog" where
  "report p yes no = andthen p (\<lambda>ret. Done (ln (if ret = 0 then yes else no)))"

definition report_view :: "(disk, string option) prog \<Rightarrow> string \<Rightarrow> (disk, string) prog" where
  "report_view p none = andthen p (\<lambda>r. Done (snprintf 1024 (case r of None \<Rightarrow> ln none | Some t \<Rightarrow> t)))"

definition both :: "(disk, int) prog \<Rightarrow> (disk, int) prog \<Rightarrow> (disk, int) prog" where
  "both p q = andthen p (\<lambda>ret. if ret = 0 then q else Done ret)"

definition admin_request :: "(nat \<Rightarrow> bool) \<Rightarrow> int \<Rightarrow> client_sock \<Rightarrow> request_c" where
  "admin_request alloc choice s =
     (if choice = 1 then
        (let (i, s) = read_sock MAX_ID s; (name, s) = read_sock MAX_NAME s; (password, s) = read_sock MAX_PASS s
         in (report (both (add_user i password STUDENT) (add_student i name))
               ''Student added successfully'' ''Failed to add student'', s))
      else if choice = 2 then (report_view (view_all_students alloc) ''No students found or error occurred'', s)
      else if choice = 3 then
        (let (i, s) = read_sock MAX_ID s; (name, s) = read_sock MAX_NAME s; (password, s) = read_sock MAX_PASS s
         in (report (both (add_user i password FACULTY) (add_faculty i name))
               ''Faculty added successfully'' ''Failed to add faculty'', s))
      else if choice = 4 then (report_view (view_all_faculty alloc) ''No faculty found or error occurred'', s)
      else if choice = 5 then
        (let (i, s) = read_sock MAX_ID s
         in (report (activate_deactivate_student i 1) ''Student activated successfully'' ''Failed to activate student'', s))
      else if choice = 6 then
        (let (i, s) = read_sock MAX_ID s
         in (report (activate_deactivate_student i 0) ''Student blocked successfully'' ''Failed to block student'', s))
      else if choice = 7 then
        (let (i, s) = read_sock MAX_ID s; (name, s) = read_sock MAX_NAME s
         in (report (update_student i name) ''Student details updated successfully''
               ''Failed to update student details'', s))
      else if choice = 8 then
        (let (i, s) = read_sock MAX_ID s; (name, s) = read_sock MAX_NAME s
         in (report (update_faculty i name) ''Faculty details updated successfully''
               ''Failed to update faculty details'', s))
      else (Done (ln ''Invalid choice''), s))"

text \<open>The answers to the codes of \<open>enroll_course\<close> and \<open>unenroll_course\<close>.\<close>

definition enroll_answer :: "int \<Rightarrow> string" where
  "enroll_answer ret = ln (if ret = 0 then ''Enrolled successfully''
     else if ret = ERR_FULL then ''Course is full''
     else if ret = ERR_ALREADY_ENROLLED then ''Already enrolled in this course''
     else if ret = ERR_COURSE_NOT_FOUND then ''Course not found''
     else if ret = ERR_INVALID_INPUT then ''Student is blocked'' else ''Failed to enroll'')"

definition drop_answer :: "int \<Rightarrow> string" where
  "drop_answer ret = ln (if ret = 0 then ''Dropped successfully''
     else if ret = ERR_NOT_ENROLLED then ''Not enrolled in this course'' else ''Failed to drop course'')"

definition student_request :: "(nat \<Rightarrow> bool) \<Rightarrow> string \<Rightarrow> int \<Rightarrow> client_sock \<Rightarrow> request_c" where
  "student_request alloc student_id choice s =
     (if choice = 1 then (report_view (view_all_courses alloc) ''No courses found or error occurred'', s)
      else if choice = 2 then
        (let (course_id, s) = read_sock MAX_ID s
         in (andthen (enroll_course student_id course_id) (\<lambda>ret. Done (enroll_answer ret)), s))
      else if choice = 3 then
        (let (course_id, s) = read_sock MAX_ID s
         in (andthen (unenroll_course student_id course_id) (\<lambda>ret. Done (drop_answer ret)), s))
      else if choice = 4 then
        (report_view (view_enrolled_courses alloc student_id) ''No courses enrolled or error occurred'', s)
      else if choice = 5 then
        (let (password, s) = read_sock MAX_PASS s
         in (report (change_password student_id password) ''Password changed successfully''
               ''Failed to change password'', s))
      else (Done (ln ''Invalid choice''), s))"

text \<open>A course sent by a lecturer: id, name and the four bytes of the number of seats.\<close>

definition with_seats :: "string \<Rightarrow> (int \<Rightarrow> (disk, string) prog) \<Rightarrow> (disk, string) prog" where
  "with_seats bytes k = (case int_of_bytes bytes of None \<Rightarrow> undefined_behaviour | Some n \<Rightarrow> k n)"

definition faculty_request :: "(nat \<Rightarrow> bool) \<Rightarrow> string \<Rightarrow> int \<Rightarrow> client_sock \<Rightarrow> request_c" where
  "faculty_request alloc faculty_id choice s =
     (if choice = 1 then (report_view (view_faculty_courses alloc faculty_id) ''No courses found or error occurred'', s)
      else if choice = 2 then
        (let (i, s) = read_sock MAX_ID s; (name, s) = read_sock MAX_NAME s; (seats, s) = read_sock 4 s
         in (with_seats seats (\<lambda>n. report (add_course i name faculty_id n)
               ''Course added successfully'' ''Failed to add course''), s))
      else if choice = 3 then
        (let (i, s) = read_sock MAX_ID s
         in (report (remove_course_c i) ''Course removed successfully'' ''Failed to remove course'', s))
      else if choice = 4 then
        (let (i, s) = read_sock MAX_ID s; (name, s) = read_sock MAX_NAME s; (seats, s) = read_sock 4 s
         in (with_seats seats (\<lambda>n. report (update_course_c i name n)
               ''Course updated successfully'' ''Failed to update course''), s))
      else if choice = 5 then
        (let (password, s) = read_sock MAX_PASS s
         in (report (change_password faculty_id password) ''Password changed successfully''
               ''Failed to change password'', s))
      else (Done (ln ''Invalid choice''), s))"

section \<open>The loops\<close>

definition unread :: "client_sock \<Rightarrow> nat" where
  "unread s = length (concat (inbox s))"

lemma read_sock_unread: "read_sock n s = (got, s') \<Longrightarrow> unread s = length got + unread s'"
  by (auto simp: read_sock_def unread_def split: prod.splits dest: recv_concat)

lemma unread_send [simp]: "unread (send_with_length m s) = unread s"
  by (simp add: unread_def send_with_length_def)

lemma admin_request_unread: "admin_request alloc choice s = (p, s') \<Longrightarrow> unread s' \<le> unread s"
  by (auto simp: admin_request_def split: if_splits prod.splits dest!: read_sock_unread)

lemma student_request_unread: "student_request alloc i choice s = (p, s') \<Longrightarrow> unread s' \<le> unread s"
  by (auto simp: student_request_def split: if_splits prod.splits dest!: read_sock_unread)

lemma faculty_request_unread: "faculty_request alloc i choice s = (p, s') \<Longrightarrow> unread s' \<le> unread s"
  by (auto simp: faculty_request_def split: if_splits prod.splits dest!: read_sock_unread)

text \<open>The three menus, with the id of the user where the handler needs it.\<close>

datatype menu = Admin_Menu | Student_Menu string | Faculty_Menu string

fun menu_text :: "menu \<Rightarrow> string" where
  "menu_text Admin_Menu = admin_menu"
| "menu_text (Student_Menu i) = student_menu"
| "menu_text (Faculty_Menu i) = faculty_menu"

fun logout_choice :: "menu \<Rightarrow> int" where
  "logout_choice Admin_Menu = 9"
| "logout_choice (Student_Menu i) = 6"
| "logout_choice (Faculty_Menu i) = 6"

fun menu_request :: "(nat \<Rightarrow> bool) \<Rightarrow> menu \<Rightarrow> int \<Rightarrow> client_sock \<Rightarrow> request_c" where
  "menu_request alloc Admin_Menu = admin_request alloc"
| "menu_request alloc (Student_Menu i) = student_request alloc i"
| "menu_request alloc (Faculty_Menu i) = faculty_request alloc i"

lemma menu_request_unread: "menu_request alloc m choice s = (p, s') \<Longrightarrow> unread s' \<le> unread s"
  by (cases m) (auto dest: admin_request_unread student_request_unread faculty_request_unread)

text \<open>
  The loop of the three handlers: send the menu, read the choice, log out or serve the request
  and answer. Every turn reads at least one byte, so it ends when the client has sent all.
\<close>

function menu_loop :: "(nat \<Rightarrow> bool) \<Rightarrow> menu \<Rightarrow> client_sock \<Rightarrow> (disk, client_sock) prog" where
  "menu_loop alloc m s =
     (let s1 = send_with_length (menu_text m) s; (got, s2) = read_sock 1023 s1 in
      if got = [] then Done s2
      else case choice_of got of
        None \<Rightarrow> undefined_behaviour
      | Some choice \<Rightarrow>
          if choice = logout_choice m then Done (send_with_length (ln ''Logout successful'') s2)
          else let (p, s3) = menu_request alloc m choice s2 in
            andthen p (\<lambda>response. menu_loop alloc m (send_with_length response s3)))"
  by pat_completeness auto
termination
proof (relation "measure (\<lambda>(a, m, s). unread s)")
  fix alloc m s s1 got s2 choice p s3 response and x :: "string \<times> client_sock" and z :: request_c
  assume a: "s1 = send_with_length (menu_text m) s" "x = read_sock 1023 s1" "(got, s2) = x" "got \<noteq> []"
    "z = menu_request alloc m choice s2" "(p, s3) = z"
  then have "unread s = length got + unread s2" "unread s3 \<le> unread s2"
    using read_sock_unread [of 1023 s1 got s2] menu_request_unread [of alloc m choice s2 p s3] by auto
  moreover have "0 < length got" using a(4) by simp
  ultimately have "unread s3 < unread s" by linarith
  then show "((alloc, m, send_with_length response s3), alloc, m, s) \<in> measure (\<lambda>(a, m, s). unread s)"
    by simp
qed simp

declare menu_loop.simps [simp del]

definition handle_admin :: "(nat \<Rightarrow> bool) \<Rightarrow> client_sock \<Rightarrow> (disk, client_sock) prog" where
  "handle_admin alloc = menu_loop alloc Admin_Menu"

definition handle_student :: "(nat \<Rightarrow> bool) \<Rightarrow> string \<Rightarrow> client_sock \<Rightarrow> (disk, client_sock) prog" where
  "handle_student alloc student_id = menu_loop alloc (Student_Menu student_id)"

definition handle_faculty :: "(nat \<Rightarrow> bool) \<Rightarrow> string \<Rightarrow> client_sock \<Rightarrow> (disk, client_sock) prog" where
  "handle_faculty alloc faculty_id = menu_loop alloc (Faculty_Menu faculty_id)"

section \<open>Login\<close>

definition login_screen :: string where
  "login_screen = ln ''....................Welcome Back to Academia :: Course Registration....................'' @
     ln ''Login Type'' @ ''Enter Your Choice { 1.Admin , 2.Professor, 3. Student } : ''"

definition expected_role :: "int \<Rightarrow> Role_c" where
  "expected_role login_choice = (if login_choice = 1 then ADMIN else if login_choice = 2 then FACULTY else STUDENT)"

text \<open>\<open>strncpy(user_id, buffer, n - 1); user_id[n - 1] = '\0'\<close>: the credential in an array of \<open>n\<close>.\<close>

definition credential :: "nat \<Rightarrow> string \<Rightarrow> string option" where
  "credential n got = do { t \<leftarrow> strncpy (n - 1) (got @ [NUL]); Some (t @ [NUL]) }"

definition account_matches :: "string \<Rightarrow> string \<Rightarrow> Role_c \<Rightarrow> User_c \<Rightarrow> bool option" where
  "account_matches user_id password role u = do {
     b \<leftarrow> strcmp_eq (uc_id u) user_id;
     if \<not> b then Some False
     else do { p \<leftarrow> strcmp_eq (uc_password u) password; Some (p \<and> uc_role u = role) } }"

text \<open>\<open>None\<close>: the file cannot be opened.\<close>

definition check_account :: "string \<Rightarrow> string \<Rightarrow> Role_c \<Rightarrow> (disk, bool option) prog" where
  "check_account user_id password role = atomically (\<lambda>d. case users_dat d of
       None \<Rightarrow> Some (None, d)
     | Some us \<Rightarrow> do {
         found \<leftarrow> scan (account_matches user_id password role) 0 us;
         Some (Some (found \<noteq> None), d) })"

definition dispatch :: "(nat \<Rightarrow> bool) \<Rightarrow> int \<Rightarrow> string \<Rightarrow> client_sock \<Rightarrow> (disk, client_sock) prog" where
  "dispatch alloc login_choice user_id s =
     (if login_choice = 1 then handle_admin alloc s
      else if login_choice = 2 then handle_faculty alloc user_id s
      else if login_choice = 3 then handle_student alloc user_id s
      else Done (send_with_length (ln ''Invalid role'') s))"

definition client_handler :: "(nat \<Rightarrow> bool) \<Rightarrow> client_sock \<Rightarrow> (disk, client_sock) prog" where
  "client_handler alloc s0 =
     (let (choice_got, s1) = read_sock 1023 (send_with_length login_screen s0) in
      if choice_got = [] then Done s1
      else case choice_of choice_got of
        None \<Rightarrow> undefined_behaviour
      | Some login_choice \<Rightarrow>
          if login_choice < 1 \<or> 3 < login_choice then Done (send_with_length (ln ''Invalid choice'') s1)
          else let (id_got, s2) = read_sock 1023 (send_with_length ''Enter User ID: '' s1) in
            if id_got = [] then Done s2
            else let (pw_got, s3) = read_sock 1023 (send_with_length ''Enter Password: '' s2) in
              if pw_got = [] then Done s3
              else case (credential MAX_ID id_got, credential MAX_PASS pw_got) of
                (Some user_id, Some password) \<Rightarrow>
                  andthen (check_account user_id password (expected_role login_choice)) (\<lambda>r. case r of
                    None \<Rightarrow> Done (send_with_length (ln ''Server error: Cannot open users file'') s3)
                  | Some authenticated \<Rightarrow>
                      if \<not> authenticated then Done (send_with_length (ln ''Login failed'') s3)
                      else dispatch alloc login_choice user_id (send_with_length (ln ''Login successful'') s3))
              | _ \<Rightarrow> undefined_behaviour)"

end
