(* ===== verification/Legacy_Protocol.thy ===== *)
theory Legacy_Protocol
  imports Legacy_Server Legacy_Correctness
begin

text \<open>
  Sessions with the older server: when a login is accepted, that a client whose writes arrive
  one by one has exactly its commands executed, and that the same bytes lead to undefined
  behaviour when the network joins two of them.
\<close>

section \<open>Numbers on the wire\<close>

lemma choice_digit: "is_digit c \<Longrightarrow> choice_of [c] = Some (digit_value c)"
proof -
  assume c: "is_digit c"
  then have "c \<noteq> NUL" "\<not> is_space c" "c \<noteq> CHR ''-''" "c \<noteq> CHR ''+''"
    by (auto simp: is_digit_def is_space_def)
  moreover from this have "c_str ([c] @ [NUL]) = [c]" by simp
  ultimately show ?thesis using c digit_bounds [OF c]
    by (simp add: choice_of_def atoi_def atoi_text_def digits_value_def i32_max_def)
qed

lemma digit_char_value:
  assumes "n < 10"
  shows "is_digit (digit_char n)" "digit_value (digit_char n) = int n"
proof -
  have "(of_char (digit_char n) :: nat) = 48 + n" using assms by (simp add: digit_char_def)
  then show "is_digit (digit_char n)" "digit_value (digit_char n) = int n"
    using assms by (simp_all add: is_digit_def digit_value_def)
qed

definition bytes_of_int :: "int \<Rightarrow> string" where
  "bytes_of_int n = rev (be32 (nat (n mod 2 ^ 32)))"

lemma int_of_bytes_of_int: "0 \<le> n \<Longrightarrow> n \<le> i32_max \<Longrightarrow> int_of_bytes (bytes_of_int n) = Some n"
proof -
  assume n: "0 \<le> n" "n \<le> i32_max"
  then have m: "n mod 2 ^ 32 = n" and "nat n < 2 ^ 32" by (simp_all add: i32_max_def)
  then have "be32_value (be32 (nat n)) = nat n" by (intro be32_value_be32)
  then show ?thesis using n by (simp only: int_of_bytes_def bytes_of_int_def m) (simp add: to_i32_id)
qed

lemma read_sock_whole [simp]:
  "length seg \<le> n \<Longrightarrow> inbox s = seg # rest \<Longrightarrow> read_sock n s = (seg, s\<lparr>inbox := rest\<rparr>)"
  by (simp add: read_sock_def)

lemma read_sock_update [simp]: "length seg \<le> n \<Longrightarrow> read_sock n (s\<lparr>inbox := seg # rest\<rparr>) = (seg, s\<lparr>inbox := rest\<rparr>)"
  by (simp add: read_sock_def)

lemma read_sock_cases:
  "read_sock n s = (case inbox s of [] \<Rightarrow> ([], s\<lparr>inbox := []\<rparr>)
    | seg # rest \<Rightarrow> (take n seg, s\<lparr>inbox := if drop n seg = [] then rest else drop n seg # rest\<rparr>))"
  by (simp add: read_sock_def split: list.split)

section \<open>Login\<close>

lemma credential_text:
  assumes "0 < n"
  shows "\<exists>t. credential n got = Some t \<and> fits n t \<and> c_str t = take (n - 1) (c_str got)"
proof -
  obtain m where m: "n = Suc m" using assms by (cases n) auto
  have c: "c_str (got @ [NUL]) = c_str got" by (simp add: c_str_append not_terminated_c_str)
  show ?thesis
  proof (cases "length (c_str got) < m")
    case True
    then have "strncpy m (got @ [NUL]) = Some (c_str got @ replicate (m - length (c_str got)) NUL)"
      using strncpy_fits [of "got @ [NUL]" m] c by simp
    then show ?thesis using True m
      by (simp add: credential_def fits_def c_str_append terminated_def)
  next
    case False
    then have s: "strncpy m (got @ [NUL]) = Some (take m (c_str got))"
      using strncpy_cuts [of m "got @ [NUL]"] c by simp
    have nul: "NUL \<notin> set (take m (c_str got))" by (meson NUL_notin_c_str in_set_takeD)
    then have "c_str (take m (c_str got) @ [NUL]) = take m (c_str got)"
      by (simp add: c_str_append terminated_def c_str_id)
    then show ?thesis using s m False by (simp add: credential_def fits_def)
  qed
qed

lemma scan_accounts:
  assumes "list_all user_ok us" "fits MAX_ID i" "fits MAX_PASS p"
  shows "\<exists>found. scan (account_matches i p role) 0 us = Some found \<and>
    (found \<noteq> None \<longleftrightarrow> (\<exists>u \<in> set us. c_str (uc_id u) = c_str i \<and> c_str (uc_password u) = c_str p \<and> uc_role u = role))"
proof -
  let ?P = "\<lambda>u. c_str (uc_id u) = c_str i \<and> c_str (uc_password u) = c_str p \<and> uc_role u = role"
  have "account_matches i p role u = Some (?P u)" if "user_ok u" for u
    using strcmp_field [of MAX_ID "uc_id u" MAX_ID i] strcmp_field [of MAX_PASS "uc_password u" MAX_PASS p]
      that assms(2,3) by (simp add: account_matches_def user_ok_def)
  from scan_ok [OF assms(1) this] show ?thesis using first_index_None [of ?P us] by auto
qed

text \<open>The socket when the credentials have been read.\<close>

definition after_credentials :: "client_sock \<Rightarrow> segments \<Rightarrow> client_sock" where
  "after_credentials s rest = (send_with_length ''Enter Password: '' (send_with_length ''Enter User ID: ''
     (send_with_length login_screen s)))\<lparr>inbox := rest\<rparr>"

lemma send_fields [simp]: "inbox (send_with_length m s) = inbox s"
  by (simp add: send_with_length_def)

lemma send_inbox: "send_with_length m (s\<lparr>inbox := x\<rparr>) = (send_with_length m s)\<lparr>inbox := x\<rparr>"
  by (simp add: send_with_length_def)

lemma client_handler_login:
  assumes s: "inbox s = [digit_char c] # i # p # rest" "1 \<le> c" "c \<le> 3"
    and i: "i \<noteq> []" "length i \<le> 1023" and p: "p \<noteq> []" "length p \<le> 1023"
  shows "\<exists>uid pw. fits MAX_ID uid \<and> c_str uid = take 9 (c_str i) \<and> fits MAX_PASS pw \<and> c_str pw = take 49 (c_str p) \<and>
    client_handler alloc s = andthen (check_account uid pw (expected_role (int c))) (\<lambda>r. case r of
      None \<Rightarrow> Done (send_with_length (ln ''Server error: Cannot open users file'') (after_credentials s rest))
    | Some authenticated \<Rightarrow>
        if \<not> authenticated then Done (send_with_length (ln ''Login failed'') (after_credentials s rest))
        else dispatch alloc (int c) uid (send_with_length (ln ''Login successful'') (after_credentials s rest)))"
proof -
  obtain uid where uid: "credential MAX_ID i = Some uid" "fits MAX_ID uid" "c_str uid = take 9 (c_str i)"
    using credential_text [of MAX_ID i] by (auto simp: MAX_ID_def)
  obtain pw where pw: "credential MAX_PASS p = Some pw" "fits MAX_PASS pw" "c_str pw = take 49 (c_str p)"
    using credential_text [of MAX_PASS p] by (auto simp: MAX_PASS_def)
  have c: "choice_of [digit_char c] = Some (int c)"
    using choice_digit [OF digit_char_value(1)] digit_char_value(2) s(3) by simp
  have "client_handler alloc s = andthen (check_account uid pw (expected_role (int c))) (\<lambda>r. case r of
      None \<Rightarrow> Done (send_with_length (ln ''Server error: Cannot open users file'') (after_credentials s rest))
    | Some authenticated \<Rightarrow>
        if \<not> authenticated then Done (send_with_length (ln ''Login failed'') (after_credentials s rest))
        else dispatch alloc (int c) uid (send_with_length (ln ''Login successful'') (after_credentials s rest)))"
    unfolding after_credentials_def using s(1) i p s(2,3)
    by (simp add: client_handler_def read_sock_cases c uid(1) pw(1) send_inbox)
      (rule arg_cong [where f = "andthen _"], rule ext, simp add: send_inbox split: option.split)
  then show ?thesis using uid(2,3) pw(2,3) by blast
qed

lemma login_decided:
  assumes d: "disk_ok d" "users_dat d \<noteq> None"
    and s: "inbox s = [digit_char c] # i # p # rest" "1 \<le> c" "c \<le> 3"
    and i: "i \<noteq> []" "length i \<le> 1023" and p: "p \<noteq> []" "length p \<le> 1023"
  shows "\<exists>user_id. c_str user_id = take 9 (c_str i) \<and> fits MAX_ID user_id \<and>
    run (client_handler alloc s) d =
      (if (take 9 (c_str i), expected_role (int c), take 49 (c_str p)) \<in> set (accounts_c d)
       then run (dispatch alloc (int c) user_id (send_with_length (ln ''Login successful'') (after_credentials s rest))) d
       else Some (send_with_length (ln ''Login failed'') (after_credentials s rest), d))"
proof -
  obtain us where us: "users_dat d = Some us" using d(2) by blast
  have ok: "list_all user_ok us" using d(1) us by (simp add: disk_ok_def)
  obtain uid pw where uid: "fits MAX_ID uid" "c_str uid = take 9 (c_str i)"
    and pw: "fits MAX_PASS pw" "c_str pw = take 49 (c_str p)"
    and handler: "client_handler alloc s = andthen (check_account uid pw (expected_role (int c))) (\<lambda>r. case r of
      None \<Rightarrow> Done (send_with_length (ln ''Server error: Cannot open users file'') (after_credentials s rest))
    | Some authenticated \<Rightarrow>
        if \<not> authenticated then Done (send_with_length (ln ''Login failed'') (after_credentials s rest))
        else dispatch alloc (int c) uid (send_with_length (ln ''Login successful'') (after_credentials s rest)))"
    using client_handler_login [OF s i p, of alloc] by blast
  let ?role = "expected_role (int c)"
  obtain found where found: "scan (account_matches uid pw ?role) 0 us = Some found"
    "found \<noteq> None \<longleftrightarrow> (\<exists>u \<in> set us. c_str (uc_id u) = c_str uid \<and> c_str (uc_password u) = c_str pw \<and> uc_role u = ?role)"
    using scan_accounts [OF ok uid(1) pw(1)] by blast
  have mem: "found \<noteq> None \<longleftrightarrow> (take 9 (c_str i), ?role, take 49 (c_str p)) \<in> set (accounts_c d)"
    unfolding found(2) by (simp add: accounts_c_def us uid(2) pw(2) image_iff) metis
  have run: "run (check_account uid pw ?role) d = Some (Some (found \<noteq> None), d)"
    by (simp add: check_account_def us found(1))
  from handler have "run (client_handler alloc s) d = (if found \<noteq> None
      then run (dispatch alloc (int c) uid (send_with_length (ln ''Login successful'') (after_credentials s rest))) d
      else Some (send_with_length (ln ''Login failed'') (after_credentials s rest), d))"
    by (simp add: run_andthen run)
  then show ?thesis using uid mem by (intro exI [of _ uid]) simp
qed

text \<open>C29: On well-formed files a login is decided by the accounts of the file: it succeeds exactly when
  one of them has the id and the password (both cut to the width of their fields) and the role
  of the chosen menu, and then that menu is served; otherwise the answer is "Login failed" and
  the files are untouched.\<close>

theorem login_needs_an_account:
  assumes d: "disk_ok d" "users_dat d \<noteq> None"
    and s: "inbox s = [digit_char c] # i # p # rest" "1 \<le> c" "c \<le> 3"
    and i: "i \<noteq> []" "length i \<le> 1023" and p: "p \<noteq> []" "length p \<le> 1023"
  shows "\<exists>user_id. c_str user_id = take 9 (c_str i) \<and> fits MAX_ID user_id \<and>
    run (client_handler alloc s) d =
      (if (take 9 (c_str i), expected_role (int c), take 49 (c_str p)) \<in> set (accounts_c d)
       then run (dispatch alloc (int c) user_id (send_with_length (ln ''Login successful'') (after_credentials s rest))) d
       else Some (send_with_length (ln ''Login failed'') (after_credentials s rest), d))"
  by (rule login_decided [OF assms])

definition demo_sock :: "segments \<Rightarrow> client_sock" where
  "demo_sock segs = \<lparr>inbox = segs, sent = []\<rparr>"

theorem login_needs_an_account_witness:
  "\<exists>s'. run (client_handler (\<lambda>n. True) (demo_sock [[digit_char 1], ''admin1'', ''secret''])) (no_files\<lparr>users_dat := Some []\<rparr>) =
    Some (s', no_files\<lparr>users_dat := Some []\<rparr>)"
proof -
  have "disk_ok (no_files\<lparr>users_dat := Some []\<rparr>)" by (simp add: disk_ok_users)
  then show ?thesis
    using login_needs_an_account [of "no_files\<lparr>users_dat := Some []\<rparr>"
        "demo_sock [[digit_char 1], ''admin1'', ''secret'']" 1 "''admin1''" "''secret''" "[]" "\<lambda>n. True"]
    by (auto simp: demo_sock_def accounts_c_def)
qed

section \<open>Sessions\<close>

text \<open>What a client can ask for in the menus, besides the listings.\<close>

datatype command =
    Add_student string string string
  | Add_lecturer string string string
  | Activate string
  | Block string
  | Rename_student string string
  | Rename_lecturer string string
  | Enroll string
  | Drop string
  | New_password string
  | New_course string string int
  | Remove string
  | Change_course string string int

text \<open>What the client writes: the digit, then each array whole.\<close>

fun encode :: "menu \<Rightarrow> command \<Rightarrow> segments" where
  "encode m (Add_student i n p) = [''1'', i, n, p]"
| "encode m (Add_lecturer i n p) = [''3'', i, n, p]"
| "encode m (Activate i) = [''5'', i]"
| "encode m (Block i) = [''6'', i]"
| "encode m (Rename_student i n) = [''7'', i, n]"
| "encode m (Rename_lecturer i n) = [''8'', i, n]"
| "encode m (Enroll c) = [''2'', c]"
| "encode m (Drop c) = [''3'', c]"
| "encode m (New_password p) = [''5'', p]"
| "encode m (New_course i n seats) = [''2'', i, n, bytes_of_int seats]"
| "encode m (Remove i) = [''3'', i]"
| "encode m (Change_course i n seats) = [''4'', i, n, bytes_of_int seats]"

fun menu_user :: "menu \<Rightarrow> string" where
  "menu_user Admin_Menu = []"
| "menu_user (Student_Menu i) = i"
| "menu_user (Faculty_Menu i) = i"

fun command_program :: "menu \<Rightarrow> command \<Rightarrow> (disk, int) prog" where
  "command_program m (Add_student i n p) = both (add_user i p STUDENT) (add_student i n)"
| "command_program m (Add_lecturer i n p) = both (add_user i p FACULTY) (add_faculty i n)"
| "command_program m (Activate i) = activate_deactivate_student i 1"
| "command_program m (Block i) = activate_deactivate_student i 0"
| "command_program m (Rename_student i n) = update_student i n"
| "command_program m (Rename_lecturer i n) = update_faculty i n"
| "command_program m (Enroll c) = enroll_course (menu_user m) c"
| "command_program m (Drop c) = unenroll_course (menu_user m) c"
| "command_program m (New_password p) = change_password (menu_user m) p"
| "command_program m (New_course i n seats) = add_course i n (menu_user m) seats"
| "command_program m (Remove i) = remove_course_c i"
| "command_program m (Change_course i n seats) = update_course_c i n seats"

text \<open>The commands of each menu, with arrays of the width that both sides use.\<close>

fun valid_command :: "menu \<Rightarrow> command \<Rightarrow> bool" where
  "valid_command Admin_Menu (Add_student i n p) \<longleftrightarrow> field MAX_ID i \<and> field MAX_NAME n \<and> field MAX_PASS p"
| "valid_command Admin_Menu (Add_lecturer i n p) \<longleftrightarrow> field MAX_ID i \<and> field MAX_NAME n \<and> field MAX_PASS p"
| "valid_command Admin_Menu (Activate i) \<longleftrightarrow> field MAX_ID i"
| "valid_command Admin_Menu (Block i) \<longleftrightarrow> field MAX_ID i"
| "valid_command Admin_Menu (Rename_student i n) \<longleftrightarrow> field MAX_ID i \<and> field MAX_NAME n"
| "valid_command Admin_Menu (Rename_lecturer i n) \<longleftrightarrow> field MAX_ID i \<and> field MAX_NAME n"
| "valid_command (Student_Menu u) (Enroll c) \<longleftrightarrow> field MAX_ID c"
| "valid_command (Student_Menu u) (Drop c) \<longleftrightarrow> field MAX_ID c"
| "valid_command (Student_Menu u) (New_password p) \<longleftrightarrow> field MAX_PASS p"
| "valid_command (Faculty_Menu u) (New_course i n seats) \<longleftrightarrow>
     field MAX_ID i \<and> field MAX_NAME n \<and> 0 \<le> seats \<and> seats \<le> int MAX_USERS"
| "valid_command (Faculty_Menu u) (Remove i) \<longleftrightarrow> field MAX_ID i"
| "valid_command (Faculty_Menu u) (Change_course i n seats) \<longleftrightarrow>
     field MAX_ID i \<and> field MAX_NAME n \<and> 0 \<le> seats \<and> seats \<le> int MAX_USERS"
| "valid_command (Faculty_Menu u) (New_password p) \<longleftrightarrow> field MAX_PASS p"
| "valid_command m c \<longleftrightarrow> False"

lemma keeps_andthen:
  assumes "keeps_inv I p" "\<And>a. keeps_inv I (k a)"
  shows "keeps_inv I (andthen p k)"
  using assms(1)
proof (induction p)
  case (Step f)
  have "\<exists>q s'. map_option (map_prod (\<lambda>p. andthen p k) id) (f s) = Some (q, s') \<and> I s' \<and> keeps_inv I q"
    if "I s" for s
  proof -
    obtain p s' where f: "f s = Some (p, s')" and p: "I s'" "keeps_inv I p" using Step.prems \<open>I s\<close> by auto
    have "keeps_inv I (andthen p k)"
      by (rule Step.IH [OF rangeI [of f s], of "(p, s')"]) (auto simp: f p)
    then show ?thesis using f p by simp
  qed
  then show ?case by simp
qed (simp add: assms(2))

lemma both_keeps: "keeps_inv I p \<Longrightarrow> keeps_inv I q \<Longrightarrow> keeps_inv I (both p q)"
  unfolding both_def by (rule keeps_andthen) auto

lemma command_keeps:
  "valid_command m c \<Longrightarrow> m \<noteq> Admin_Menu \<longrightarrow> fits MAX_ID (menu_user m) \<Longrightarrow> keeps_inv disk_ok (command_program m c)"
  by (cases "(m, c)" rule: valid_command.cases) (auto intro!: both_keeps all_keep intro: field_fits)

text \<open>What a command does to the files when nothing comes between its sections.\<close>

definition effect :: "menu \<Rightarrow> command \<Rightarrow> disk \<Rightarrow> disk" where
  "effect m c d = snd (the (run (command_program m c) d))"

lemma command_runs:
  assumes "valid_command m c" "m \<noteq> Admin_Menu \<longrightarrow> fits MAX_ID (menu_user m)" "disk_ok d"
  shows "\<exists>ret. run (command_program m c) d = Some (ret, effect m c d) \<and> disk_ok (effect m c d)"
  using run_keeps_inv [OF command_keeps [OF assms(1,2)] assms(3)] by (auto simp: effect_def)

text \<open>The answer to a command, by the code its function returns.\<close>

fun answer :: "command \<Rightarrow> int \<Rightarrow> string" where
  "answer (Add_student i n p) ret = ln (if ret = 0 then ''Student added successfully'' else ''Failed to add student'')"
| "answer (Add_lecturer i n p) ret = ln (if ret = 0 then ''Faculty added successfully'' else ''Failed to add faculty'')"
| "answer (Activate i) ret = ln (if ret = 0 then ''Student activated successfully'' else ''Failed to activate student'')"
| "answer (Block i) ret = ln (if ret = 0 then ''Student blocked successfully'' else ''Failed to block student'')"
| "answer (Rename_student i n) ret =
     ln (if ret = 0 then ''Student details updated successfully'' else ''Failed to update student details'')"
| "answer (Rename_lecturer i n) ret =
     ln (if ret = 0 then ''Faculty details updated successfully'' else ''Failed to update faculty details'')"
| "answer (Enroll c) ret = enroll_answer ret"
| "answer (Drop c) ret = drop_answer ret"
| "answer (New_password p) ret = ln (if ret = 0 then ''Password changed successfully'' else ''Failed to change password'')"
| "answer (New_course i n seats) ret = ln (if ret = 0 then ''Course added successfully'' else ''Failed to add course'')"
| "answer (Remove i) ret = ln (if ret = 0 then ''Course removed successfully'' else ''Failed to remove course'')"
| "answer (Change_course i n seats) ret = ln (if ret = 0 then ''Course updated successfully'' else ''Failed to update course'')"

lemma choice_digits [simp]:
  "choice_of ''1'' = Some 1" "choice_of ''2'' = Some 2" "choice_of ''3'' = Some 3" "choice_of ''4'' = Some 4"
  "choice_of ''5'' = Some 5" "choice_of ''6'' = Some 6" "choice_of ''7'' = Some 7" "choice_of ''8'' = Some 8"
  "choice_of ''9'' = Some 9"
  by (simp_all add: choice_digit is_digit_def digit_value_def)

lemma field_length: "field n s \<Longrightarrow> length s \<le> n"
  by (simp add: field_def)

lemma length_bytes_of_int [simp]: "length (bytes_of_int n) = 4"
  by (simp add: bytes_of_int_def)

text \<open>The switch reads exactly the arrays of the command and runs its program.\<close>

lemma request_of_command:
  assumes "valid_command m c" "inbox s = tl (encode m c) @ rest"
  shows "\<exists>ch. choice_of (hd (encode m c)) = Some ch \<and> ch \<noteq> logout_choice m \<and>
    menu_request alloc m ch s = (andthen (command_program m c) (\<lambda>ret. Done (answer c ret)), s\<lparr>inbox := rest\<rparr>)"
  using assms
  by (cases "(m, c)" rule: valid_command.cases)
    (auto dest!: field_length simp: admin_request_def student_request_def faculty_request_def report_def with_seats_def
      int_of_bytes_of_int i32_max_def MAX_USERS_def)

lemma encode_Cons: "encode m c = hd (encode m c) # tl (encode m c)" "hd (encode m c) \<noteq> []" "length (hd (encode m c)) = 1"
  by (cases c; simp)+

lemma menu_turn:
  assumes "valid_command m c" "inbox s = encode m c @ rest"
  shows "menu_loop alloc m s = andthen (command_program m c) (\<lambda>ret. menu_loop alloc m
    (send_with_length (answer c ret) ((send_with_length (menu_text m) s)\<lparr>inbox := rest\<rparr>)))"
proof -
  let ?s1 = "send_with_length (menu_text m) s" and ?s2 = "(send_with_length (menu_text m) s)\<lparr>inbox := tl (encode m c) @ rest\<rparr>"
  have "inbox ?s1 = hd (encode m c) # (tl (encode m c) @ rest)"
    using assms(2) encode_Cons(1) [of m c] by (metis append_Cons send_fields)
  then have f: "read_sock 1023 ?s1 = (hd (encode m c), ?s2)" using encode_Cons(3) [of m c] by simp
  obtain ch where ch: "choice_of (hd (encode m c)) = Some ch" "ch \<noteq> logout_choice m"
    "menu_request alloc m ch ?s2 = (andthen (command_program m c) (\<lambda>ret. Done (answer c ret)), ?s2\<lparr>inbox := rest\<rparr>)"
    using request_of_command [OF assms(1), of ?s2 rest alloc] by auto
  have assoc: "andthen (andthen p (\<lambda>ret. Done (g ret))) k = andthen p (\<lambda>ret. k (g ret))" for p :: "(disk, int) prog" and g k
  proof (induction p)
    case (Step f)
    have "map_option (map_prod (\<lambda>p. andthen (andthen p (\<lambda>ret. Done (g ret))) k) id) (f x) =
        map_option (map_prod (\<lambda>p. andthen p (\<lambda>ret. k (g ret))) id) (f x)" for x
      using Step.IH [OF rangeI [of f x]] by (cases "f x") (auto simp: prod_set_simps)
    then show ?case by (simp add: option.map_comp prod.map_comp comp_def id_def)
  qed simp
  show ?thesis
    by (subst menu_loop.simps) (simp add: f encode_Cons(2) ch assoc Let_def)
qed

lemma menu_logout:
  assumes "inbox s = [[digit_char (nat (logout_choice m))]]"
  shows "\<exists>s'. menu_loop alloc m s = Done s'"
proof -
  have "choice_of [digit_char (nat (logout_choice m))] = Some (logout_choice m)"
    by (cases m) (simp_all add: choice_digit digit_char_value)
  then show ?thesis using assms by (subst menu_loop.simps) (simp add: Let_def read_sock_cases)
qed

lemma session_runs:
  assumes "list_all (valid_command m) cs" "m \<noteq> Admin_Menu \<longrightarrow> fits MAX_ID (menu_user m)"
  shows "disk_ok d \<Longrightarrow> inbox s = concat (map (encode m) cs) @ [[digit_char (nat (logout_choice m))]] \<Longrightarrow>
    \<exists>s'. run (menu_loop alloc m s) d = Some (s', fold (effect m) cs d) \<and> disk_ok (fold (effect m) cs d)"
  using assms(1)
proof (induction cs arbitrary: d s)
  case Nil
  then show ?case using menu_logout [of s m alloc] by auto
next
  case (Cons c cs)
  then have v: "valid_command m c" "list_all (valid_command m) cs" by simp_all
  obtain ret where r: "run (command_program m c) d = Some (ret, effect m c d)" "disk_ok (effect m c d)"
    using command_runs [OF v(1) assms(2) Cons.prems(1)] by blast
  let ?rest = "concat (map (encode m) cs) @ [[digit_char (nat (logout_choice m))]]"
  have "inbox s = encode m c @ ?rest" using Cons.prems(2) by simp
  note t = menu_turn [OF v(1) this, of alloc]
  have "\<exists>s'. run (menu_loop alloc m s0) (effect m c d) = Some (s', fold (effect m) cs (effect m c d)) \<and>
      disk_ok (fold (effect m) cs (effect m c d))" if "inbox s0 = ?rest" for s0
    by (rule Cons.IH [OF r(2) that v(2)])
  from this [of "(send_with_length (answer c ret) ((send_with_length (menu_text m) s)\<lparr>inbox := ?rest\<rparr>))"]
  show ?case using r(1) by (simp add: t run_andthen)
qed

text \<open>When the network keeps the client's writes apart, a session executes exactly the commands
  the client sent, one after the other, and ends with the logout; the files stay well-formed.\<close>

theorem session_executes_commands:
  assumes "list_all (valid_command m) cs" "m \<noteq> Admin_Menu \<longrightarrow> fits MAX_ID (menu_user m)" "disk_ok d"
    and "inbox s = concat (map (encode m) cs) @ [[digit_char (nat (logout_choice m))]]"
  shows "\<exists>s'. run (menu_loop alloc m s) d = Some (s', fold (effect m) cs d) \<and> disk_ok (fold (effect m) cs d)"
  by (rule session_runs [OF assms])

theorem session_executes_commands_witness:
  "\<exists>s'. run (menu_loop (\<lambda>n. True) Admin_Menu (demo_sock [''6'', c_field MAX_ID (literal ''s1''), [digit_char 9]])) (demo_disk 3) =
    Some (s', effect Admin_Menu (Block (c_field MAX_ID (literal ''s1''))) (demo_disk 3))"
  using session_executes_commands [of Admin_Menu "[Block (c_field MAX_ID (literal ''s1''))]" "demo_disk 3"
      "demo_sock [''6'', c_field MAX_ID (literal ''s1''), [digit_char 9]]" "\<lambda>n. True"]
  by (simp add: demo_sock_def)

text \<open>When the network joins the choice with the id that follows, the server reads both as the
  choice, finds nothing to read for the id and compares with memory it never wrote.\<close>

theorem joined_writes_are_undefined:
  assumes "field MAX_ID i" "is_alpha (hd i)" "inbox s = [''5'' @ i]" "students_dat d = Some (st # ss)"
  shows "run (handle_admin alloc s) d = None"
proof -
  obtain c t where i: "i = c # t" using assms(1) by (cases i) (auto simp: field_def MAX_ID_def)
  have c: "is_alpha c" using assms(2) i by simp
  then have "c \<noteq> NUL" "\<not> is_digit c" by (auto simp: is_alpha_def is_digit_def)
  then have "c_str ((''5'' @ i) @ [NUL]) = CHR ''5'' # c # c_str (t @ [NUL])" by (simp add: i)
  moreover have "is_digit CHR ''5''" "digit_value CHR ''5'' = 5" "\<not> is_space CHR ''5''"
    by (simp_all add: is_digit_def digit_value_def is_space_def)
  ultimately have ch: "choice_of (''5'' @ i) = Some 5"
    using \<open>\<not> is_digit c\<close>
    by (simp add: choice_of_def atoi_def atoi_text_def digits_value_def i32_max_def terminated_def)
  have len: "length (''5'' @ i) \<le> 1023" using assms(1) by (simp add: field_def MAX_ID_def)
  let ?s1 = "send_with_length admin_menu s"
  have f: "read_sock 1023 ?s1 = (''5'' @ i, ?s1\<lparr>inbox := []\<rparr>)" using len assms(3) by (intro read_sock_whole) simp_all
  have "run (activate_deactivate_student [] 1) d = None"
    using assms(4) by (simp add: activate_deactivate_student_def change_student_def rewrite_first_def)
  moreover have "admin_request alloc 5 (?s1\<lparr>inbox := []\<rparr>) =
      (report (activate_deactivate_student [] 1) ''Student activated successfully'' ''Failed to activate student'',
       ?s1\<lparr>inbox := []\<rparr>)"
    by (simp add: admin_request_def read_sock_def)
  ultimately show ?thesis
    unfolding handle_admin_def
    by (subst menu_loop.simps) (simp add: f [simplified] ch [simplified] report_def run_andthen Let_def)
qed

theorem joined_writes_are_undefined_witness:
  "run (handle_admin (\<lambda>n. True) (demo_sock [''5'' @ c_field MAX_ID (literal ''s1'')])) (demo_disk 3) = None"
  by (rule joined_writes_are_undefined [where i = "c_field MAX_ID (literal ''s1'')" and st = demo_student and ss = "[]"])
    (simp_all add: demo_sock_def demo_disk_def, simp add: c_field_def literal_def is_alpha_def)

end
