(* ===== verification/Legacy_Client.thy ===== *)
theory Legacy_Client
  imports Legacy_Protocol
begin

text \<open>
  \<^verbatim>\<open>client/client.c\<close>: the menus of the older client, from the words the user types to the arrays it
  writes, and the whole way to the server's files. The input is the list of the first words of
  the lines (\<open>scanf("%s")\<close> and then \<open>clear_input_buffer\<close>). A word that does not fit its array
  overflows it: \<open>None\<close>. Arrays are written whole; \<open>junk n\<close> are the \<open>n\<close> bytes behind the word,
  which the client never set.
\<close>

section \<open>Reading from the server\<close>

text \<open>Inner \<open>None\<close>: the function returns -1. A message is read with one \<open>read\<close>.\<close>

definition read_with_length :: "nat \<Rightarrow> segments \<Rightarrow> (string option \<times> segments) option" where
  "read_with_length max_size segs = (let (prefix, segs1) = recv 4 segs in
     if prefix = [] then Some (None, segs1)
     else if length prefix < 4 then None
     else let len = be32_value prefix in
       if max_size \<le> len then Some (None, segs1)
       else let (got, segs2) = recv len segs1 in
         if got = [] then Some (None, segs2) else Some (Some got, segs2))"

text \<open>\<open>strip_newlines\<close>: carriage returns and newlines at the end become NUL.\<close>

definition strip_newlines :: "string \<Rightarrow> string" where
  "strip_newlines s = (let tail = takeWhile (\<lambda>c. c = CHR 0x0D \<or> c = CHR 0x0A) (rev s)
     in take (length s - length tail) s @ replicate (length tail) NUL)"

text \<open>The test \<open>strcmp(response, "Login successful") == 0\<close> on what the server answered.\<close>

definition login_accepted :: "string \<Rightarrow> bool" where
  "login_accepted got \<longleftrightarrow> strcmp_eq (strip_newlines got @ [NUL]) (literal ''Login successful'') = Some True"

lemma login_answers: "login_accepted (ln ''Login successful'')" "\<not> login_accepted (ln ''Login failed'')"
  by (simp_all add: login_accepted_def strip_newlines_def ln_def literal_def)

section \<open>The menus of the client\<close>

datatype input_field = Id_Field | Name_Field | Pass_Field | Int_Field

definition admin_fields :: "int \<Rightarrow> input_field list" where
  "admin_fields choice =
     (if choice = 1 \<or> choice = 3 then [Id_Field, Name_Field, Pass_Field]
      else if choice = 5 \<or> choice = 6 then [Id_Field]
      else if choice = 7 \<or> choice = 8 then [Id_Field, Name_Field] else [])"

definition student_fields :: "int \<Rightarrow> input_field list" where
  "student_fields choice =
     (if choice = 2 \<or> choice = 3 then [Id_Field] else if choice = 5 then [Pass_Field] else [])"

definition faculty_fields :: "int \<Rightarrow> input_field list" where
  "faculty_fields choice =
     (if choice = 2 \<or> choice = 4 then [Id_Field, Name_Field, Int_Field]
      else if choice = 3 then [Id_Field] else if choice = 5 then [Pass_Field] else [])"

fun client_fields :: "menu \<Rightarrow> int \<Rightarrow> input_field list" where
  "client_fields Admin_Menu = admin_fields"
| "client_fields (Student_Menu u) = student_fields"
| "client_fields (Faculty_Menu u) = faculty_fields"

text \<open>\<open>char a[n]; scanf("%s", a);\<close>\<close>

definition scan_array :: "(nat \<Rightarrow> string) \<Rightarrow> nat \<Rightarrow> string list \<Rightarrow> (string \<times> string list) option" where
  "scan_array junk n input = (case input of
     [] \<Rightarrow> Some (junk n, [])
   | w # ws \<Rightarrow> if n \<le> length w then None else Some (w @ NUL # junk (n - length w - 1), ws))"

text \<open>\<open>int i; scanf("%d", &i);\<close> leaves \<open>i\<close> as it was when the word is not a number.\<close>

definition scan_int :: "(nat \<Rightarrow> string) \<Rightarrow> string list \<Rightarrow> (string \<times> string list) option" where
  "scan_int junk input = (case input of
     [] \<Rightarrow> Some (junk 4, [])
   | w # ws \<Rightarrow>
       if takeWhile is_digit (if w \<noteq> [] \<and> (hd w = CHR ''-'' \<or> hd w = CHR ''+'') then tl w else w) = []
       then Some (junk 4, ws)
       else do { n \<leftarrow> atoi (w @ [NUL]); Some (bytes_of_int n, ws) })"

fun scan_field :: "(nat \<Rightarrow> string) \<Rightarrow> input_field \<Rightarrow> string list \<Rightarrow> (string \<times> string list) option" where
  "scan_field junk Id_Field = scan_array junk MAX_ID"
| "scan_field junk Name_Field = scan_array junk MAX_NAME"
| "scan_field junk Pass_Field = scan_array junk MAX_PASS"
| "scan_field junk Int_Field = scan_int junk"

fun scan_fields :: "(nat \<Rightarrow> string) \<Rightarrow> input_field list \<Rightarrow> string list \<Rightarrow> (segments \<times> string list) option" where
  "scan_fields junk [] input = Some ([], input)"
| "scan_fields junk (f # fs) input = do {
     (a, input1) \<leftarrow> scan_field junk f input;
     (as, input2) \<leftarrow> scan_fields junk fs input1;
     Some (a # as, input2) }"

lemma scan_fields_length: "scan_fields junk fs input = Some (as, input') \<Longrightarrow> length input' \<le> length input"
proof (induction fs arbitrary: input as)
  case (Cons f fs)
  then obtain a input1 as' where f: "scan_field junk f input = Some (a, input1)"
    and fs: "scan_fields junk fs input1 = Some (as', input')"
    by (auto simp: bind_eq_Some_conv)
  have "length input1 \<le> length input"
    using f by (cases f) (auto simp: scan_array_def scan_int_def bind_eq_Some_conv split: list.splits if_splits)
  then show ?case using Cons.IH [OF fs] by simp
qed simp

text \<open>
  The loop of a menu: read the menu, the choice (in ten bytes) and its fields, write them, read the
  answer. The result is the list of the writes.
\<close>

function client_menu :: "(nat \<Rightarrow> string) \<Rightarrow> menu \<Rightarrow> string list \<Rightarrow> segments \<Rightarrow> segments \<Rightarrow> segments option" where
  "client_menu junk m input segs written = do {
     (shown, segs1) \<leftarrow> read_with_length 2048 segs;
     if shown = None then Some written
     else case input of
       [] \<Rightarrow> Some written
     | w # ws \<Rightarrow>
         if 10 \<le> length w then None
         else do {
           choice \<leftarrow> choice_of w;
           if choice = logout_choice m then Some (written @ [w])
           else do {
             (arrays, ws') \<leftarrow> scan_fields junk (client_fields m choice) ws;
             (response, segs2) \<leftarrow> read_with_length 2048 segs1;
             if response = None then Some (written @ w # arrays)
             else client_menu junk m ws' segs2 (written @ w # arrays) } } }"
  by pat_completeness auto
termination
  by (relation "measure (\<lambda>(j, m, input, s, w). length input)") (auto dest!: scan_fields_length)

declare client_menu.simps [simp del]

text \<open>
  The three handlers of the client: each is this loop with the fields and the logout choice of its own
  menu. The client does not look at the user of the menu.
\<close>

definition client_admin :: "(nat \<Rightarrow> string) \<Rightarrow> string list \<Rightarrow> segments \<Rightarrow> segments option" where
  "client_admin junk input segs = client_menu junk Admin_Menu input segs []"

definition client_student ::
  "(nat \<Rightarrow> string) \<Rightarrow> string \<Rightarrow> string list \<Rightarrow> segments \<Rightarrow> segments option" where
  "client_student junk u input segs = client_menu junk (Student_Menu u) input segs []"

definition client_faculty ::
  "(nat \<Rightarrow> string) \<Rightarrow> string \<Rightarrow> string list \<Rightarrow> segments \<Rightarrow> segments option" where
  "client_faculty junk u input segs = client_menu junk (Faculty_Menu u) input segs []"

lemmas client_handler_defs = client_admin_def client_student_def client_faculty_def

section \<open>From the keyboard to the files\<close>

text \<open>The words to type for a command, and the command as it goes over the wire.\<close>

fun typed :: "menu \<Rightarrow> command \<Rightarrow> string list" where
  "typed m (Add_student i n p) = [''1'', i, n, p]"
| "typed m (Add_lecturer i n p) = [''3'', i, n, p]"
| "typed m (Activate i) = [''5'', i]"
| "typed m (Block i) = [''6'', i]"
| "typed m (Rename_student i n) = [''7'', i, n]"
| "typed m (Rename_lecturer i n) = [''8'', i, n]"
| "typed m (Enroll c) = [''2'', c]"
| "typed m (Drop c) = [''3'', c]"
| "typed m (New_password p) = [''5'', p]"
| "typed m (New_course i n seats) = [''2'', i, n, to_string seats]"
| "typed m (Remove i) = [''3'', i]"
| "typed m (Change_course i n seats) = [''4'', i, n, to_string seats]"

definition array :: "(nat \<Rightarrow> string) \<Rightarrow> nat \<Rightarrow> string \<Rightarrow> string" where
  "array junk n w = w @ NUL # junk (n - length w - 1)"

fun on_wire :: "(nat \<Rightarrow> string) \<Rightarrow> command \<Rightarrow> command" where
  "on_wire j (Add_student i n p) = Add_student (array j MAX_ID i) (array j MAX_NAME n) (array j MAX_PASS p)"
| "on_wire j (Add_lecturer i n p) = Add_lecturer (array j MAX_ID i) (array j MAX_NAME n) (array j MAX_PASS p)"
| "on_wire j (Activate i) = Activate (array j MAX_ID i)"
| "on_wire j (Block i) = Block (array j MAX_ID i)"
| "on_wire j (Rename_student i n) = Rename_student (array j MAX_ID i) (array j MAX_NAME n)"
| "on_wire j (Rename_lecturer i n) = Rename_lecturer (array j MAX_ID i) (array j MAX_NAME n)"
| "on_wire j (Enroll c) = Enroll (array j MAX_ID c)"
| "on_wire j (Drop c) = Drop (array j MAX_ID c)"
| "on_wire j (New_password p) = New_password (array j MAX_PASS p)"
| "on_wire j (New_course i n seats) = New_course (array j MAX_ID i) (array j MAX_NAME n) seats"
| "on_wire j (Remove i) = Remove (array j MAX_ID i)"
| "on_wire j (Change_course i n seats) = Change_course (array j MAX_ID i) (array j MAX_NAME n) seats"

text \<open>The commands of a menu whose words fit their arrays.\<close>

definition typable :: "nat \<Rightarrow> string \<Rightarrow> bool" where
  "typable n w \<longleftrightarrow> length w < n"

fun valid_input :: "menu \<Rightarrow> command \<Rightarrow> bool" where
  "valid_input Admin_Menu (Add_student i n p) \<longleftrightarrow> typable MAX_ID i \<and> typable MAX_NAME n \<and> typable MAX_PASS p"
| "valid_input Admin_Menu (Add_lecturer i n p) \<longleftrightarrow> typable MAX_ID i \<and> typable MAX_NAME n \<and> typable MAX_PASS p"
| "valid_input Admin_Menu (Activate i) \<longleftrightarrow> typable MAX_ID i"
| "valid_input Admin_Menu (Block i) \<longleftrightarrow> typable MAX_ID i"
| "valid_input Admin_Menu (Rename_student i n) \<longleftrightarrow> typable MAX_ID i \<and> typable MAX_NAME n"
| "valid_input Admin_Menu (Rename_lecturer i n) \<longleftrightarrow> typable MAX_ID i \<and> typable MAX_NAME n"
| "valid_input (Student_Menu u) (Enroll c) \<longleftrightarrow> typable MAX_ID c"
| "valid_input (Student_Menu u) (Drop c) \<longleftrightarrow> typable MAX_ID c"
| "valid_input (Student_Menu u) (New_password p) \<longleftrightarrow> typable MAX_PASS p"
| "valid_input (Faculty_Menu u) (New_course i n seats) \<longleftrightarrow>
     typable MAX_ID i \<and> typable MAX_NAME n \<and> 0 \<le> seats \<and> seats \<le> int MAX_USERS"
| "valid_input (Faculty_Menu u) (Remove i) \<longleftrightarrow> typable MAX_ID i"
| "valid_input (Faculty_Menu u) (Change_course i n seats) \<longleftrightarrow>
     typable MAX_ID i \<and> typable MAX_NAME n \<and> 0 \<le> seats \<and> seats \<le> int MAX_USERS"
| "valid_input (Faculty_Menu u) (New_password p) \<longleftrightarrow> typable MAX_PASS p"
| "valid_input m c \<longleftrightarrow> False"

definition junk_ok :: "(nat \<Rightarrow> string) \<Rightarrow> bool" where
  "junk_ok junk \<longleftrightarrow> (\<forall>n. length (junk n) = n)"

lemma array_field: "junk_ok junk \<Longrightarrow> typable n w \<Longrightarrow> field n (array junk n w)"
  by (simp add: junk_ok_def typable_def field_def array_def)

lemma on_wire_valid: "junk_ok junk \<Longrightarrow> valid_input m c \<Longrightarrow> valid_command m (on_wire junk c)"
  by (cases "(m, c)" rule: valid_input.cases) (auto intro: array_field)

lemma scan_array_typable: "typable n w \<Longrightarrow> scan_array junk n (w # ws) = Some (array junk n w, ws)"
  by (simp add: scan_array_def typable_def array_def)

lemma digits_value_append: "digits_value (ds @ [c]) = 10 * digits_value ds + digit_value c"
  by (simp add: digits_value_def)

lemma dec_nat_digits: "list_all is_digit (dec_nat n) \<and> dec_nat n \<noteq> [] \<and> digits_value (dec_nat n) = int n"
proof (induction n rule: dec_nat.induct)
  case (1 n)
  show ?case
  proof (cases "n < 10")
    case True
    then show ?thesis using digit_char_value [OF True]
      by (simp add: dec_nat.simps [of n] digits_value_def)
  next
    case False
    have m: "n mod 10 < 10" by simp
    have "int n = 10 * int (n div 10) + int (n mod 10)" by presburger
    then show ?thesis using 1 [OF False] False digit_char_value [OF m]
      by (simp add: dec_nat.simps [of n] digits_value_append)
  qed
qed

lemma scan_int_typed:
  assumes "0 \<le> n" "n \<le> i32_max"
  shows "scan_int junk (to_string n # ws) = Some (bytes_of_int n, ws)"
proof -
  let ?w = "dec_nat (nat n)"
  have w: "to_string n = ?w" using assms(1) by (simp add: to_string_def)
  have d: "list_all is_digit ?w" "?w \<noteq> []" "digits_value ?w = n" using dec_nat_digits [of "nat n"] assms(1) by simp_all
  obtain c t where ct: "?w = c # t" using d(2) by (cases ?w) auto
  have c: "is_digit c" "c \<noteq> CHR ''-''" "c \<noteq> CHR ''+''" "\<not> is_space c"
    using d(1) ct by (auto simp: is_digit_def is_space_def)
  have nul: "NUL \<notin> set ?w" using d(1) by (auto simp: list_all_iff is_digit_def)
  have tw: "takeWhile is_digit ?w = ?w" using d(1) by (simp add: takeWhile_eq_all_conv list_all_iff)
  have t: "takeWhile is_digit t = t" using d(1) by (simp add: ct takeWhile_eq_all_conv list_all_iff)
  have cs: "c_str (?w @ [NUL]) = ?w" using nul by (simp add: c_str_append terminated_def c_str_id)
  have "atoi_text ?w = n"
    using c d(3) unfolding ct by (simp add: atoi_text_def t)
  then have "atoi (?w @ [NUL]) = Some n" using assms by (simp add: atoi_def cs)
  moreover have "takeWhile is_digit (if ?w \<noteq> [] \<and> (hd ?w = CHR ''-'' \<or> hd ?w = CHR ''+'') then tl ?w else ?w) \<noteq> []"
    using c tw ct by simp
  ultimately show ?thesis by (simp add: scan_int_def w)
qed

lemma typed_Cons:
  "typed m c = hd (encode m (on_wire junk c)) # tl (typed m c)" "length (hd (encode m (on_wire junk c))) = 1"
  by (cases c; simp)+

text \<open>The client turns the words of a command into the arrays of its encoding.\<close>

lemma scan_typed:
  assumes "valid_input m c"
  shows "\<exists>ch. choice_of (hd (encode m (on_wire junk c))) = Some ch \<and> ch \<noteq> logout_choice m \<and>
    scan_fields junk (client_fields m ch) (tl (typed m c) @ rest) = Some (tl (encode m (on_wire junk c)), rest)"
  using assms
  by (cases "(m, c)" rule: valid_input.cases)
    (simp_all add: admin_fields_def student_fields_def faculty_fields_def scan_array_typable scan_int_typed
      i32_max_def MAX_USERS_def)

text \<open>The server's answers arrive so that each is read with one call.\<close>

fun readable :: "nat \<Rightarrow> segments \<Rightarrow> bool" where
  "readable 0 segs = True"
| "readable (Suc k) segs = (case read_with_length 2048 segs of
     Some (Some t, segs') \<Rightarrow> readable k segs' | _ \<Rightarrow> False)"

lemma readable_Suc:
  "readable (Suc k) segs \<Longrightarrow> \<exists>t segs'. read_with_length 2048 segs = Some (Some t, segs') \<and> readable k segs'"
  by (auto split: option.splits prod.splits)

lemma client_menu_writes:
  assumes "list_all (valid_input m) cs"
  shows "readable (2 * length cs + 1) segs \<Longrightarrow>
    client_menu junk m (concat (map (typed m) cs) @ [[digit_char (nat (logout_choice m))]]) segs written =
      Some (written @ concat (map (\<lambda>c. encode m (on_wire junk c)) cs) @ [[digit_char (nat (logout_choice m))]])"
  using assms
proof (induction cs arbitrary: segs written)
  case Nil
  then obtain t segs1 where "read_with_length 2048 segs = Some (Some t, segs1)" using readable_Suc [of 0 segs] by auto
  moreover have "choice_of [digit_char (nat (logout_choice m))] = Some (logout_choice m)"
    by (cases m) (simp_all add: choice_digit digit_char_value)
  ultimately show ?case by (subst client_menu.simps) simp
next
  case (Cons c cs)
  then have v: "valid_input m c" "list_all (valid_input m) cs" by simp_all
  have "readable (Suc (Suc (2 * length cs + 1))) segs" using Cons.prems(1) by (simp del: readable.simps)
  then obtain t segs1 t2 segs2 where r: "read_with_length 2048 segs = Some (Some t, segs1)"
    "read_with_length 2048 segs1 = Some (Some t2, segs2)" "readable (2 * length cs + 1) segs2"
    using readable_Suc by blast
  let ?rest = "concat (map (typed m) cs) @ [[digit_char (nat (logout_choice m))]]"
  let ?e = "encode m (on_wire junk c)"
  obtain ch where ch: "choice_of (hd ?e) = Some ch" "ch \<noteq> logout_choice m"
    "scan_fields junk (client_fields m ch) (tl (typed m c) @ ?rest) = Some (tl ?e, ?rest)"
    using scan_typed [OF v(1)] by blast
  have input: "concat (map (typed m) (c # cs)) @ [[digit_char (nat (logout_choice m))]] = hd ?e # (tl (typed m c) @ ?rest)"
    using typed_Cons(1) [of m c junk] by simp
  have e: "?e = hd ?e # tl ?e" by (rule encode_Cons(1))
  have "client_menu junk m (hd ?e # (tl (typed m c) @ ?rest)) segs written =
      client_menu junk m ?rest segs2 (written @ hd ?e # tl ?e)"
    using typed_Cons(2) [of m junk c] by (subst client_menu.simps) (simp add: r ch)
  also have "\<dots> = Some ((written @ hd ?e # tl ?e) @ concat (map (\<lambda>c. encode m (on_wire junk c)) cs) @
      [[digit_char (nat (logout_choice m))]])"
    by (rule Cons.IH [OF r(3) v(2)])
  finally show ?case unfolding input using e by simp
qed

text \<open>What a user types into the client is what happens to the server's files: when the words fit
  their arrays and the network keeps writes apart, the client writes the encoding of the
  commands, and the server that reads it executes exactly these commands and logs out.\<close>

theorem typed_commands_reach_the_files:
  assumes "list_all (valid_input m) cs" "m \<noteq> Admin_Menu \<longrightarrow> fits MAX_ID (menu_user m)" "junk_ok junk"
    and "readable (2 * length cs + 1) answers" "disk_ok d"
  shows "\<exists>written s'. client_menu junk m (concat (map (typed m) cs) @ [[digit_char (nat (logout_choice m))]]) answers [] = Some written \<and>
    run (menu_loop alloc m \<lparr>inbox = written, sent = already\<rparr>) d =
      Some (s', fold (effect m) (map (on_wire junk) cs) d)"
proof -
  let ?w = "concat (map (encode m) (map (on_wire junk) cs)) @ [[digit_char (nat (logout_choice m))]]"
  have "list_all (valid_command m) (map (on_wire junk) cs)"
    using assms(1,3) by (auto simp: list_all_iff intro: on_wire_valid)
  then have "\<exists>s'. run (menu_loop alloc m \<lparr>inbox = ?w, sent = already\<rparr>) d = Some (s', fold (effect m) (map (on_wire junk) cs) d)"
    using session_runs [of m "map (on_wire junk) cs" d "\<lparr>inbox = ?w, sent = already\<rparr>" alloc] assms(2,5) by simp
  moreover have "client_menu junk m (concat (map (typed m) cs) @ [[digit_char (nat (logout_choice m))]]) answers [] = Some ?w"
    using client_menu_writes [OF assms(1,4), of junk "[]"] by (simp add: comp_def)
  ultimately show ?thesis by blast
qed

theorem typed_commands_reach_the_files_witness:
  "\<exists>written s'. client_menu (\<lambda>n. replicate n CHR ''x'') Admin_Menu [''6'', ''s1'', [digit_char 9]]
      [be32 1 @ ''m'', be32 1 @ ''r'', be32 1 @ ''m''] [] = Some written \<and>
    run (menu_loop (\<lambda>n. True) Admin_Menu \<lparr>inbox = written, sent = []\<rparr>) (demo_disk 3) =
      Some (s', effect Admin_Menu (Block (array (\<lambda>n. replicate n CHR ''x'') MAX_ID ''s1'')) (demo_disk 3))"
proof -
  have "be32_value (be32 (Suc 0)) = Suc 0" "be32 (Suc 0) \<noteq> []" by (simp_all add: be32_value_be32, simp add: be32_def)
  then have "readable 3 [be32 1 @ ''m'', be32 1 @ ''r'', be32 1 @ ''m'']"
    by (simp add: numeral_3_eq_3 read_with_length_def)
  then show ?thesis
    using typed_commands_reach_the_files [of Admin_Menu "[Block ''s1'']" "\<lambda>n. replicate n CHR ''x''"
        "[be32 1 @ ''m'', be32 1 @ ''r'', be32 1 @ ''m'']" "demo_disk 3" "\<lambda>n. True" "[]"]
    by (simp add: junk_ok_def typable_def MAX_ID_def numeral_3_eq_3 del: readable.simps)
qed

end
