(* ===== verification/Legacy_Login.thy ===== *)
theory Legacy_Login
  imports Legacy_Client
begin

text \<open>
  \<^verbatim>\<open>client/client.c\<close>: \<open>main\<close>, which connects until a login succeeds and then serves the menu, and the
  whole session of a user: from the words typed, through the login on both sides and the menu, to the
  server's files. The three arrays of \<open>main\<close> keep what earlier attempts left in them. A connection is the
  list of segments the server's answers arrive in; attempts to connect that fail are repeated and leave
  no trace.
\<close>

section \<open>The login of the client\<close>


text \<open>\<open>scanf("%s", a)\<close> into an array of \<open>main\<close>; at the end of the input it stays as it was.\<close>

definition scan_into :: "string \<Rightarrow> string list \<Rightarrow> (string \<times> string list) option" where
  "scan_into a input = (case input of
     [] \<Rightarrow> Some (a, [])
   | w # ws \<Rightarrow> if length a \<le> length w then None else Some (w @ NUL # drop (length w + 1) a, ws))"









section \<open>A whole session\<close>

fun menu_of :: "nat \<Rightarrow> string \<Rightarrow> menu" where
  "menu_of c user = (if c = 1 then Admin_Menu else if c = 2 then Faculty_Menu user else Student_Menu user)"

declare menu_of.simps [simp del]

lemma menu_of_cases: "menu_of c user = Admin_Menu \<or> menu_of c user = Faculty_Menu user \<or> menu_of c user = Student_Menu user"
  by (simp add: menu_of.simps)




lemma scan_into_word: "length w < length a \<Longrightarrow> scan_into a (w # ws) = Some (w @ NUL # drop (length w + 1) a, ws)"
  by (simp add: scan_into_def)















end
