(* ===== verification/Legacy_Main.thy ===== *)
theory Legacy_Main
  imports Legacy_Login
begin

text \<open>
  \<open>main\<close> of \<^verbatim>\<open>server/server.c\<close>: the start, the loop that accepts connections and gives each its own
  thread, and what the threads of all clients together do to the files. The calls of the operating
  system that may fail are given by their outcomes. A connection is the list of segments that will
  arrive on it; a thread is part of the interleaving from the start and takes its first step once it
  has been created.
\<close>

section \<open>The start and the loop\<close>





section \<open>One client\<close>









section \<open>All clients\<close>








end
