(* ===== verification/Master_Worker.thy ===== *)
theory Master_Worker
  imports Transition_Systems C_Strings "HOL-Library.Multiset"
begin

text \<open>
  \<^verbatim>\<open>basic_requirements/master_worker_pool/master-worker.c\<close>: masters put numbered requests into a
  stack of bounded size, workers take them out; one mutex, two condition variables, and every
  notification is a broadcast. A step is one turn of a loop from locking the mutex to unlocking
  it or waiting. \<open>taken\<close> is history. The skeleton of the exercise, without synchronisation,
  is at the end.
\<close>

datatype thread =
    At_Lock      \<comment> \<open>about to lock the mutex, or woken up\<close>
  | In_Wait      \<comment> \<open>in \<open>pthread_cond_wait\<close>\<close>
  | Returned

record mw =
  stack :: "int list"          \<comment> \<open>\<open>buffer[0 .. curr_buf_size - 1]\<close>\<close>
  item_to_produce :: int
  total_requests :: int
  max_buf_size :: int
  masters :: "thread list"
  mw_workers :: "thread list"
  taken :: "int list"

text \<open>\<open>main\<close>: the arguments are items, size, workers, masters; fewer than four and it exits.\<close>

definition start_pool :: "string list \<Rightarrow> mw option" where
  "start_pool args = (case args of
     a1 # a2 # a3 # a4 # _ \<Rightarrow> do {
       n \<leftarrow> atoi a1; size \<leftarrow> atoi a2; ws \<leftarrow> atoi a3; ms \<leftarrow> atoi a4;
       Some \<lparr>stack = [], item_to_produce = 0, total_requests = n, max_buf_size = size,
         masters = replicate (nat ms) At_Lock, mw_workers = replicate (nat ws) At_Lock, taken = []\<rparr> }
   | _ \<Rightarrow> None)"

text \<open>\<open>pthread_cond_broadcast\<close>.\<close>

definition broadcast :: "thread list \<Rightarrow> thread list" where
  "broadcast = map (\<lambda>t. if t = In_Wait then At_Lock else t)"

text \<open>One turn of \<open>generate_requests_loop\<close> of master \<open>i\<close>.\<close>

definition generate_requests :: "nat \<Rightarrow> mw \<Rightarrow> mw" where
  "generate_requests i s =
     (if max_buf_size s \<le> int (length (stack s)) then s\<lparr>masters := (masters s)[i := In_Wait]\<rparr>
      else if total_requests s \<le> item_to_produce s
      then s\<lparr>masters := (broadcast (masters s))[i := Returned]\<rparr>
      else s\<lparr>stack := stack s @ [item_to_produce s], item_to_produce := item_to_produce s + 1,
             mw_workers := broadcast (mw_workers s)\<rparr>)"

text \<open>One turn of \<open>consume_requests_loop\<close> of worker \<open>j\<close>.\<close>

definition consume_requests :: "nat \<Rightarrow> mw \<Rightarrow> mw" where
  "consume_requests j s =
     (if stack s = []
      then if total_requests s \<le> item_to_produce s
           then s\<lparr>mw_workers := (broadcast (mw_workers s))[j := Returned]\<rparr>
           else s\<lparr>mw_workers := (mw_workers s)[j := In_Wait]\<rparr>
      else s\<lparr>stack := butlast (stack s), taken := taken s @ [last (stack s)], masters := broadcast (masters s)\<rparr>)"

inductive mw_turn :: "mw \<Rightarrow> mw \<Rightarrow> bool" where
  master: "i < length (masters s) \<Longrightarrow> masters s ! i = At_Lock \<Longrightarrow> mw_turn s (generate_requests i s)"
| worker: "j < length (mw_workers s) \<Longrightarrow> mw_workers s ! j = At_Lock \<Longrightarrow> mw_turn s (consume_requests j s)"

inductive mw_step :: "mw \<Rightarrow> mw \<Rightarrow> bool" where
  turn: "mw_turn s s' \<Longrightarrow> mw_step s s'"
| spurious_master: "i < length (masters s) \<Longrightarrow> masters s ! i = In_Wait \<Longrightarrow>
    mw_step s (s\<lparr>masters := (masters s)[i := At_Lock]\<rparr>)"
| spurious_worker: "j < length (mw_workers s) \<Longrightarrow> mw_workers s ! j = In_Wait \<Longrightarrow>
    mw_step s (s\<lparr>mw_workers := (mw_workers s)[j := At_Lock]\<rparr>)"

definition mw_start :: "mw \<Rightarrow> bool" where
  "mw_start s \<longleftrightarrow> (\<exists>n size ms ws. s = \<lparr>stack = [], item_to_produce = 0, total_requests = n, max_buf_size = size,
     masters = replicate ms At_Lock, mw_workers = replicate ws At_Lock, taken = []\<rparr>)"

text \<open>The joins of \<open>main\<close> return.\<close>

definition all_returned :: "mw \<Rightarrow> bool" where
  "all_returned s \<longleftrightarrow> list_all (\<lambda>t. t = Returned) (masters s @ mw_workers s)"

section \<open>The invariant\<close>

definition mw_inv :: "mw \<Rightarrow> bool" where
  "mw_inv s \<longleftrightarrow>
     int (length (stack s)) \<le> max 0 (max_buf_size s) \<and>
     0 \<le> item_to_produce s \<and> item_to_produce s \<le> max 0 (total_requests s) \<and>
     mset (taken s) + mset (stack s) = mset_set {0 ..< item_to_produce s} \<and>
     (In_Wait \<in> set (masters s) \<longrightarrow> max_buf_size s \<le> int (length (stack s))) \<and>
     (In_Wait \<in> set (mw_workers s) \<longrightarrow> stack s = [] \<and> item_to_produce s < total_requests s) \<and>
     (Returned \<in> set (masters s) \<longrightarrow> total_requests s \<le> item_to_produce s) \<and>
     (Returned \<in> set (mw_workers s) \<longrightarrow> stack s = [] \<and> total_requests s \<le> item_to_produce s)"

lemma broadcast_simps [simp]:
  "length (broadcast ts) = length ts" "In_Wait \<notin> set (broadcast ts)"
  "Returned \<in> set (broadcast ts) \<longleftrightarrow> Returned \<in> set ts"
  by (auto simp: broadcast_def)

lemma mset_set_atLeastLessThan_Suc: "0 \<le> n \<Longrightarrow> mset_set {0 ..< n + 1} = add_mset n (mset_set {0 ..< n :: int})"
proof -
  assume "0 \<le> n"
  then have "{0 ..< n + 1} = insert n {0 ..< n}" by auto
  then show ?thesis by simp
qed

lemma generate_requests_inv:
  assumes "mw_inv s" "i < length (masters s)" "masters s ! i = At_Lock"
  shows "mw_inv (generate_requests i s)"
proof (cases "max_buf_size s \<le> int (length (stack s)) \<or> total_requests s \<le> item_to_produce s")
  case True
  then show ?thesis using assms(1)
    by (auto simp: generate_requests_def mw_inv_def dest!: update_cases)
next
  case False
  then have push: "generate_requests i s = s\<lparr>stack := stack s @ [item_to_produce s],
      item_to_produce := item_to_produce s + 1, mw_workers := broadcast (mw_workers s)\<rparr>"
    by (simp add: generate_requests_def)
  have "0 \<le> item_to_produce s" and
    m: "mset (taken s) + mset (stack s) = mset_set {0 ..< item_to_produce s}"
    using assms(1) by (simp_all add: mw_inv_def)
  then have "mset (taken s) + mset (stack s @ [item_to_produce s]) = mset_set {0 ..< item_to_produce s + 1}"
    by (simp add: mset_set_atLeastLessThan_Suc)
  then show ?thesis using assms(1) False unfolding push mw_inv_def by auto
qed

lemma consume_requests_inv:
  assumes "mw_inv s" "j < length (mw_workers s)" "mw_workers s ! j = At_Lock"
  shows "mw_inv (consume_requests j s)"
proof (cases "stack s = []")
  case True
  then show ?thesis using assms(1)
    by (auto simp: consume_requests_def mw_inv_def dest!: update_cases)
next
  case False
  then obtain st x where st: "stack s = st @ [x]" by (cases "stack s" rule: rev_cases) auto
  then have pop: "consume_requests j s = s\<lparr>stack := st, taken := taken s @ [x], masters := broadcast (masters s)\<rparr>"
    by (simp add: consume_requests_def)
  show ?thesis using assms(1) unfolding pop mw_inv_def by (auto simp: st)
qed

lemma mw_turn_inv: "mw_turn s s' \<Longrightarrow> mw_inv s \<Longrightarrow> mw_inv s'"
  by (induction rule: mw_turn.induct) (auto intro: generate_requests_inv consume_requests_inv)

lemma mw_step_inv: "mw_step s s' \<Longrightarrow> mw_inv s \<Longrightarrow> mw_inv s'"
proof (induction rule: mw_step.induct)
  case (turn s s')
  then show ?case by (blast intro: mw_turn_inv)
qed (auto simp: mw_inv_def dest!: update_cases)

interpretation mw: step_invariant mw_start mw_step mw_inv
proof unfold_locales
  show "mw_inv s" if "mw_start s" for s using that by (auto simp: mw_start_def mw_inv_def)
  show "mw_inv s'" if "mw_inv s" "mw_step s s'" for s s' using that(2,1) by (rule mw_step_inv)
qed

section \<open>Properties\<close>

text \<open>However the threads interleave, the stack never holds more than its size, so that no write goes
  past the allocated buffer, and every request produced so far is either still in the stack or
  was taken by exactly one worker.\<close>

theorem requests_stay_in_bounds:
  assumes "reachable mw_start mw_step s"
  shows "int (length (stack s)) \<le> max 0 (max_buf_size s) \<and>
    mset (taken s) + mset (stack s) = mset_set {0 ..< item_to_produce s}"
  using mw.reachable_inv [OF assms] by (simp add: mw_inv_def)

definition demo_mw :: mw where
  "demo_mw = \<lparr>stack = [], item_to_produce = 0, total_requests = 1, max_buf_size = 1,
     masters = [At_Lock], mw_workers = [At_Lock], taken = []\<rparr>"

lemma demo_mw_start: "mw_start demo_mw"
  unfolding mw_start_def demo_mw_def by (rule exI [of _ 1], rule exI [of _ 1], rule exI [of _ 1], rule exI [of _ 1]) simp

text \<open>The run in which the master produces and returns, and the worker takes and returns.\<close>

definition demo_mw_end :: mw where
  "demo_mw_end = consume_requests 0 (generate_requests 0 (consume_requests 0 (generate_requests 0 demo_mw)))"

lemma demo_mw_end_state: "demo_mw_end = \<lparr>stack = [], item_to_produce = 1, total_requests = 1, max_buf_size = 1,
     masters = [Returned], mw_workers = [Returned], taken = [0]\<rparr>"
  by (simp add: demo_mw_end_def demo_mw_def generate_requests_def consume_requests_def broadcast_def)

lemma demo_mw_reachable: "reachable mw_start mw_step demo_mw_end"
proof -
  note eval = demo_mw_def generate_requests_def consume_requests_def broadcast_def
  have "reachable mw_start mw_step demo_mw" by (rule reachable.start) (rule demo_mw_start)
  then have "reachable mw_start mw_step (generate_requests 0 demo_mw)"
    by (rule reachable.further) (rule mw_step.turn, rule mw_turn.master, simp_all add: eval)
  then have "reachable mw_start mw_step (consume_requests 0 (generate_requests 0 demo_mw))"
    by (rule reachable.further) (rule mw_step.turn, rule mw_turn.worker, simp_all add: eval)
  then have "reachable mw_start mw_step (generate_requests 0 (consume_requests 0 (generate_requests 0 demo_mw)))"
    by (rule reachable.further) (rule mw_step.turn, rule mw_turn.master, simp_all add: eval)
  then show ?thesis
    unfolding demo_mw_end_def
    by (rule reachable.further) (rule mw_step.turn, rule mw_turn.worker, simp_all add: eval)
qed

theorem requests_stay_in_bounds_witness: "mset (taken demo_mw_end) = mset_set {0 ..< 1}"
  using requests_stay_in_bounds [OF demo_mw_reachable] by (simp add: demo_mw_end_state)

text \<open>C33: With at least one master, one worker and one place in the buffer the program cannot deadlock:
  as long as a thread has not returned, some thread can take a turn. When all have returned,
  every request was taken exactly once.\<close>

theorem pool_never_deadlocks:
  assumes "reachable mw_start mw_step s" "masters s \<noteq> []" "mw_workers s \<noteq> []" "0 < max_buf_size s"
  shows "(\<exists>s'. mw_turn s s') \<or> all_returned s \<and> mset (taken s) = mset_set {0 ..< max 0 (total_requests s)}"
proof (cases "At_Lock \<in> set (masters s) \<or> At_Lock \<in> set (mw_workers s)")
  case True
  then show ?thesis using mw_turn.master mw_turn.worker by (metis in_set_conv_nth)
next
  case False
  have inv: "mw_inv s" using assms(1) by (rule mw.reachable_inv)
  have all: "t = In_Wait \<or> t = Returned" if "t \<in> set (masters s) \<union> set (mw_workers s)" for t
    using that False by (cases t) auto
  have m: "hd (masters s) \<in> set (masters s)" "hd (mw_workers s) \<in> set (mw_workers s)" using assms(2,3) by simp_all
  have no_master: "In_Wait \<notin> set (masters s)"
  proof
    assume "In_Wait \<in> set (masters s)"
    then have "stack s \<noteq> []" using inv assms(4) by (auto simp: mw_inv_def)
    then show False using all [of "hd (mw_workers s)"] m inv by (auto simp: mw_inv_def)
  qed
  then have "Returned \<in> set (masters s)" using all [of "hd (masters s)"] m by auto
  then have no_worker: "In_Wait \<notin> set (mw_workers s)" using inv by (auto simp: mw_inv_def)
  then have "Returned \<in> set (mw_workers s)" using all [of "hd (mw_workers s)"] m by auto
  then have e: "stack s = []" "total_requests s \<le> item_to_produce s" using inv by (auto simp: mw_inv_def)
  then have "item_to_produce s = max 0 (total_requests s)" using inv by (auto simp: mw_inv_def)
  then have "mset (taken s) = mset_set {0 ..< max 0 (total_requests s)}" using inv e(1) by (simp add: mw_inv_def)
  moreover have "all_returned s" using all no_master no_worker by (fastforce simp: all_returned_def list_all_iff)
  ultimately show ?thesis by blast
qed

theorem pool_never_deadlocks_witness:
  "(\<exists>s'. mw_turn demo_mw_end s') \<or> all_returned demo_mw_end \<and> mset (taken demo_mw_end) = mset_set {0 ..< 1}"
  using pool_never_deadlocks [OF demo_mw_reachable] by (simp add: demo_mw_end_state)

section \<open>Termination\<close>

text \<open>What is left to do: a turn makes it smaller.\<close>

definition thread_work :: "thread list \<Rightarrow> nat \<Rightarrow> nat" where
  "thread_work ts n = n * count_of (\<lambda>t. t \<noteq> Returned) ts + count_of (\<lambda>t. t = At_Lock) ts"

definition mw_work :: "mw \<Rightarrow> nat" where
  "mw_work s = (let n = Suc (length (masters s) + length (mw_workers s)) in
     2 * n * nat (total_requests s - item_to_produce s) + n * length (stack s) +
     thread_work (masters s) n + thread_work (mw_workers s) n)"

lemma count_of_le: "count_of P xs \<le> length xs"
  by (simp add: count_of_def)

lemma count_of_update_less:
  assumes "i < length xs" "P (xs ! i)" "\<not> P v"
  shows "count_of P (xs[i := v]) + 1 = count_of P xs"
  using count_of_update [OF assms(1), of P v] assms(2,3) by simp

lemma count_of_update_same:
  assumes "i < length xs" "P (xs ! i) = P v"
  shows "count_of P (xs[i := v]) = count_of P xs"
  using count_of_update [OF assms(1), of P v] assms(2) by (simp split: if_splits)

lemma thread_work_wait:
  "i < length ts \<Longrightarrow> ts ! i = At_Lock \<Longrightarrow> thread_work (ts[i := In_Wait]) n < thread_work ts n"
  using count_of_update_less [of i ts "\<lambda>t. t = At_Lock" In_Wait]
    count_of_update_same [of i ts "\<lambda>t. t \<noteq> Returned" In_Wait]
  by (simp add: thread_work_def)

lemma count_broadcast: "count_of (\<lambda>t. t \<noteq> Returned) (broadcast ts) = count_of (\<lambda>t. t \<noteq> Returned) ts"
  by (induction ts) (simp_all add: broadcast_def)

lemma thread_work_broadcast: "thread_work (broadcast ts) n \<le> thread_work ts n + length ts"
  using count_of_le [of "\<lambda>t. t = At_Lock" "broadcast ts"] by (simp add: thread_work_def count_broadcast)

lemma thread_work_return:
  assumes "i < length ts" "ts ! i = At_Lock" "length ts < n"
  shows "thread_work ((broadcast ts)[i := Returned]) n < thread_work ts n"
proof -
  have i: "i < length (broadcast ts)" "broadcast ts ! i = At_Lock" using assms by (simp_all add: broadcast_def)
  let ?a = "count_of (\<lambda>t. t \<noteq> Returned) ((broadcast ts)[i := Returned])"
  have a: "count_of (\<lambda>t. t \<noteq> Returned) ts = Suc ?a"
    using count_of_update_less [OF i(1), of "\<lambda>t. t \<noteq> Returned" Returned] i(2) by (simp add: count_broadcast)
  have "count_of (\<lambda>t. t = At_Lock) ((broadcast ts)[i := Returned]) \<le> length ts"
    using count_of_le [of "\<lambda>t. t = At_Lock" "(broadcast ts)[i := Returned]"] by simp
  then show ?thesis using assms(3) unfolding thread_work_def a by simp
qed

lemma generate_requests_work:
  assumes "i < length (masters s)" "masters s ! i = At_Lock"
  shows "mw_work (generate_requests i s) < mw_work s"
proof -
  let ?n = "Suc (length (masters s) + length (mw_workers s))"
  consider (wait) "max_buf_size s \<le> int (length (stack s))"
    | (leave) "\<not> max_buf_size s \<le> int (length (stack s))" "total_requests s \<le> item_to_produce s"
    | (push) "\<not> max_buf_size s \<le> int (length (stack s))" "item_to_produce s < total_requests s"
    by linarith
  then show ?thesis
  proof cases
    case wait
    then show ?thesis using thread_work_wait [OF assms, of ?n] by (simp add: generate_requests_def mw_work_def Let_def)
  next
    case leave
    then show ?thesis using thread_work_return [OF assms, of ?n] by (simp add: generate_requests_def mw_work_def Let_def)
  next
    case push
    then obtain k where k: "nat (total_requests s - item_to_produce s) = Suc k"
      "nat (total_requests s - (item_to_produce s + 1)) = k"
      by (cases "nat (total_requests s - item_to_produce s)") auto
    have "thread_work (broadcast (mw_workers s)) ?n < thread_work (mw_workers s) ?n + ?n"
      using thread_work_broadcast [of "mw_workers s" ?n] by simp
    then show ?thesis using push k by (simp add: generate_requests_def mw_work_def Let_def)
  qed
qed

lemma consume_requests_work:
  assumes "j < length (mw_workers s)" "mw_workers s ! j = At_Lock"
  shows "mw_work (consume_requests j s) < mw_work s"
proof -
  let ?n = "Suc (length (masters s) + length (mw_workers s))"
  consider (leave) "stack s = []" "total_requests s \<le> item_to_produce s"
    | (wait) "stack s = []" "\<not> total_requests s \<le> item_to_produce s" | (pop) "stack s \<noteq> []"
    by blast
  then show ?thesis
  proof cases
    case leave
    then show ?thesis using thread_work_return [OF assms, of ?n] by (simp add: consume_requests_def mw_work_def Let_def)
  next
    case wait
    then show ?thesis using thread_work_wait [OF assms, of ?n] by (simp add: consume_requests_def mw_work_def Let_def)
  next
    case pop
    then obtain k where k: "length (stack s) = Suc k" "length (butlast (stack s)) = k" by (cases "length (stack s)") auto
    have "thread_work (broadcast (masters s)) ?n < thread_work (masters s) ?n + ?n"
      using thread_work_broadcast [of "masters s" ?n] by simp
    then show ?thesis using pop k by (simp add: consume_requests_def mw_work_def Let_def)
  qed
qed

text \<open>Every turn makes the remaining work smaller, so that without spurious wakeups no run is longer
  than the work it starts with: the program comes to its joins.\<close>

theorem every_turn_makes_progress:
  assumes "mw_turn s s'"
  shows "mw_work s' < mw_work s"
  using assms by (cases rule: mw_turn.cases) (simp_all add: generate_requests_work consume_requests_work)

theorem every_turn_makes_progress_witness: "mw_work (generate_requests 0 demo_mw) < mw_work demo_mw"
  by (rule every_turn_makes_progress, rule mw_turn.master) (simp_all add: demo_mw_def)

lemma turn_sizes:
  "length (masters (generate_requests i s)) = length (masters s) \<and> max_buf_size (generate_requests i s) = max_buf_size s"
  "length (masters (consume_requests i s)) = length (masters s) \<and> max_buf_size (consume_requests i s) = max_buf_size s"
  by (simp_all add: generate_requests_def consume_requests_def)

lemma mw_step_sizes:
  "mw_step s s' \<Longrightarrow> length (masters s') = length (masters s) \<and> max_buf_size s' = max_buf_size s"
proof (induction rule: mw_step.induct)
  case (turn s s')
  then show ?case by (cases rule: mw_turn.cases) (simp_all add: turn_sizes)
qed simp_all

definition never_returned :: "mw \<Rightarrow> bool" where
  "never_returned s \<longleftrightarrow> Returned \<notin> set (masters s) \<and> max_buf_size s \<le> 0 \<and> masters s \<noteq> []"

lemma generate_requests_never: "never_returned s \<Longrightarrow> never_returned (generate_requests i s)"
  by (auto simp: never_returned_def generate_requests_def dest!: update_cases)

lemma consume_requests_never: "never_returned s \<Longrightarrow> never_returned (consume_requests j s)"
  by (cases "stack s = []"; cases "total_requests s \<le> item_to_produce s")
    (auto simp: never_returned_def consume_requests_def, auto simp: broadcast_def)

lemma mw_step_never: "mw_step s s' \<Longrightarrow> never_returned s \<Longrightarrow> never_returned s'"
proof (induction rule: mw_step.induct)
  case (turn s s')
  then show ?case by (auto elim!: mw_turn.cases intro: generate_requests_never consume_requests_never)
qed (auto simp: never_returned_def dest!: update_cases)

lemma reachable_not_returned:
  assumes "reachable mw_start mw_step s" "max_buf_size s \<le> 0"
  shows "Returned \<notin> set (masters s)"
proof -
  have "max_buf_size s \<le> 0 \<longrightarrow> masters s \<noteq> [] \<longrightarrow> never_returned s" using assms(1)
  proof (induction rule: reachable.induct)
    case (further s s')
    have "masters s' = [] \<longleftrightarrow> masters s = []" "max_buf_size s' = max_buf_size s"
      using mw_step_sizes [OF further.hyps(2)] by auto
    then show ?case using further by (auto dest: mw_step_never)
  qed (auto simp: mw_start_def never_returned_def)
  then show ?thesis using assms(2) by (cases "masters s") (auto simp: never_returned_def)
qed

text \<open>With a buffer of no places every master waits for ever, even when nothing is to be produced: the
  test for a full buffer comes before the test for the end.\<close>

theorem empty_buffer_blocks:
  assumes "reachable mw_start mw_step s" "max_buf_size s \<le> 0" "mw_step\<^sup>*\<^sup>* s s'" "masters s \<noteq> []"
  shows "\<not> all_returned s'"
proof -
  have "Returned \<notin> set (masters s)" using assms(1,2) by (rule reachable_not_returned)
  then have "never_returned s" using assms(2,4) by (simp add: never_returned_def)
  with assms(3) have "never_returned s'" by (induction rule: rtranclp_induct) (auto dest: mw_step_never)
  then show ?thesis by (cases "masters s'") (auto simp: never_returned_def all_returned_def)
qed

definition blocked_mw :: mw where
  "blocked_mw = demo_mw\<lparr>total_requests := 0, max_buf_size := 0\<rparr>"

theorem empty_buffer_blocks_witness: "\<not> all_returned blocked_mw"
proof (rule empty_buffer_blocks)
  show "reachable mw_start mw_step blocked_mw"
    by (rule reachable.start)
      (auto simp: mw_start_def blocked_mw_def demo_mw_def intro: exI [of _ 1])
qed (simp_all add: blocked_mw_def demo_mw_def)

section \<open>The skeleton\<close>

text \<open>
  \<^verbatim>\<open>master-worker-skeleton.c\<close>: one master alone, \<open>None\<close> when it writes behind the buffer. It looks at
  the number of items only.
\<close>

function skeleton_loop :: "int \<Rightarrow> int \<Rightarrow> int list \<Rightarrow> int \<Rightarrow> int list option" where
  "skeleton_loop n cap st item =
     (if n \<le> item then Some st
      else if cap \<le> int (length st) then None
      else skeleton_loop n cap (st @ [item]) (item + 1))"
  by pat_completeness auto
termination
  by (relation "measure (\<lambda>(n, cap, st, item). nat (n - item))") auto

declare skeleton_loop.simps [simp del]

lemma skeleton_loop_result:
  "item \<le> n \<Longrightarrow> skeleton_loop n cap st item =
    (if n - item + int (length st) \<le> cap \<or> n = item then Some (st @ [item..n - 1]) else None)"
proof (induction n cap st item rule: skeleton_loop.induct)
  case (1 n cap st item)
  show ?case
  proof (cases "n = item")
    case False
    then have "[item..n - 1] = item # [item + 1..n - 1]" using 1(2) by (subst upto.simps) simp
    then show ?thesis using 1 False by (subst skeleton_loop.simps) auto
  qed (subst skeleton_loop.simps, simp)
qed

text \<open>The skeleton stays inside its buffer exactly when the buffer holds all items at once.\<close>

theorem skeleton_needs_the_whole_buffer:
  assumes "0 \<le> n" "0 \<le> cap"
  shows "skeleton_loop n cap [] 0 = (if n \<le> cap then Some [0..n - 1] else None)"
  using assms skeleton_loop_result [of 0 n cap "[]"] by auto

theorem skeleton_needs_the_whole_buffer_witness: "skeleton_loop 3 2 [] 0 = None"
  using skeleton_needs_the_whole_buffer [of 3 2] by simp

end
