(* ===== verification/Shared_Connection.thy ===== *)
theory Shared_Connection
  imports Course_Service Thread_Programs
begin

text \<open>
  \<^verbatim>\<open>RegistrationService.hpp\<close> as it runs in the request threads: one SQLite connection that all
  threads use, the map of the per-course mutexes, and each call as the sequence of its statements.
  SQLite executes one \<open>sqlite3_step\<close> at a time, so a statement is one step of a thread; reading
  \<open>changes()\<close> or \<open>last_insert_id()\<close> is another step, and other threads may run in between. A step
  that is not possible (\<open>None\<close>) is a \<open>lock\<close> on a mutex that is held: the thread waits.

  \<open>implements\<close> relates a program to the sequential operation of the earlier theories: executed
  without interruption it has the same result and the same effect.
\<close>

section \<open>The shared state and its steps\<close>

text \<open>\<open>course_mutexes_\<close>: the course ids in the map, with whether the mutex is locked.\<close>

record service =
  sv_conn :: conn
  course_mutexes :: "int \<Rightarrow> bool option"

text \<open>The constructor: no mutex yet.\<close>

definition new_service :: "conn \<Rightarrow> service" where
  "new_service c = \<lparr>sv_conn = c, course_mutexes = Map.empty\<rparr>"

type_synonym 'a call = "(service, 'a) prog"

definition on_db :: "(conn \<Rightarrow> 'a \<times> conn) \<Rightarrow> 'a call" where
  "on_db f = atomically (\<lambda>s. Some (fst (f (sv_conn s)), s\<lparr>sv_conn := snd (f (sv_conn s))\<rparr>))"

definition select :: "(tables \<Rightarrow> 'a) \<Rightarrow> 'a call" where
  "select q = on_db (\<lambda>c. (q (db_tabs c), c))"

definition changes :: "int call" where
  "changes = on_db (\<lambda>c. (db_changes c, c))"

text \<open>The two critical sections on the map; \<open>try_emplace\<close> leaves a mutex that is there alone.\<close>

definition find_mutex :: "int \<Rightarrow> bool call" where
  "find_mutex cid = atomically (\<lambda>s. Some (course_mutexes s cid \<noteq> None, s))"

definition try_emplace :: "int \<Rightarrow> unit call" where
  "try_emplace cid = atomically (\<lambda>s. Some ((), if course_mutexes s cid = None
     then s\<lparr>course_mutexes := (course_mutexes s)(cid \<mapsto> False)\<rparr> else s))"

text \<open>A mutex is never moved or erased: the course id stands for the reference to it.\<close>

definition get_course_mutex :: "int \<Rightarrow> int call" where
  "get_course_mutex cid = andthen (find_mutex cid) (\<lambda>found.
     if found then prog.Done cid else andthen (try_emplace cid) (\<lambda>_. prog.Done cid))"

definition lock :: "int \<Rightarrow> unit call" where
  "lock m = atomically (\<lambda>s. if course_mutexes s m = Some False
     then Some ((), s\<lparr>course_mutexes := (course_mutexes s)(m \<mapsto> True)\<rparr>) else None)"

definition unlock :: "int \<Rightarrow> unit call" where
  "unlock m = atomically (\<lambda>s. Some ((), s\<lparr>course_mutexes := (course_mutexes s)(m \<mapsto> False)\<rparr>))"

section \<open>The calls\<close>

text \<open>\<open>Database::transaction\<close>: the exceptions of the body and of \<open>commit\<close> reach the rollback.\<close>

definition roll_back :: "exn \<Rightarrow> 'a exc call" where
  "roll_back e = andthen (on_db (\<lambda>c. ((), rollback c))) (\<lambda>_. prog.Done (Inl e))"

definition finish_transaction :: "'a exc \<Rightarrow> 'a exc call" where
  "finish_transaction r = (case r of
       Inl e \<Rightarrow> roll_back e
     | Inr a \<Rightarrow> andthen (on_db commit) (\<lambda>r'. case r' of Inl e \<Rightarrow> roll_back e | Inr _ \<Rightarrow> prog.Done (Inr a)))"

definition in_transaction :: "'a exc call \<Rightarrow> 'a exc call" where
  "in_transaction body = andthen (on_db begin_transaction) (\<lambda>r. case r of
       Inl e \<Rightarrow> prog.Done (Inl e)
     | Inr _ \<Rightarrow> andthen body finish_transaction)"

text \<open>\<open>RegistrationRepository::create\<close>.\<close>

definition reg_create_call :: "int \<Rightarrow> int \<Rightarrow> int exc call" where
  "reg_create_call sid cid = andthen (on_db (reactivate sid cid)) (\<lambda>_. andthen changes (\<lambda>n.
     if 0 < n then andthen (select (reg_id_of sid cid)) (\<lambda>i. prog.Done (Inr i))
     else andthen (on_db (insert_registration sid cid)) (\<lambda>inserted.
       if inserted then andthen (on_db (\<lambda>c. (last_insert_id c, c))) (\<lambda>i. prog.Done (Inr i))
       else prog.Done (Inl (Runtime_Error ''Failed to create registration'')))))"

definition register_steps :: "int \<Rightarrow> int \<Rightarrow> RegistrationResult exc call" where
  "register_steps sid cid = andthen (select (course_find_by_id cid)) (\<lambda>found. case found of
       None \<Rightarrow> prog.Done (Inr (failed ''Course not found'' 0))
     | Some course \<Rightarrow> andthen (select (reg_exists sid cid)) (\<lambda>already.
         if already then prog.Done (Inr (failed ''Already enrolled in this course''
                (c_capacity course - c_enrolled_count course)))
         else andthen (select (get_enrolled_count cid)) (\<lambda>taken.
           if c_capacity course - taken \<le> 0 then prog.Done (Inr (failed ''Course is full'' 0))
           else andthen (reg_create_call sid cid) (\<lambda>r. prog.Done (case r of
               Inl e \<Rightarrow> Inl e
             | Inr reg_id \<Rightarrow> Inr \<lparr>res_success = True, res_registration_id = reg_id, res_error = [],
                 res_remaining_seats = c_capacity course - taken - 1\<rparr>)))))"

definition drop_steps :: "int \<Rightarrow> int \<Rightarrow> RegistrationResult exc call" where
  "drop_steps sid cid = andthen (select (reg_exists sid cid)) (\<lambda>there.
     if \<not> there then prog.Done (Inr (failed ''Not enrolled in this course'' 0))
     else andthen (on_db (drop_registration sid cid)) (\<lambda>_.
       andthen (select (course_find_by_id cid)) (\<lambda>found. prog.Done (Inr
         \<lparr>res_success = True, res_registration_id = 0, res_error = [],
          res_remaining_seats = (case found of None \<Rightarrow> 0
            | Some course \<Rightarrow> c_capacity course - c_enrolled_count course + 1)\<rparr>))))"

datatype reg_call = Register (student: int) (course: int) | Drop (student: int) (course: int)

text \<open>The lambda of the call, and what its handler returns for an exception.\<close>

primrec steps_of :: "reg_call \<Rightarrow> RegistrationResult exc call" where
  "steps_of (Register sid cid) = register_steps sid cid"
| "steps_of (Drop sid cid) = drop_steps sid cid"

primrec answer :: "reg_call \<Rightarrow> RegistrationResult exc \<Rightarrow> RegistrationResult" where
  "answer (Register sid cid) r = (case r of
     Inr res \<Rightarrow> res | Inl e \<Rightarrow> failed (''Registration failed: '' @ what e) 0)"
| "answer (Drop sid cid) r = (case r of
     Inr res \<Rightarrow> res | Inl e \<Rightarrow> failed (''Drop failed: '' @ what e) 0)"

text \<open>
  \<open>register_student\<close> and \<open>drop_student\<close>: the \<open>lock_guard\<close> is released when the function returns.
\<close>

definition leave :: "reg_call \<Rightarrow> RegistrationResult \<Rightarrow> RegistrationResult call" where
  "leave x r = andthen (unlock (course x)) (\<lambda>_. prog.Done r)"

definition enter :: "reg_call \<Rightarrow> RegistrationResult call" where
  "enter x = andthen (in_transaction (steps_of x)) (\<lambda>r. leave x (answer x r))"

definition call_program :: "reg_call \<Rightarrow> RegistrationResult call" where
  "call_program x = andthen (get_course_mutex (course x)) (\<lambda>m. andthen (lock m) (\<lambda>_. enter x))"

text \<open>\<open>CourseService::update_course\<close> takes no mutex and opens no transaction.\<close>

definition update_course_call :: "Course \<Rightarrow> User \<Rightarrow> CourseResult call" where
  "update_course_call crs requester = andthen (select (course_find_by_id (c_id crs))) (\<lambda>found.
     case found of
       None \<Rightarrow> prog.Done (course_error ''Course not found'')
     | Some existing \<Rightarrow>
         if u_role requester = Faculty \<and> c_faculty_id existing \<noteq> u_id requester
         then prog.Done (course_error ''You can only update your own courses'')
         else if c_course_name crs = [] then prog.Done (course_error ''Course name is required'')
         else if c_capacity crs \<le> 0 then prog.Done (course_error ''Capacity must be positive'')
         else andthen (select (get_enrolled_count (c_id crs))) (\<lambda>taken.
           if c_capacity crs < taken
           then prog.Done (course_error (''Cannot reduce capacity below current enrollment ('' @
                  to_string taken @ '')''))
           else andthen (on_db (course_update crs)) (\<lambda>_. prog.Done (course_done (c_id crs)))))"

section \<open>A call without interruption\<close>

definition implements :: "'a call \<Rightarrow> (conn \<Rightarrow> 'a \<times> conn) \<Rightarrow> bool" where
  "implements p f \<longleftrightarrow> (\<forall>s. run p s = Some (fst (f (sv_conn s)), s\<lparr>sv_conn := snd (f (sv_conn s))\<rparr>))"

named_theorems implements_rules

lemma run_on_db [simp]:
  "run (on_db f) s = Some (fst (f (sv_conn s)), s\<lparr>sv_conn := snd (f (sv_conn s))\<rparr>)"
  by (simp add: on_db_def)

lemma implements_db [implements_rules]: "implements (on_db f) f"
  by (simp add: implements_def)

lemma implements_run: "implements p f \<Longrightarrow>
  run p s = Some (fst (f (sv_conn s)), s\<lparr>sv_conn := snd (f (sv_conn s))\<rparr>)"
  by (simp add: implements_def)

lemma implements_eq: "implements p f \<Longrightarrow> (\<And>c. f c = g c) \<Longrightarrow> implements p g"
  by (simp add: implements_def)

lemma implements_select [implements_rules]: "implements (select q) (\<lambda>c. (q (db_tabs c), c))"
  by (simp add: select_def implements_db)

lemma implements_changes [implements_rules]: "implements changes (\<lambda>c. (db_changes c, c))"
  by (simp add: changes_def implements_db)

lemma implements_Done [implements_rules]: "implements (prog.Done a) (\<lambda>c. (a, c))"
  by (simp add: implements_def)

lemma implements_andthen [implements_rules]:
  "implements p f \<Longrightarrow> (\<And>a. implements (k a) (g a)) \<Longrightarrow>
    implements (andthen p k) (\<lambda>c. case f c of (a, c') \<Rightarrow> g a c')"
  by (simp add: implements_def run_andthen split: prod.split)

lemma implements_if [implements_rules]:
  "implements p f \<Longrightarrow> implements q g \<Longrightarrow>
    implements (if b then p else q) (\<lambda>c. if b then f c else g c)"
  by simp

lemma implements_option [implements_rules]:
  "implements p f \<Longrightarrow> (\<And>a. implements (k a) (g a)) \<Longrightarrow>
    implements (case z of None \<Rightarrow> p | Some a \<Rightarrow> k a) (\<lambda>c. case z of None \<Rightarrow> f c | Some a \<Rightarrow> g a c)"
  by (simp split: option.split)

lemma implements_sum [implements_rules]:
  "(\<And>e. implements (h e) (f e)) \<Longrightarrow> (\<And>a. implements (k a) (g a)) \<Longrightarrow>
    implements (case z of Inl e \<Rightarrow> h e | Inr a \<Rightarrow> k a) (\<lambda>c. case z of Inl e \<Rightarrow> f e c | Inr a \<Rightarrow> g a c)"
  by (simp split: sum.split)

lemma implements_reg_create [implements_rules]: "implements (reg_create_call sid cid) (reg_create sid cid)"
  unfolding reg_create_call_def
  by (rule implements_eq, (rule implements_rules)+)
    (auto simp: reg_create_def Let_def split: prod.split)

lemma implements_register_steps [implements_rules]:
  "implements (register_steps sid cid) (register_body sid cid)"
  unfolding register_steps_def
  by (rule implements_eq, (rule implements_rules)+)
    (auto simp: register_body_def Let_def split: option.split prod.split sum.split)

lemma implements_drop_steps [implements_rules]: "implements (drop_steps sid cid) (drop_body sid cid)"
  unfolding drop_steps_def
  by (rule implements_eq, (rule implements_rules)+)
    (auto simp: drop_body_def Let_def split: option.split prod.split)

lemma implements_roll_back [implements_rules]: "implements (roll_back e) (\<lambda>c. (Inl e, rollback c))"
  unfolding roll_back_def by (rule implements_eq, (rule implements_rules)+) simp

lemma implements_in_transaction [implements_rules]:
  assumes "implements p f"
  shows "implements (in_transaction p) (transaction f)"
  unfolding in_transaction_def finish_transaction_def
  by (rule implements_eq, (rule implements_rules assms)+)
    (auto simp: transaction_def split: prod.split sum.split)

lemma implements_update_course:
  "implements (update_course_call crs requester) (Course_Service.update_course crs requester)"
  unfolding update_course_call_def
  by (rule implements_eq, (rule implements_rules)+)
    (auto simp: Course_Service.update_course_def Let_def split: option.split prod.split)

text \<open>The sequential operation a call stands for.\<close>

primrec body_of :: "reg_call \<Rightarrow> (conn, RegistrationResult) op" where
  "body_of (Register sid cid) = register_body sid cid"
| "body_of (Drop sid cid) = drop_body sid cid"

primrec perform :: "reg_call \<Rightarrow> conn \<Rightarrow> RegistrationResult \<times> conn" where
  "perform (Register sid cid) = register_student sid cid"
| "perform (Drop sid cid) = drop_student sid cid"

lemma implements_steps_of: "implements (steps_of x) (body_of x)"
  by (cases x) (simp_all add: implements_rules)

lemma perform_transaction:
  "perform x c = (case transaction (body_of x) c of (r, c') \<Rightarrow> (answer x r, c'))"
  by (cases x) (auto simp: register_student_def drop_student_def split: prod.split sum.split)

lemma run_get_course_mutex:
  "run (get_course_mutex cid) s = Some (cid, s\<lparr>course_mutexes := (course_mutexes s)
     (cid := (case course_mutexes s cid of None \<Rightarrow> Some False | Some b \<Rightarrow> Some b))\<rparr>)"
  by (simp add: get_course_mutex_def run_andthen find_mutex_def try_emplace_def fun_upd_idem
      split: option.split)

lemma uninterrupted_call:
  assumes "course_mutexes s (course x) \<noteq> Some True" and "perform x (sv_conn s) = (r, c)"
  shows "run (call_program x) s =
    Some (r, s\<lparr>sv_conn := c, course_mutexes := (course_mutexes s)(course x \<mapsto> False)\<rparr>)"
proof -
  note tx = implements_run [OF implements_in_transaction [OF implements_steps_of]]
  have "course_mutexes s (course x) \<in> {None, Some False}"
    using assms(1) by (cases "course_mutexes s (course x)") auto
  then show ?thesis
    using assms(2)
    by (auto simp: call_program_def enter_def leave_def run_andthen run_get_course_mutex lock_def
        unlock_def tx perform_transaction split: prod.splits)
qed

end
