(* ===== verification/Registration_Threads.thy ===== *)
theory Registration_Threads
  imports Shared_Connection
begin

text \<open>
  Registrations and drops in any number of threads on the shared connection. The stages of a
  call are the points where other threads can run; \<open>stage_step\<close> is what one step does to them.
  The invariant says that the database is always what the calls that have committed leave when
  they are executed one after the other, or such a database inside the transaction of exactly
  one thread, and that the mutex of a course is locked by exactly one thread between \<open>lock\<close> and
  \<open>unlock\<close>.
\<close>

section \<open>Statements inside a transaction\<close>

text \<open>Programs of statements that keep the open transaction.\<close>

definition db_step :: "(conn \<Rightarrow> 'a call \<times> conn) \<Rightarrow> 'a call" where
  "db_step g = Step (\<lambda>s. Some (fst (g (sv_conn s)), s\<lparr>sv_conn := snd (g (sv_conn s))\<rparr>))"

inductive keeps_txn :: "'a call \<Rightarrow> bool" where
  result: "keeps_txn (prog.Done a)"
| statement: "(\<And>c. stmt_frame c (snd (g c))) \<Longrightarrow> (\<And>c. keeps_txn (fst (g c))) \<Longrightarrow>
    keeps_txn (db_step g)"

lemma andthen_db_step: "andthen (db_step g) h = db_step (\<lambda>c. (andthen (fst (g c)) h, snd (g c)))"
  by (simp add: db_step_def)

lemma on_db_step: "on_db f = db_step (\<lambda>c. (prog.Done (fst (f c)), snd (f c)))"
  by (simp add: on_db_def atomically_def db_step_def)

lemma keeps_txn_andthen: "keeps_txn p \<Longrightarrow> (\<And>a. keeps_txn (h a)) \<Longrightarrow> keeps_txn (andthen p h)"
  by (induction rule: keeps_txn.induct) (auto simp: andthen_db_step intro: keeps_txn.intros)

lemma keeps_txn_on_db: "(\<And>c. stmt_frame c (snd (f c))) \<Longrightarrow> keeps_txn (on_db f)"
  unfolding on_db_step by (rule keeps_txn.statement) (simp_all add: keeps_txn.result)

lemma keeps_txn_select: "keeps_txn (select q)" and keeps_txn_changes: "keeps_txn changes"
  by (simp_all add: select_def changes_def keeps_txn_on_db)

lemmas keeps_txn_intros = keeps_txn.result keeps_txn_andthen keeps_txn_select keeps_txn_changes

lemma keeps_txn_reg_create: "keeps_txn (reg_create_call sid cid)"
  unfolding reg_create_call_def
  by (auto intro!: keeps_txn_intros keeps_txn_on_db
      simp: reactivate_def insert_registration_def)

lemma keeps_txn_steps_of: "keeps_txn (steps_of x)"
  by (cases x)
    (auto simp: register_steps_def drop_steps_def drop_registration_def
      intro!: keeps_txn_intros keeps_txn_on_db keeps_txn_reg_create split: option.split)

definition in_txn :: "conn \<Rightarrow> bool" where
  "in_txn c \<longleftrightarrow> \<not> idle c \<and> engine_ok c"

lemma in_txn_frame: "stmt_frame c c' \<Longrightarrow> in_txn c \<Longrightarrow> in_txn c'"
  by (simp add: in_txn_def stmt_frame_def idle_def engine_ok_def)

text \<open>
  From the connection \<open>c\<close> on, the statements of \<open>p\<close> take the transaction that is open in \<open>c\<close> to
  its end: they leave the connection \<open>c'\<close> and go on with \<open>q\<close>, whatever the other threads do to the
  mutexes.
\<close>

inductive finishes :: "'a call \<Rightarrow> conn \<Rightarrow> conn \<Rightarrow> 'a call \<Rightarrow> bool" for q c' where
  last: "in_txn c \<Longrightarrow> (\<And>s. sv_conn s = c \<Longrightarrow> f s = Some (q, s\<lparr>sv_conn := c'\<rparr>)) \<Longrightarrow>
    finishes q c' c (Step f)"
| more: "in_txn c \<Longrightarrow> (\<And>s. sv_conn s = c \<Longrightarrow> f s = Some (p, s\<lparr>sv_conn := c1\<rparr>)) \<Longrightarrow>
    db_txn c1 = db_txn c \<Longrightarrow> finishes q c' c1 p \<Longrightarrow> finishes q c' c (Step f)"

lemma finishes_last:
  "in_txn c \<Longrightarrow> f c = (a, c') \<Longrightarrow> k a = q \<Longrightarrow> finishes q c' c (andthen (on_db f) k)"
  unfolding on_db_step andthen_db_step unfolding db_step_def by (rule finishes.last) simp_all

lemma finishes_db_step:
  "in_txn c \<Longrightarrow> g c = (p, c1) \<Longrightarrow> stmt_frame c c1 \<Longrightarrow> finishes q c' c1 p \<Longrightarrow> finishes q c' c (db_step g)"
  unfolding db_step_def by (rule finishes.more [of c _ p c1]) (auto simp: stmt_frame_def)

lemma finishes_open: "finishes q c' c p \<Longrightarrow> in_txn c"
  by (cases rule: finishes.cases) auto

lemma finishes_body:
  assumes "keeps_txn p" "run p s = Some (a, s1)" "in_txn (sv_conn s)"
    and "finishes q c' (sv_conn s1) (h a)"
  shows "finishes q c' (sv_conn s) (andthen p h)"
  using assms
proof (induction arbitrary: s rule: keeps_txn.induct)
  case (statement g)
  obtain p c1 where g: "g (sv_conn s) = (p, c1)" by fastforce
  have txn: "in_txn c1"
    using in_txn_frame [OF statement.hyps(1) [of "sv_conn s"]] g statement.prems(2) by simp
  have "run p (s\<lparr>sv_conn := c1\<rparr>) = Some (a, s1)"
    using statement.prems(1) g by (simp add: db_step_def)
  then have "finishes q c' c1 (andthen p h)"
    using statement.IH [of "sv_conn s" "s\<lparr>sv_conn := c1\<rparr>"] txn g statement.prems(3) by simp
  then show ?case
    unfolding andthen_db_step by (intro finishes_db_step [OF statement.prems(2)])
      (use statement.hyps(1) [of "sv_conn s"] in \<open>simp_all add: g\<close>)
qed simp

section \<open>The stages of a call\<close>

datatype stage = Calling | Emplacing | Waiting | Entering | Inside
  | Leaving RegistrationResult | Returned RegistrationResult

definition waiting :: "reg_call \<Rightarrow> RegistrationResult call" where
  "waiting x = andthen (lock (course x)) (\<lambda>_. enter x)"

definition emplacing :: "reg_call \<Rightarrow> RegistrationResult call" where
  "emplacing x = andthen (try_emplace (course x)) (\<lambda>_. waiting x)"

definition transaction_of :: "reg_call \<Rightarrow> RegistrationResult call" where
  "transaction_of x = andthen (steps_of x)
     (\<lambda>r. andthen (finish_transaction r) (\<lambda>r. leave x (answer x r)))"

text \<open>The answer of a call that finds the transaction of another thread open.\<close>

definition refused :: "reg_call \<Rightarrow> RegistrationResult" where
  "refused x = answer x (Inl (Runtime_Error (''SQL execution failed: '' @
     ''cannot start a transaction within a transaction'' @ '' SQL: '' @ txn_sql Begin_Immediate)))"

fun at_stage :: "reg_call \<Rightarrow> stage \<Rightarrow> RegistrationResult call \<Rightarrow> bool" where
  "at_stage x Calling p = (p = call_program x)"
| "at_stage x Emplacing p = (p = emplacing x)"
| "at_stage x Waiting p = (p = waiting x)"
| "at_stage x Entering p = (p = enter x)"
| "at_stage x Inside p = True"
| "at_stage x (Leaving r) p = (p = leave x r)"
| "at_stage x (Returned r) p = (p = prog.Done r)"

inductive stage_step :: "reg_call \<Rightarrow> service \<Rightarrow> stage \<Rightarrow> stage \<Rightarrow> service \<Rightarrow> bool" for x s where
  found: "course_mutexes s (course x) \<noteq> None \<Longrightarrow> stage_step x s Calling Waiting s"
| missing: "stage_step x s Calling Emplacing s"
| emplaced: "ms = (course_mutexes s)(course x := (case course_mutexes s (course x) of
      None \<Rightarrow> Some False | Some b \<Rightarrow> Some b)) \<Longrightarrow>
    stage_step x s Emplacing Waiting (s\<lparr>course_mutexes := ms\<rparr>)"
| locked: "course_mutexes s (course x) = Some False \<Longrightarrow>
    stage_step x s Waiting Entering (s\<lparr>course_mutexes := (course_mutexes s)(course x \<mapsto> True)\<rparr>)"
| entered: "idle (sv_conn s) \<Longrightarrow> stage_step x s Entering Inside
    (s\<lparr>sv_conn := (sv_conn s)\<lparr>db_txn := Some (db_tabs (sv_conn s))\<rparr>\<rparr>)"
| refusal: "\<not> idle (sv_conn s) \<Longrightarrow> stage_step x s Entering (Leaving (refused x)) s"
| unlocked: "stage_step x s (Leaving r) (Returned r)
    (s\<lparr>course_mutexes := (course_mutexes s)(course x \<mapsto> False)\<rparr>)"

inductive_cases stage_stepE: "stage_step x s g g' s'"

lemma begin_transaction_simps:
  assumes "engine_ok c"
  shows "idle c \<Longrightarrow> begin_transaction c = (Inr (), c\<lparr>db_txn := Some (db_tabs c)\<rparr>)"
    and "\<not> idle c \<Longrightarrow> \<exists>e. begin_transaction c = (Inl e, c) \<and> answer x (Inl e) = refused x"
  using assms by (auto simp: begin_transaction_def execute_def txn_engine.simps idle_def engine_ok_def
      refused_def)

lemma call_program_step:
  "call_program x = Step (\<lambda>s. Some (if course_mutexes s (course x) = None then emplacing x else waiting x, s))"
  by (auto simp: call_program_def get_course_mutex_def find_mutex_def atomically_def emplacing_def
      waiting_def andthen_assoc fun_eq_iff)

lemma emplacing_step:
  "emplacing x = Step (\<lambda>s. Some (waiting x, s\<lparr>course_mutexes := (course_mutexes s)(course x :=
     (case course_mutexes s (course x) of None \<Rightarrow> Some False | Some b \<Rightarrow> Some b))\<rparr>))"
  by (auto simp: emplacing_def try_emplace_def atomically_def fun_eq_iff fun_upd_idem split: option.split)

lemma waiting_step:
  "waiting x = Step (\<lambda>s. if course_mutexes s (course x) = Some False
     then Some (enter x, s\<lparr>course_mutexes := (course_mutexes s)(course x \<mapsto> True)\<rparr>) else None)"
  by (auto simp: waiting_def lock_def atomically_def fun_eq_iff)

lemma enter_step:
  "enter x = db_step (\<lambda>c. (case fst (begin_transaction c) of
     Inl e \<Rightarrow> leave x (answer x (Inl e)) | Inr _ \<Rightarrow> transaction_of x, snd (begin_transaction c)))"
  by (auto simp: enter_def in_transaction_def andthen_assoc on_db_step andthen_db_step transaction_of_def
      intro!: arg_cong [of _ _ db_step] split: sum.split)

lemma leave_step:
  "leave x r = Step (\<lambda>s. Some (prog.Done r,
     s\<lparr>course_mutexes := (course_mutexes s)(course x \<mapsto> False)\<rparr>))"
  by (simp add: leave_def unlock_def atomically_def)

lemma stage_simulation:
  assumes "at_stage x g (Step f)" "g \<noteq> Inside" "engine_ok (sv_conn s)" "f s = Some (p, s')"
  obtains g' where "stage_step x s g g' s'" "at_stage x g' p" "g' = Inside \<longrightarrow> p = transaction_of x"
proof (cases g)
  case Calling
  then have "s' = s" "p = (if course_mutexes s (course x) = None then emplacing x else waiting x)"
    using assms by (auto simp: call_program_step)
  then show ?thesis
    using that [of Emplacing] that [of Waiting] stage_step.missing stage_step.found Calling
    by (cases "course_mutexes s (course x) = None") simp_all
next
  case Emplacing
  then show ?thesis using assms that [of Waiting] stage_step.emplaced [OF refl]
    by (auto simp: emplacing_step)
next
  case Waiting
  then show ?thesis using assms that [of Entering] stage_step.locked [of s x]
    by (auto simp: waiting_step split: if_splits)
next
  case Entering
  show ?thesis
  proof (cases "idle (sv_conn s)")
    case True
    have "p = transaction_of x \<and>
        s' = s\<lparr>sv_conn := (sv_conn s)\<lparr>db_txn := Some (db_tabs (sv_conn s))\<rparr>\<rparr>"
      using assms(1,4) Entering begin_transaction_simps(1) [OF assms(3) True]
      by (simp add: enter_step db_step_def)
    then show ?thesis using that [of Inside] stage_step.entered [OF True] Entering by simp
  next
    case False
    obtain e where "begin_transaction (sv_conn s) = (Inl e, sv_conn s)" "answer x (Inl e) = refused x"
      using begin_transaction_simps(2) [OF assms(3) False] by blast
    then have "p = leave x (refused x) \<and> s' = s"
      using assms(1,4) Entering by (simp add: enter_step db_step_def)
    then show ?thesis
      using that [of "Leaving (refused x)"] stage_step.refusal [OF False] Entering by simp
  qed
next
  case (Leaving r)
  then show ?thesis using assms that [of "Returned r"] stage_step.unlocked by (auto simp: leave_step)
qed (use assms in auto)

text \<open>The transaction of a call, from the point where it has begun.\<close>

lemma body_of_frame: "stmt_frame c (snd (body_of x c))"
  by (cases x) (simp_all add: register_body_frame drop_body_frame)

lemma transaction_finishes:
  assumes idle: "idle c" "engine_ok c" and run: "perform x c = (r, c')"
  shows "finishes (leave x r) c' (c\<lparr>db_txn := Some (db_tabs c)\<rparr>) (transaction_of x)"
proof -
  let ?c1 = "c\<lparr>db_txn := Some (db_tabs c)\<rparr>"
  let ?s = "\<lparr>sv_conn = ?c1, course_mutexes = Map.empty\<rparr>"
  obtain r0 c2 where b: "body_of x ?c1 = (r0, c2)" by fastforce
  have txn: "db_txn c2 = Some (db_tabs c)" "engine_ok c2"
    using body_of_frame [of ?c1 x] b idle(2) by (simp_all add: stmt_frame_def engine_ok_def)
  then have c2: "in_txn c2" by (simp add: in_txn_def idle_def)
  have c1: "in_txn ?c1" using idle by (simp add: in_txn_def idle_def engine_ok_def)
  have steps: "run (steps_of x) ?s = Some (r0, ?s\<lparr>sv_conn := c2\<rparr>)"
    using implements_run [OF implements_steps_of [of x], of ?s] b by simp
  have call: "(answer x r0, case r0 of Inl e \<Rightarrow> rollback c2 | Inr a \<Rightarrow> c2\<lparr>db_txn := None\<rparr>) = (r, c')"
    using run b begin_transaction_simps(1) [OF idle(2,1)] txn
    by (auto simp: perform_transaction transaction_def commit_def execute_def txn_engine.simps
        engine_ok_def split: sum.splits)
  have "finishes (leave x r) c' c2 (andthen (finish_transaction r0) (\<lambda>r. leave x (answer x r)))"
  proof (cases r0)
    case (Inl e)
    then show ?thesis
      using call c2 unfolding finish_transaction_def roll_back_def
      by (simp add: andthen_assoc) (rule finishes_last; simp)
  next
    case (Inr a)
    have "commit c2 = (Inr (), c2\<lparr>db_txn := None\<rparr>)"
      using txn by (simp add: commit_def execute_def txn_engine.simps engine_ok_def)
    then show ?thesis
      using Inr call c2 unfolding finish_transaction_def
      by (auto simp: andthen_assoc intro!: finishes_last)
  qed
  then show ?thesis
    using finishes_body [OF keeps_txn_steps_of steps, of "leave x r" c'] c1
    unfolding transaction_of_def by simp
qed


section \<open>The invariant\<close>

text \<open>The calls executed one after the other, with their answers.\<close>

fun serial :: "reg_call list \<Rightarrow> conn \<Rightarrow> RegistrationResult list \<times> conn" where
  "serial [] c = ([], c)"
| "serial (x # xs) c = (case perform x c of (r, c1) \<Rightarrow> case serial xs c1 of (rs, c2) \<Rightarrow> (r # rs, c2))"

lemma length_serial [simp]: "length (fst (serial xs c)) = length xs"
  by (induction xs arbitrary: c) (auto split: prod.split simp: prod_eq_iff)

lemma serial_append:
  "serial (xs @ ys) c = (case serial xs c of (rs, c1) \<Rightarrow> case serial ys c1 of (qs, c2) \<Rightarrow> (rs @ qs, c2))"
  by (induction xs arbitrary: c) (auto split: prod.split)

lemma serial_snoc:
  "fst (serial (xs @ [x]) c) = fst (serial xs c) @ [fst (perform x (snd (serial xs c)))]"
  "snd (serial (xs @ [x]) c) = snd (perform x (snd (serial xs c)))"
  by (simp_all add: serial_append split: prod.split)

lemma perform_engine:
  "idle c \<Longrightarrow> engine_ok c \<Longrightarrow> idle (snd (perform x c)) \<and> engine_ok (snd (perform x c))"
  by (cases x) simp_all

lemma serial_engine:
  "idle c \<Longrightarrow> engine_ok c \<Longrightarrow> idle (snd (serial xs c)) \<and> engine_ok (snd (serial xs c))"
proof (induction xs arbitrary: c)
  case (Cons x xs)
  then show ?case using perform_engine [of c x] by (auto split: prod.split simp: prod_eq_iff)
qed simp

fun holds_mutex :: "stage \<Rightarrow> bool" where
  "holds_mutex Entering = True"
| "holds_mutex Inside = True"
| "holds_mutex (Leaving r) = True"
| "holds_mutex g = False"

text \<open>The answer of the \<open>k\<close>-th call that committed is the one of the serial execution.\<close>

definition committed_answer :: "reg_call list \<Rightarrow> conn \<Rightarrow> nat list \<Rightarrow> nat \<Rightarrow> RegistrationResult \<Rightarrow> bool" where
  "committed_answer calls c order i r \<longleftrightarrow> (\<exists>k < length order.
     order ! k = i \<and> fst (serial (map (nth calls) order) c) ! k = r)"

fun answer_ok :: "reg_call list \<Rightarrow> conn \<Rightarrow> nat list \<Rightarrow> nat \<Rightarrow> stage \<Rightarrow> bool" where
  "answer_ok calls c order i (Leaving r) = (if i \<in> set order then committed_answer calls c order i r
     else r = refused (calls ! i))"
| "answer_ok calls c order i (Returned r) = (if i \<in> set order then committed_answer calls c order i r
     else r = refused (calls ! i))"
| "answer_ok calls c order i g = (i \<notin> set order)"

definition stages_ok :: "reg_call list \<Rightarrow> stage list \<Rightarrow> RegistrationResult call list \<Rightarrow> bool" where
  "stages_ok calls gs ts \<longleftrightarrow> length gs = length calls \<and> length ts = length calls \<and>
     (\<forall>i < length calls. at_stage (calls ! i) (gs ! i) (ts ! i))"

definition answers_ok :: "reg_call list \<Rightarrow> conn \<Rightarrow> nat list \<Rightarrow> stage list \<Rightarrow> bool" where
  "answers_ok calls c order gs \<longleftrightarrow> distinct order \<and> set order \<subseteq> {..<length calls} \<and>
     (\<forall>i < length calls. answer_ok calls c order i (gs ! i))"

text \<open>The threads between \<open>lock\<close> and \<open>unlock\<close> of a course's mutex.\<close>

definition holders :: "reg_call list \<Rightarrow> stage list \<Rightarrow> int \<Rightarrow> nat set" where
  "holders calls gs m = {i. i < length calls \<and> holds_mutex (gs ! i) \<and> course (calls ! i) = m}"

definition mutexes_ok :: "reg_call list \<Rightarrow> stage list \<Rightarrow> (int \<Rightarrow> bool option) \<Rightarrow> bool" where
  "mutexes_ok calls gs ms \<longleftrightarrow>
     (\<forall>m. if ms m = Some True then \<exists>i. holders calls gs m = {i} else holders calls gs m = {}) \<and>
     (\<forall>i < length calls. gs ! i = Waiting \<longrightarrow> ms (course (calls ! i)) \<noteq> None)"

lemma locked_has_holder: "mutexes_ok calls gs ms \<Longrightarrow> ms m = Some True \<Longrightarrow> \<exists>j. holders calls gs m = {j}"
  unfolding mutexes_ok_def by metis

text \<open>
  \<open>c1\<close> is the database after the calls that have committed. Either no transaction is open and the
  connection is \<open>c1\<close>, or one thread is inside its transaction, on its way from \<open>c1\<close> to what its call
  makes of it.
\<close>

definition database_ok ::
  "reg_call list \<Rightarrow> conn \<Rightarrow> stage list \<Rightarrow> RegistrationResult call list \<Rightarrow> conn \<Rightarrow> bool" where
  "database_ok calls c1 gs ts c \<longleftrightarrow> idle c1 \<and> engine_ok c1 \<and>
     (c = c1 \<and> (\<forall>i < length calls. gs ! i \<noteq> Inside) \<or>
      (\<exists>i < length calls. gs ! i = Inside \<and> (\<forall>j < length calls. gs ! j = Inside \<longrightarrow> j = i) \<and>
         db_txn c = Some (db_tabs c1) \<and>
         finishes (leave (calls ! i) (fst (perform (calls ! i) c1))) (snd (perform (calls ! i) c1)) c (ts ! i)))"

definition threads_inv ::
  "reg_call list \<Rightarrow> conn \<Rightarrow> RegistrationResult call list \<times> service \<Rightarrow> bool" where
  "threads_inv calls c cfg \<longleftrightarrow> (\<exists>gs order. stages_ok calls gs (fst cfg) \<and> answers_ok calls c order gs \<and>
     mutexes_ok calls gs (course_mutexes (snd cfg)) \<and>
     database_ok calls (snd (serial (map (nth calls) order) c)) gs (fst cfg) (sv_conn (snd cfg)))"

lemma database_engine: "database_ok calls c1 gs ts c \<Longrightarrow> engine_ok c"
  by (auto simp: database_ok_def in_txn_def dest!: finishes_open)

lemma database_inside:
  "idle c1 \<Longrightarrow> engine_ok c1 \<Longrightarrow> i < length calls \<Longrightarrow> gs ! i = Inside \<Longrightarrow>
    (\<And>j. j < length calls \<Longrightarrow> gs ! j = Inside \<Longrightarrow> j = i) \<Longrightarrow> db_txn c = Some (db_tabs c1) \<Longrightarrow>
    finishes (leave (calls ! i) (fst (perform (calls ! i) c1))) (snd (perform (calls ! i) c1)) c (ts ! i) \<Longrightarrow>
    database_ok calls c1 gs ts c"
  unfolding database_ok_def by blast

lemma database_outside:
  "idle c1 \<Longrightarrow> engine_ok c1 \<Longrightarrow> (\<And>j. j < length calls \<Longrightarrow> gs ! j \<noteq> Inside) \<Longrightarrow> database_ok calls c1 gs ts c1"
  by (simp add: database_ok_def)

lemma database_cases:
  assumes "database_ok calls c1 gs ts c"
  obtains (outside) "c = c1" "\<And>j. j < length calls \<Longrightarrow> gs ! j \<noteq> Inside"
  | (inside) i where "i < length calls" "gs ! i = Inside" "\<And>j. j < length calls \<Longrightarrow> gs ! j = Inside \<Longrightarrow> j = i"
      "db_txn c = Some (db_tabs c1)" "finishes (leave (calls ! i) (fst (perform (calls ! i) c1))) (snd (perform (calls ! i) c1)) c (ts ! i)"
  using assms unfolding database_ok_def by blast

lemma database_idle: "database_ok calls c1 gs ts c \<Longrightarrow> idle c \<Longrightarrow> c = c1 \<and> (\<forall>i < length calls. gs ! i \<noteq> Inside)"
  by (auto simp: database_ok_def in_txn_def dest!: finishes_open)

lemma stages_update:
  "i < length calls \<Longrightarrow> stages_ok calls gs ts \<Longrightarrow> at_stage (calls ! i) g p \<Longrightarrow> stages_ok calls (gs[i := g]) (ts[i := p])"
  by (simp add: stages_ok_def nth_list_update)

lemma answer_step:
  "answer_ok calls c order i g \<Longrightarrow> stage_step (calls ! i) s g g' s' \<Longrightarrow> answer_ok calls c order i g'"
  by (erule stage_step.cases) auto

lemma answers_update:
  "i < length calls \<Longrightarrow> answers_ok calls c order gs \<Longrightarrow> length gs = length calls \<Longrightarrow>
    answer_ok calls c order i g \<Longrightarrow> answers_ok calls c order (gs[i := g])"
  by (simp add: answers_ok_def nth_list_update)

lemma committed_answer_snoc:
  "committed_answer calls c order j r \<Longrightarrow> committed_answer calls c (order @ [i]) j r"
  by (fastforce simp: committed_answer_def serial_snoc nth_append)

lemma answers_commit:
  assumes ok: "answers_ok calls c order gs" and gs: "length gs = length calls" "gs ! i = Inside"
    and i: "i < length calls" and r: "fst (perform (calls ! i) (snd (serial (map (nth calls) order) c))) = r"
  shows "answers_ok calls c (order @ [i]) (gs[i := Leaving r])"
proof -
  have new: "i \<notin> set order" using ok gs(2) i by (auto simp: answers_ok_def)
  have "committed_answer calls c (order @ [i]) i r"
    using r unfolding committed_answer_def
    by (intro exI [of _ "length order"]) (simp add: serial_snoc nth_append)
  moreover have "answer_ok calls c (order @ [i]) j g" if "answer_ok calls c order j g" "j \<noteq> i" for j g
    using that by (cases g) (auto simp: committed_answer_snoc split: if_splits)
  ultimately show ?thesis
    using ok new i gs(1) by (auto simp: answers_ok_def nth_list_update)
qed

lemma holders_update:
  assumes "length gs = length calls" "i < length calls"
  shows "holders calls (gs[i := g]) m = (if holds_mutex g \<and> course (calls ! i) = m
    then insert i (holders calls gs m) else holders calls gs m - {i})"
  using assms by (auto simp: holders_def nth_list_update split: if_splits)

lemma holders_free:
  assumes "holds_mutex (gs ! i) \<longleftrightarrow> holds_mutex g" "length gs = length calls" "i < length calls"
  shows "holders calls (gs[i := g]) m = holders calls gs m"
  unfolding holders_update [OF assms(2,3)] using assms by (auto simp: holders_def)

lemma mutexes_same:
  assumes "mutexes_ok calls gs ms" "length gs = length calls" "i < length calls"
    and "holds_mutex (gs ! i) \<longleftrightarrow> holds_mutex g" "g = Waiting \<longrightarrow> ms (course (calls ! i)) \<noteq> None"
  shows "mutexes_ok calls (gs[i := g]) ms"
  using assms(1,2,3,5)
  by (simp add: mutexes_ok_def holders_free [OF assms(4,2,3)] nth_list_update)

lemma mutexes_step:
  assumes ok: "mutexes_ok calls gs (course_mutexes s)" and gs: "length gs = length calls"
    and i: "i < length calls" and step: "stage_step (calls ! i) s (gs ! i) g s'"
  shows "mutexes_ok calls (gs[i := g]) (course_mutexes s')"
proof -
  note same = mutexes_same [OF _ gs i]
  note upd = holders_update [OF gs i] and frees = holders_free [OF _ gs i]
  let ?m = "course (calls ! i)" and ?ms = "course_mutexes s"
  have hold: "i \<in> holders calls gs ?m" if "holds_mutex (gs ! i)"
    using that i by (simp add: holders_def)
  have wait: "?ms (course (calls ! j)) \<noteq> None" if "gs ! j = Waiting" "j < length calls" for j
    using ok that by (simp add: mutexes_ok_def)
  have excl: "if ?ms m = Some True then \<exists>i. holders calls gs m = {i} else holders calls gs m = {}" for m
    using ok by (simp add: mutexes_ok_def)
  from step show ?thesis
  proof cases
    case (emplaced ms)
    have m: "ms m = Some True \<longleftrightarrow> ?ms m = Some True" for m
      using emplaced(4) by (simp split: option.split)
    have dom: "ms m \<noteq> None" if "?ms m \<noteq> None \<or> m = ?m" for m
      using emplaced(4) that by (auto split: option.split)
    have "gs[i := Waiting] ! j = Waiting \<Longrightarrow> j < length calls \<Longrightarrow> ms (course (calls ! j)) \<noteq> None" for j
      using dom wait [of j] gs i by (cases "j = i") simp_all
    then show ?thesis
      using excl emplaced(1-3) by (simp add: mutexes_ok_def frees m)
  next
    case locked
    then have free: "holders calls gs ?m = {}" using excl [of ?m] by simp
    have "holders calls (gs[i := Entering]) m = (if m = ?m then {i} else holders calls gs m)" for m
      using free locked by (auto simp: upd) (simp add: holders_def)
    moreover have "gs[i := Entering] ! j = Waiting \<Longrightarrow> j < length calls \<Longrightarrow> ?ms (course (calls ! j)) \<noteq> None" for j
      using wait [of j] gs i by (cases "j = i") simp_all
    ultimately show ?thesis using excl locked by (auto simp: mutexes_ok_def)
  next
    case (unlocked r)
    then have "i \<in> holders calls gs ?m" using hold by simp
    then have only: "holders calls gs ?m = {i}" using excl [of ?m] by (auto split: if_splits)
    have "holders calls (gs[i := Returned r]) m = (if m = ?m then {} else holders calls gs m)" for m
      using only by (auto simp: upd) (simp add: holders_def)
    moreover have "gs[i := Returned r] ! j = Waiting \<Longrightarrow> j < length calls \<Longrightarrow> ?ms (course (calls ! j)) \<noteq> None" for j
      using wait [of j] gs i by (cases "j = i") simp_all
    ultimately show ?thesis using excl unlocked by (auto simp: mutexes_ok_def)
  qed (use ok same in auto)
qed

lemma database_step:
  assumes ok: "database_ok calls c1 gs ts (sv_conn s)" and gs: "length gs = length calls" "length ts = length calls"
    and i: "i < length calls" "gs ! i \<noteq> Inside" and step: "stage_step (calls ! i) s (gs ! i) g s'"
    and p: "g = Inside \<longrightarrow> p = transaction_of (calls ! i)"
  shows "database_ok calls c1 (gs[i := g]) (ts[i := p]) (sv_conn s')"
proof (cases "g = Inside")
  case True
  then have idle: "idle (sv_conn s)"
    and s': "sv_conn s' = (sv_conn s)\<lparr>db_txn := Some (db_tabs (sv_conn s))\<rparr>"
    using step by (auto elim: stage_stepE)
  have c: "sv_conn s = c1" "\<forall>j < length calls. gs ! j \<noteq> Inside"
    using database_idle [OF ok idle] by simp_all
  have eng: "idle c1" "engine_ok c1" using ok by (simp_all add: database_ok_def)
  have "finishes (leave (calls ! i) (fst (perform (calls ! i) c1))) (snd (perform (calls ! i) c1)) (sv_conn s') p"
    using transaction_finishes [OF eng prod.collapse [symmetric], of "calls ! i"] True p s' c(1) by simp
  then show ?thesis
    using c eng gs i True s'
    by (intro database_inside [of _ i]) (auto simp: nth_list_update split: if_splits)
next
  case False
  then have s': "sv_conn s' = sv_conn s" using step by (auto elim: stage_stepE)
  have stay: "gs[i := g] ! j = Inside \<longleftrightarrow> gs ! j = Inside" if "j < length calls" for j
    using False gs(1) i that by (auto simp: nth_list_update)
  have eng: "idle c1" "engine_ok c1" using ok by (simp_all add: database_ok_def)
  from ok show ?thesis
  proof (cases rule: database_cases)
    case outside
    then show ?thesis using eng stay by (simp add: s' database_outside)
  next
    case (inside j)
    have "j \<noteq> i" using inside(2) i(2) by auto
    show ?thesis
    proof (rule database_inside [OF eng inside(1)])
      show "gs[i := g] ! j = Inside" using stay inside(1,2) by simp
      show "k = j" if "k < length calls" "gs[i := g] ! k = Inside" for k
        using inside(3) [OF that(1)] stay [OF that(1)] that(2) by simp
      show "finishes (leave (calls ! j) (fst (perform (calls ! j) c1))) (snd (perform (calls ! j) c1))
          (sv_conn s') (ts[i := p] ! j)"
        using inside(5) \<open>j \<noteq> i\<close> by (simp add: s')
    qed (use inside(4) s' in simp)
  qed
qed

lemma threads_inv_step:
  assumes inv: "threads_inv calls c cfg" and step: "interleave cfg cfg'"
  shows "threads_inv calls c cfg'"
  using step
proof cases
  case (critical i ts f s p s')
  obtain gs order where st: "stages_ok calls gs ts" and an: "answers_ok calls c order gs"
    and mx: "mutexes_ok calls gs (course_mutexes s)"
    and db: "database_ok calls (snd (serial (map (nth calls) order) c)) gs ts (sv_conn s)"
    using inv critical(1) by (auto simp: threads_inv_def)
  let ?c1 = "snd (serial (map (nth calls) order) c)"
  have len: "length gs = length calls" "length ts = length calls" and i: "i < length calls"
    and at: "at_stage (calls ! i) (gs ! i) (Step f)"
    using st critical(3,4) by (auto simp: stages_ok_def)
  show ?thesis
  proof (cases "gs ! i = Inside")
    case False
    have eng: "engine_ok (sv_conn s)" using db by (rule database_engine)
    obtain g where g: "stage_step (calls ! i) s (gs ! i) g s'" "at_stage (calls ! i) g p"
      "g = Inside \<longrightarrow> p = transaction_of (calls ! i)"
      using stage_simulation [OF at False eng critical(5)] .
    have "answer_ok calls c order i (gs ! i)" using an i by (simp add: answers_ok_def)
    then show ?thesis
      unfolding threads_inv_def critical(2) fst_conv snd_conv
      using stages_update [OF i st g(2)] answers_update [OF i an len(1) answer_step [OF _ g(1)]]
        mutexes_step [OF mx len(1) i g(1)] database_step [OF db len i False g(1,3)]
      by blast
  next
    case True
    obtain r c' where r: "perform (calls ! i) ?c1 = (r, c')" by fastforce
    have c1: "idle ?c1" "engine_ok ?c1" using db by (simp_all add: database_ok_def)
    have "\<exists>j < length calls. gs ! j = Inside \<and> (\<forall>k < length calls. gs ! k = Inside \<longrightarrow> k = j) \<and>
        db_txn (sv_conn s) = Some (db_tabs ?c1) \<and> finishes (leave (calls ! j) (fst (perform (calls ! j) ?c1))) (snd (perform (calls ! j) ?c1))
          (sv_conn s) (ts ! j)"
      using db i True unfolding database_ok_def by blast
    then obtain j where j: "j < length calls" "gs ! j = Inside" "\<forall>k < length calls. gs ! k = Inside \<longrightarrow> k = j"
      and snap: "db_txn (sv_conn s) = Some (db_tabs ?c1)"
      and fin_j: "finishes (leave (calls ! j) (fst (perform (calls ! j) ?c1)))
        (snd (perform (calls ! j) ?c1)) (sv_conn s) (ts ! j)" by blast
    have ij: "i = j" using j(3) i True by blast
    have fin: "finishes (leave (calls ! i) r) c' (sv_conn s) (Step f)"
      using fin_j r critical(4) by (simp add: ij)
    from fin show ?thesis
    proof cases
      case last
      then have p: "p = leave (calls ! i) r" "s' = s\<lparr>sv_conn := c'\<rparr>" using critical(5) by auto
      have c': "snd (serial (map (nth calls) (order @ [i])) c) = c'" by (simp add: serial_snoc r)
      have "database_ok calls c' (gs[i := Leaving r]) (ts[i := p]) c'"
      proof (rule database_outside)
        show "gs[i := Leaving r] ! k \<noteq> Inside" if "k < length calls" for k
          using j(3) len(1) that ij by (cases "k = i") auto
      qed (use perform_engine [OF c1, of "calls ! i"] r in auto)
      moreover have "answers_ok calls c (order @ [i]) (gs[i := Leaving r])"
        using answers_commit [OF an len(1) True i] r by simp
      moreover have "stages_ok calls (gs[i := Leaving r]) (ts[i := p])"
        using stages_update [OF i st] p(1) by simp
      ultimately show ?thesis
        unfolding threads_inv_def critical(2) using mutexes_same [OF mx len(1) i] True p(2) c'
        by (intro exI [of _ "gs[i := Leaving r]"] exI [of _ "order @ [i]"]) simp
    next
      case (more p1 c2)
      then have p: "p = p1" "s' = s\<lparr>sv_conn := c2\<rparr>" using critical(5) by auto
      have "database_ok calls ?c1 gs (ts[i := p]) c2"
        by (rule database_inside [OF c1 i True])
          (use j(3) ij more(3,4) snap p(1) r len(2) i in simp_all)
      moreover have "stages_ok calls gs (ts[i := p])"
        using stages_update [OF i st, of Inside p] True by (metis at_stage.simps(5) list_update_id)
      ultimately show ?thesis
        unfolding threads_inv_def critical(2) using mx an p(2)
        by (intro exI [of _ gs] exI [of _ order]) simp
    qed
  qed
qed


text \<open>Threads that have just been started on an idle connection, no mutex being locked.\<close>

definition started ::
  "reg_call list \<Rightarrow> conn \<Rightarrow> RegistrationResult call list \<times> service \<Rightarrow> bool" where
  "started calls c cfg \<longleftrightarrow> fst cfg = map call_program calls \<and> sv_conn (snd cfg) = c \<and>
     idle c \<and> engine_ok c \<and> (\<forall>m. course_mutexes (snd cfg) m \<noteq> Some True)"

lemma started_inv: "started calls c cfg \<Longrightarrow> threads_inv calls c cfg"
  unfolding threads_inv_def
  by (intro exI [of _ "replicate (length calls) Calling"] exI [of _ "[]"])
    (auto simp: started_def stages_ok_def answers_ok_def mutexes_ok_def holders_def database_ok_def)

interpretation registrations: step_invariant "started calls c" interleave "threads_inv calls c" for calls c
  by unfold_locales (fact started_inv, fact threads_inv_step)

section \<open>Progress\<close>

primrec returned :: "('s, 'a) prog \<Rightarrow> bool" where
  "returned (prog.Done a) = True"
| "returned (Step f) = False"

text \<open>Where the next step of a thread is always possible.\<close>

lemma holder_steps:
  assumes "at_stage x g p" "g = Inside \<longrightarrow> (\<exists>q c'. finishes q c' (sv_conn s) p)"
    and "g = Waiting \<longrightarrow> course_mutexes s (course x) = Some False" "\<not> returned p"
  shows "\<exists>f p' s'. p = Step f \<and> f s = Some (p', s')"
proof (cases g)
  case Inside
  then obtain q c' where "finishes q c' (sv_conn s) p" using assms(2) by blast
  then show ?thesis by cases blast+
qed (use assms in \<open>auto simp: call_program_step emplacing_step waiting_step enter_step db_step_def leave_step\<close>)

lemma blocked_only_when_finished:
  assumes inv: "threads_inv calls c (ts, s)" and stuck: "\<And>cfg. \<not> interleave (ts, s) cfg"
  shows "list_all returned ts"
proof -
  obtain gs order where st: "stages_ok calls gs ts" and mx: "mutexes_ok calls gs (course_mutexes s)"
    and db: "database_ok calls (snd (serial (map (nth calls) order) c)) gs ts (sv_conn s)"
    using inv by (auto simp: threads_inv_def)
  have len: "length gs = length calls" "length ts = length calls" using st by (simp_all add: stages_ok_def)
  have inside: "\<exists>q c'. finishes q c' (sv_conn s) (ts ! i)" if "i < length calls" "gs ! i = Inside" for i
    using db that unfolding database_ok_def by blast
  have fin: "returned (ts ! i)"
    if i: "i < length calls" and free: "gs ! i = Waiting \<longrightarrow> course_mutexes s (course (calls ! i)) = Some False" for i
  proof (rule ccontr)
    assume "\<not> returned (ts ! i)"
    moreover have "at_stage (calls ! i) (gs ! i) (ts ! i)" using st i by (simp add: stages_ok_def)
    ultimately obtain f p s' where "ts ! i = Step f" "f s = Some (p, s')"
      using holder_steps [of "calls ! i" "gs ! i" "ts ! i" s] inside [OF i] free by blast
    then show False using stuck interleave.critical [of i ts f s p s'] i len(2) by simp
  qed
  have "course_mutexes s (course (calls ! i)) = Some False" if i: "i < length calls" "gs ! i = Waiting" for i
  proof (rule ccontr)
    assume "course_mutexes s (course (calls ! i)) \<noteq> Some False"
    moreover have "course_mutexes s (course (calls ! i)) \<noteq> None" using mx i by (simp add: mutexes_ok_def)
    ultimately have "course_mutexes s (course (calls ! i)) = Some True" by auto
    then obtain j where "j \<in> holders calls gs (course (calls ! i))" using locked_has_holder [OF mx] by blast
    then have j: "j < length calls" "holds_mutex (gs ! j)" by (simp_all add: holders_def)
    then have "returned (ts ! j)" using fin [of j] by fastforce
    moreover have "at_stage (calls ! j) (gs ! j) (ts ! j)" using st j by (simp add: stages_ok_def)
    ultimately show False
      using j inside [of j] by (cases "gs ! j") (auto simp: enter_step db_step_def leave_step elim: finishes.cases)
  qed
  then show ?thesis using fin len(2) by (simp add: list_all_length)
qed

end
