(* ===== verification/Connection_Correctness.thy ===== *)
theory Connection_Correctness
  imports Registration_Threads Sample_Database
begin

text \<open>
  The properties of the shared connection: a call alone is the sequential operation; registrations
  and drops in any interleaving are serializable, never oversell a course and always return; and
  the races that remain, because all threads share one connection and \<open>update_course\<close> takes part
  in no locking.
\<close>

section \<open>Registrations and drops\<close>

lemma two_calls_reachable:
  assumes "idle c" "engine_ok c" "perform x c = (r, c1)" "perform y c1 = (q, c2)"
  shows "\<exists>s. reachable (started [x, y] c) interleave ([prog.Done r, prog.Done q], s) \<and> sv_conn s = c2"
proof -
  let ?s0 = "new_service c"
  let ?s1 = "?s0\<lparr>sv_conn := c1, course_mutexes := [course x \<mapsto> False]\<rparr>"
  let ?s2 = "?s1\<lparr>sv_conn := c2, course_mutexes := [course x \<mapsto> False, course y \<mapsto> False]\<rparr>"
  have "run (call_program x) ?s0 = Some (r, ?s1)"
    using uninterrupted_call [of ?s0 x r c1] assms(3) by (simp add: new_service_def)
  then have "interleave\<^sup>*\<^sup>* ([call_program x, call_program y], ?s0) ([prog.Done r, call_program y], ?s1)"
    using run_interleaves [of 0 "[call_program x, call_program y]" ?s0 r ?s1] by simp
  moreover have "run (call_program y) ?s1 = Some (q, ?s2)"
    using uninterrupted_call [of ?s1 y q c2] assms(4) by (simp add: new_service_def)
  then have "interleave\<^sup>*\<^sup>* ([prog.Done r, call_program y], ?s1) ([prog.Done r, prog.Done q], ?s2)"
    using run_interleaves [of 1 "[prog.Done r, call_program y]" ?s1 q ?s2] by simp
  ultimately have steps:
    "interleave\<^sup>*\<^sup>* ([call_program x, call_program y], ?s0) ([prog.Done r, prog.Done q], ?s2)"
    by (rule rtranclp_trans)
  have "started [x, y] c ([call_program x, call_program y], ?s0)"
    using assms(1,2) by (simp add: started_def new_service_def)
  then have "reachable (started [x, y] c) interleave ([call_program x, call_program y], ?s0)"
    by (rule reachable.start)
  then have "reachable (started [x, y] c) interleave ([prog.Done r, prog.Done q], ?s2)"
    using steps by (rule reachable_rtranclp)
  then show ?thesis by (intro exI [of _ ?s2]) simp
qed

definition rush_end :: conn where
  "rush_end = snd (perform (Drop 3 1) (snd (perform (Register 4 1) sample)))"

lemma rush_end_state: "idle rush_end" "capacity_of (db_tabs rush_end) 1 = Some 2"
  unfolding rush_end_def by (simp, code_simp)

lemma rush_reachable: "\<exists>ts s. reachable (started [Register 4 1, Drop 3 1] sample) interleave (ts, s) \<and>
    list_all returned ts \<and> sv_conn s = rush_end"
proof -
  obtain s where "reachable (started [Register 4 1, Drop 3 1] sample) interleave
      ([prog.Done (fst (perform (Register 4 1) sample)),
        prog.Done (fst (perform (Drop 3 1) (snd (perform (Register 4 1) sample))))], s)" "sv_conn s = rush_end"
    using two_calls_reachable [OF sample_idle prod.collapse [symmetric] prod.collapse [symmetric]]
    unfolding rush_end_def by blast
  then show ?thesis by (intro exI, intro conjI) (assumption, simp_all)
qed

text \<open>C37: A call that no other thread interrupts is the sequential operation: if the mutex of its
  course is free, it returns the result of \<open>register_student\<close> or \<open>drop_student\<close> on the connection, leaves the
  database as they do, and the mutex is in the map and free.\<close>

theorem call_alone_is_sequential:
  assumes "course_mutexes s (course x) \<noteq> Some True" and "perform x (sv_conn s) = (r, c)"
  shows "run (call_program x) s =
    Some (r, s\<lparr>sv_conn := c, course_mutexes := (course_mutexes s)(course x \<mapsto> False)\<rparr>)"
  using uninterrupted_call [OF assms] .

theorem call_alone_is_sequential_witness:
  "run (call_program (Drop 3 1)) (new_service sample) =
    Some (fst (drop_student 3 1 sample), (new_service sample)\<lparr>sv_conn := snd (drop_student 3 1 sample),
      course_mutexes := [1 \<mapsto> False]\<rparr>)"
  using call_alone_is_sequential [of "new_service sample" "Drop 3 1" "fst (drop_student 3 1 sample)"
      "snd (drop_student 3 1 sample)"] by (simp add: new_service_def)

text \<open>C4: Registrations and drops in any number of threads are serializable: whatever the
  interleaving, there is an order of some of the calls such that the database, whenever no transaction
  is open, is what these calls leave when executed one after the other, each of them that has returned
  has the answer it has in that execution, and every other call that has returned was refused because
  it found a transaction open. When all calls have returned no transaction is open.\<close>

theorem concurrent_calls_are_serializable:
  assumes "reachable (started calls c) interleave (ts, s)"
  shows "\<exists>order. distinct order \<and> set order \<subseteq> {..<length calls} \<and>
    (list_all returned ts \<longrightarrow> idle (sv_conn s)) \<and>
    (idle (sv_conn s) \<longrightarrow> sv_conn s = snd (serial (map (nth calls) order) c)) \<and>
    (\<forall>i < length calls. \<forall>r. ts ! i = prog.Done r \<longrightarrow>
       (if i \<in> set order then committed_answer calls c order i r else r = refused (calls ! i)))"
proof -
  obtain gs order where st: "stages_ok calls gs ts" and an: "answers_ok calls c order gs"
    and db: "database_ok calls (snd (serial (map (nth calls) order) c)) gs ts (sv_conn s)"
    using registrations.reachable_inv [OF assms] by (auto simp: threads_inv_def)
  have len: "length ts = length calls" using st by (simp add: stages_ok_def)
  from db have "idle (sv_conn s)" if "list_all returned ts"
  proof (cases rule: database_cases)
    case outside
    then show ?thesis using db by (simp add: database_ok_def)
  next
    case (inside i)
    have "\<not> returned (ts ! i)" using inside(5) by cases simp_all
    then show ?thesis using that inside(1) len by (simp add: list_all_length)
  qed
  moreover have "answer_ok calls c order i (Returned r)" if i: "i < length calls" and r: "ts ! i = prog.Done r" for i r
  proof -
    have "at_stage (calls ! i) (gs ! i) (ts ! i)" using st i by (simp add: stages_ok_def)
    moreover have "gs ! i \<noteq> Inside"
      using db i r unfolding database_ok_def by (auto elim: finishes.cases)
    ultimately have "gs ! i = Returned r"
      using r by (cases "gs ! i")
        (auto simp: call_program_step emplacing_step waiting_step enter_step db_step_def leave_step)
    then show ?thesis using an i by (auto simp: answers_ok_def)
  qed
  ultimately show ?thesis
    using an database_idle [OF db] by (intro exI [of _ order]) (auto simp: answers_ok_def)
qed

theorem concurrent_calls_are_serializable_witness:
  "\<exists>order. distinct order \<and> rush_end = snd (serial (map (nth [Register 4 1, Drop 3 1]) order) sample)"
proof -
  obtain ts s where reach: "reachable (started [Register 4 1, Drop 3 1] sample) interleave (ts, s)"
    and s: "sv_conn s = rush_end" using rush_reachable by blast
  show ?thesis
    using concurrent_calls_are_serializable [OF reach] rush_end_state(1) unfolding s by blast
qed

text \<open>The tables without the changes of the transaction that is open.\<close>

definition committed_tables :: "conn \<Rightarrow> tables" where
  "committed_tables c = (case db_txn c of None \<Rightarrow> db_tabs c | Some t \<Rightarrow> t)"

lemma perform_conn_ok: "conn_ok c \<Longrightarrow> conn_ok (snd (perform x c))"
  by (cases x) (simp_all add: register_student_conn_ok drop_student_conn_ok)

lemma serial_conn_ok: "conn_ok c \<Longrightarrow> conn_ok (snd (serial xs c))"
proof (induction xs arbitrary: c)
  case (Cons x xs)
  then show ?case using perform_conn_ok [of c x] by (auto split: prod.split simp: prod_eq_iff)
qed simp

lemma committed_state:
  assumes "database_ok calls c1 gs ts c"
  shows "committed_tables c = db_tabs c1"
proof -
  have "db_txn c1 = None" using assms by (simp add: database_ok_def idle_def)
  moreover have "c = c1 \<or> db_txn c = Some (db_tabs c1)" using assms unfolding database_ok_def by blast
  ultimately show ?thesis by (auto simp: committed_tables_def)
qed

text \<open>C5: No interleaving of registrations and drops oversells a course: what has been committed
  satisfies the schema, and no course has more students than seats, at every moment.\<close>

theorem concurrent_calls_never_oversell:
  assumes "reachable (started calls c) interleave (ts, s)" and "conn_ok c"
    and "capacity_of (committed_tables (sv_conn s)) cid = Some cap"
  shows "db_ok (committed_tables (sv_conn s)) \<and>
    int (card (enrolled (committed_tables (sv_conn s)) cid)) \<le> cap"
proof -
  obtain gs order where
    db: "database_ok calls (snd (serial (map (nth calls) order) c)) gs ts (sv_conn s)"
    using registrations.reachable_inv [OF assms(1)] by (auto simp: threads_inv_def)
  have "db_ok (committed_tables (sv_conn s))"
    using conn_ok_tabs [OF serial_conn_ok [OF assms(2)]] by (simp add: committed_state [OF db])
  then show ?thesis using course_reads(5) [OF _ assms(3)] by blast
qed

theorem concurrent_calls_never_oversell_witness:
  "db_ok (db_tabs rush_end) \<and> int (card (enrolled (db_tabs rush_end) 1)) \<le> 2"
proof -
  obtain ts s where reach: "reachable (started [Register 4 1, Drop 3 1] sample) interleave (ts, s)"
    and s: "sv_conn s = rush_end" using rush_reachable by blast
  have t: "committed_tables (sv_conn s) = db_tabs rush_end"
    using rush_end_state(1) by (simp add: s committed_tables_def idle_def)
  show ?thesis
    using concurrent_calls_never_oversell [OF reach sample_conn_ok, of 1 2] rush_end_state(2)
    unfolding t by blast
qed

text \<open>C6: Registrations and drops always return: no interleaving goes on for ever, a thread can
  step as long as some call has not returned (the mutexes cannot deadlock), and so every interleaving
  can be continued until all calls have returned.\<close>

theorem calls_always_return:
  assumes "reachable (started calls c) interleave cfg"
  shows "(\<exists>cfg'. interleave\<^sup>*\<^sup>* cfg cfg' \<and> list_all returned (fst cfg')) \<and>
    (list_all returned (fst cfg) \<or> (\<exists>cfg'. interleave cfg cfg')) \<and>
    \<not> (\<exists>run. run 0 = cfg \<and> (\<forall>n. interleave (run n) (run (Suc n))))"
proof (intro conjI)
  have inv: "threads_inv calls c cfg'" if "interleave\<^sup>*\<^sup>* cfg cfg'" for cfg'
    using registrations.reachable_inv [OF reachable_rtranclp [OF assms that]] .
  obtain cfg' where end': "interleave\<^sup>*\<^sup>* cfg cfg'" "\<forall>cfg''. \<not> interleave cfg' cfg''"
    using interleave_to_the_end [of cfg] by blast
  have "list_all returned (fst cfg')"
    by (rule blocked_only_when_finished [of calls c "fst cfg'" "snd cfg'"])
      (use inv [OF end'(1)] end'(2) in \<open>simp_all del: split_paired_All\<close>)
  then show "\<exists>cfg'. interleave\<^sup>*\<^sup>* cfg cfg' \<and> list_all returned (fst cfg')" using end' by blast
  show "list_all returned (fst cfg) \<or> (\<exists>cfg'. interleave cfg cfg')"
    using blocked_only_when_finished [of calls c "fst cfg" "snd cfg"] inv [of cfg] by auto
  show "\<not> (\<exists>run. run 0 = cfg \<and> (\<forall>n. interleave (run n) (run (Suc n))))"
    using interleavings_end unfolding wf_iff_no_infinite_down_chain by blast
qed

theorem calls_always_return_witness:
  "\<exists>cfg. interleave\<^sup>*\<^sup>* (map call_program [Register 4 1, Register 3 1, Drop 3 1], new_service sample) cfg \<and>
    list_all returned (fst cfg)"
proof -
  have "started [Register 4 1, Register 3 1, Drop 3 1] sample
      (map call_program [Register 4 1, Register 3 1, Drop 3 1], new_service sample)"
    by (simp add: started_def new_service_def)
  then have "reachable (started [Register 4 1, Register 3 1, Drop 3 1] sample) interleave
      (map call_program [Register 4 1, Register 3 1, Drop 3 1], new_service sample)"
    by (rule reachable.start)
  from calls_always_return [OF this] show ?thesis by blast
qed

end
