(* ===== verification/Connection_Races.thy ===== *)
theory Connection_Races
  imports Connection_Correctness
begin

text \<open>
  What the mutexes and transactions do not exclude. All threads share one connection, so the
  statements of \<open>update_course\<close>, which opens no transaction, become part of the transaction another
  thread has open, and \<open>BEGIN\<close> fails while any other transaction is open. Each theorem gives an
  interleaving; the concrete ones are evaluated on the sample database with \<open>run_schedule\<close>.
\<close>

section \<open>Registrations for different courses\<close>

lemma perform_while_open:
  assumes "\<not> idle c" "engine_ok c"
  shows "perform x c = (refused x, c)"
proof -
  obtain e where "begin_transaction c = (Inl e, c)" "answer x (Inl e) = refused x"
    using begin_transaction_simps(2) [OF assms(2,1)] by blast
  then show ?thesis by (simp add: perform_transaction transaction_def)
qed

text \<open>C38: Two registrations for different courses do exclude each other, against the comment that
  they proceed in parallel: whatever the two calls are, the second one is refused with a database
  error when it runs while the first has its transaction open, because \<open>BEGIN\<close> is executed on the
  connection that both share.\<close>

theorem different_courses_collide:
  assumes "course x \<noteq> course y" and "idle c" "engine_ok c"
  shows "\<exists>p s. reachable (started [x, y] c) interleave ([p, prog.Done (refused y)], s) \<and> \<not> returned p"
proof -
  let ?m = "course x"
  let ?s1 = "\<lparr>sv_conn = c, course_mutexes = [?m \<mapsto> False]\<rparr>"
  let ?s2 = "\<lparr>sv_conn = c, course_mutexes = [?m \<mapsto> True]\<rparr>"
  let ?c = "c\<lparr>db_txn := Some (db_tabs c)\<rparr>"
  let ?s3 = "\<lparr>sv_conn = ?c, course_mutexes = [?m \<mapsto> True]\<rparr>"
  have "run_schedule [0, 0, 0, 0] (map call_program [x, y], new_service c) =
      Some ([transaction_of x, call_program y], ?s3)"
    using begin_transaction_simps(1) [OF assms(3,2)]
    by (simp add: call_program_step [of x] emplacing_step waiting_step enter_step db_step_def new_service_def)
  then have "interleave\<^sup>*\<^sup>* (map call_program [x, y], new_service c) ([transaction_of x, call_program y], ?s3)"
    by (rule run_schedule_interleaves)
  moreover have "interleave\<^sup>*\<^sup>* ([transaction_of x, call_program y], ?s3)
      ([transaction_of x, prog.Done (refused y)], ?s3\<lparr>course_mutexes := [?m \<mapsto> True, course y \<mapsto> False]\<rparr>)"
  proof -
    have "\<not> idle ?c" "engine_ok ?c" using assms(3) by (simp_all add: idle_def engine_ok_def)
    then have "run (call_program y) ?s3 = Some (refused y, ?s3\<lparr>course_mutexes := [?m \<mapsto> True, course y \<mapsto> False]\<rparr>)"
      using uninterrupted_call [of ?s3 y "refused y" ?c] assms(1) by (simp add: perform_while_open)
    then show ?thesis using run_interleaves [of 1 "[transaction_of x, call_program y]" ?s3] by simp
  qed
  ultimately have "interleave\<^sup>*\<^sup>* (map call_program [x, y], new_service c)
      ([transaction_of x, prog.Done (refused y)], ?s3\<lparr>course_mutexes := [?m \<mapsto> True, course y \<mapsto> False]\<rparr>)"
    by (rule rtranclp_trans)
  moreover have "started [x, y] c (map call_program [x, y], new_service c)"
    using assms(2,3) by (simp add: started_def new_service_def)
  ultimately have "reachable (started [x, y] c) interleave
      ([transaction_of x, prog.Done (refused y)], ?s3\<lparr>course_mutexes := [?m \<mapsto> True, course y \<mapsto> False]\<rparr>)"
    by (metis reachable.start reachable_rtranclp)
  moreover have "\<not> returned (transaction_of x)"
  proof -
    have "finishes (leave x (fst (perform x c))) (snd (perform x c)) ?c (transaction_of x)"
      using transaction_finishes [OF assms(2,3) prod.collapse [symmetric]] .
    then show ?thesis by (auto elim: finishes.cases)
  qed
  ultimately show ?thesis by blast
qed

theorem different_courses_collide_witness:
  "\<exists>p s. reachable (started [Register 4 1, Register 4 2] sample) interleave
     ([p, prog.Done (refused (Register 4 2))], s) \<and> \<not> returned p"
  by (rule different_courses_collide) simp_all

section \<open>Course updates between the statements of a registration\<close>

datatype thread_call = Registration reg_call | Course_Update Course User

primrec thread_program :: "thread_call \<Rightarrow> (RegistrationResult + CourseResult) call" where
  "thread_program (Registration x) = andthen (call_program x) (\<lambda>r. prog.Done (Inl r))"
| "thread_program (Course_Update crs requester) =
     andthen (update_course_call crs requester) (\<lambda>r. prog.Done (Inr r))"

text \<open>An administrator who gives the course of the sample database \<open>n\<close> seats.\<close>

definition administrator :: User where
  "administrator = \<lparr>u_id = 1, u_username = ''root'', u_password_hash = [], u_role = Admin, u_name = [],
     u_email = [], u_active = True, u_created_at = []\<rparr>"

definition resized :: "int \<Rightarrow> Course" where
  "resized n = (row_to_course sample_tabs sample_course)\<lparr>c_capacity := n\<rparr>"

definition race_start ::
  "reg_call \<Rightarrow> int \<Rightarrow> (RegistrationResult + CourseResult) call list \<times> service" where
  "race_start x n = (map thread_program [Registration x, Course_Update (resized n) administrator],
     new_service sample)"

text \<open>What the threads have answered, who has a registration, and the number of seats.\<close>

fun answers_of :: "('s, 'a) prog list \<Rightarrow> 'a list" where
  "answers_of [] = []"
| "answers_of (prog.Done a # ts) = a # answers_of ts"
| "answers_of (Step f # ts) = answers_of ts"

definition race_result ::
  "(RegistrationResult + CourseResult) call list \<times> service \<Rightarrow>
    (RegistrationResult + CourseResult) list \<times> int list \<times> int list" where
  "race_result cfg = (answers_of (fst cfg),
     map rr_student_id (filter (\<lambda>r. rr_status r = ''active'') (t_regs (db_tabs (sv_conn (snd cfg))))),
     map cr_capacity (t_courses (db_tabs (sv_conn (snd cfg)))))"

lemma race_by_schedule:
  assumes "map_option race_result (run_schedule is cfg) = Some res"
  shows "\<exists>cfg'. interleave\<^sup>*\<^sup>* cfg cfg' \<and> race_result cfg' = res"
  using assms run_schedule_interleaves by blast


text \<open>\<open>RegistrationRepository::create\<close> asks \<open>changes()\<close> of the shared connection whether its
  UPDATE revived a row. When a course update of another thread runs between the two, the answer is
  the count of that update: the registration is reported as successful, with id 0, although no row was
  written.\<close>

theorem update_swallows_registration:
  "\<exists>cfg. interleave\<^sup>*\<^sup>* (race_start (Register 4 1) 2) cfg \<and> race_result cfg =
     ([Inl \<lparr>res_success = True, res_registration_id = 0, res_error = [], res_remaining_seats = 0\<rparr>,
       Inr (course_done 1)], [3], [2])"
proof (rule race_by_schedule)
  show "map_option race_result
     (run_schedule (replicate 8 0 @ [1, 1, 1] @ replicate 4 0) (race_start (Register 4 1) 2)) =
     Some ([Inl \<lparr>res_success = True, res_registration_id = 0, res_error = [], res_remaining_seats = 0\<rparr>,
       Inr (course_done 1)], [3], [2])"
    by code_simp
qed

text \<open>A course update that runs while a registration has its transaction open becomes part
  of it. When the registration fails and rolls back, the update is undone although it was reported as
  successful.\<close>

theorem rollback_undoes_update:
  "\<exists>cfg. interleave\<^sup>*\<^sup>* (race_start (Register 9 1) 5) cfg \<and> race_result cfg =
     ([Inl (failed ''Registration failed: Failed to create registration'' 0), Inr (course_done 1)], [3], [2])"
proof (rule race_by_schedule)
  show "map_option race_result
     (run_schedule (replicate 7 0 @ [1, 1, 1] @ replicate 5 0) (race_start (Register 9 1) 5)) =
     Some ([Inl (failed ''Registration failed: Failed to create registration'' 0), Inr (course_done 1)], [3], [2])"
    by code_simp
qed

end
