(* ===== verification/Mutex_Demo.thy ===== *)
theory Mutex_Demo
  imports Thread_Programs
begin

text \<open>
  \<^verbatim>\<open>systems/synchronization/MutexDemo.cpp\<close>: threads that increment a counter without a lock, with
  a mutex, with a reader-writer lock, and atomically. A step is one access to a shared variable or one
  operation on a lock; \<open>++counter\<close> of a plain \<open>int\<close> is a load and a store. (The C++ standard leaves a
  program with a data race undefined; the first demonstration is modelled as its comments describe it,
  as interleaved reads and writes.) A section that is not possible is a lock that is not free, or an
  increment beyond the largest \<open>int\<close>, which is undefined.
\<close>

section \<open>The programs\<close>

record cell =
  counter :: int
  mtx :: bool

type_synonym 'a demo = "(cell, 'a) prog"

definition load :: "int demo" where
  "load = atomically (\<lambda>s. Some (counter s, s))"

definition save :: "int \<Rightarrow> unit demo" where
  "save v = atomically (\<lambda>s. if v \<le> i32_max then Some ((), s\<lparr>counter := v\<rparr>) else None)"

definition increment :: "unit demo" where
  "increment = andthen load (\<lambda>v. save (v + 1))"

definition acquire :: "unit demo" where
  "acquire = atomically (\<lambda>s. if mtx s then None else Some ((), s\<lparr>mtx := True\<rparr>))"

definition release :: "unit demo" where
  "release = atomically (\<lambda>s. Some ((), s\<lparr>mtx := False\<rparr>))"

definition fetch_add :: "unit demo" where
  "fetch_add = atomically (\<lambda>s. Some ((), s\<lparr>counter := to_i32 (counter s + 1)\<rparr>))"

text \<open>The loops of the three lambdas named \<open>increment\<close>.\<close>

primrec racing :: "nat \<Rightarrow> unit demo" where
  "racing 0 = Done ()"
| "racing (Suc n) = andthen increment (\<lambda>_. racing n)"

primrec guarded :: "nat \<Rightarrow> unit demo" where
  "guarded 0 = Done ()"
| "guarded (Suc n) = andthen acquire (\<lambda>_. andthen increment (\<lambda>_. andthen release (\<lambda>_. guarded n)))"

primrec adding :: "nat \<Rightarrow> unit demo" where
  "adding 0 = Done ()"
| "adding (Suc n) = andthen fetch_add (\<lambda>_. adding n)"

definition fresh_cell :: cell where
  "fresh_cell = \<lparr>counter = 0, mtx = False\<rparr>"

definition ITERATIONS :: nat where
  "ITERATIONS = 100000"

definition demo_race_condition :: "unit demo list \<times> cell" where
  "demo_race_condition = ([racing ITERATIONS, racing ITERATIONS], fresh_cell)"

definition demo_mutex_fix :: "unit demo list \<times> cell" where
  "demo_mutex_fix = ([guarded ITERATIONS, guarded ITERATIONS], fresh_cell)"

definition demo_atomics :: "unit demo list \<times> cell" where
  "demo_atomics = ([adding ITERATIONS, adding ITERATIONS], fresh_cell)"

text \<open>All threads are joined.\<close>

definition joined_with :: "('s, unit) prog list \<Rightarrow> bool" where
  "joined_with ts \<longleftrightarrow> list_all (\<lambda>t. t = Done ()) ts"

lemma sum_list_update: "i < length xs \<Longrightarrow> sum_list (map f (xs[i := v])) = sum_list (map f xs) - f (xs ! i) + (f v :: int)"
proof (induction xs arbitrary: i)
  case (Cons x xs)
  then show ?case by (cases i) auto
qed simp

lemma sum_list_zeros: "\<forall>x \<in> set xs. f x = 0 \<Longrightarrow> sum_list (map f xs) = (0::int)"
  by (induction xs) simp_all

lemma member_le_sum: "i < length gs \<Longrightarrow> (\<And>g. 0 \<le> f g) \<Longrightarrow> f (gs ! i) \<le> (sum_list (map f gs) :: int)"
proof (induction gs arbitrary: i)
  case (Cons g gs)
  have "0 \<le> sum_list (map f gs)" by (rule sum_list_nonneg) (use Cons.prems(2) in auto)
  then show ?case using Cons by (cases i) (auto intro: add_increasing)
qed simp

section \<open>Without a lock\<close>

text \<open>How many iterations are left, the current one included, and the value loaded.\<close>

datatype racer = Before nat | Loaded nat int

fun racer_program :: "racer \<Rightarrow> unit demo" where
  "racer_program (Before n) = racing n"
| "racer_program (Loaded n v) = andthen (save (v + 1)) (\<lambda>_. racing (n - 1))"

fun racer_move :: "racer \<Rightarrow> cell \<Rightarrow> (racer \<times> cell) option" where
  "racer_move (Before n) s = Some (Loaded n (counter s), s)"
| "racer_move (Loaded n v) s = (if v + 1 \<le> i32_max then Some (Before (n - 1), s\<lparr>counter := v + 1\<rparr>) else None)"

fun racer_final :: "racer \<Rightarrow> unit option" where
  "racer_final (Before 0) = Some ()"
| "racer_final g = None"

fun racer_left :: "racer \<Rightarrow> int" where
  "racer_left (Before n) = int n"
| "racer_left (Loaded n v) = int n"

definition stores_made :: "nat \<Rightarrow> racer list \<Rightarrow> int" where
  "stores_made N gs = int N * int (length gs) - sum_list (map racer_left gs)"

text \<open>
  A thread that has loaded \<open>v\<close> can be behind, but nobody is ahead of the number of stores; and once
  there was a store the counter is at least 1, so that the last store, which is the last of its thread,
  leaves at least 2.
\<close>

fun racer_ok :: "nat \<Rightarrow> int \<Rightarrow> int \<Rightarrow> racer \<Rightarrow> bool" where
  "racer_ok N c d (Before n) = (n \<le> N \<and> (n < N \<longrightarrow> 1 \<le> c))"
| "racer_ok N c d (Loaded n v) = (0 < n \<and> n \<le> N \<and> 0 \<le> v \<and> v \<le> d \<and> (n < N \<longrightarrow> 1 \<le> c \<and> 1 \<le> v))"

definition race_inv :: "nat \<Rightarrow> racer list \<Rightarrow> cell \<Rightarrow> bool" where
  "race_inv N gs s \<longleftrightarrow> 2 \<le> N \<and> gs \<noteq> [] \<and> int N * int (length gs) \<le> i32_max \<and>
     0 \<le> counter s \<and> counter s \<le> stores_made N gs \<and>
     (\<forall>g \<in> set gs. racer_ok N (counter s) (stores_made N gs) g) \<and>
     ((\<forall>g \<in> set gs. g = Before 0) \<longrightarrow> 2 \<le> counter s)"

lemma racer_left_nonneg: "0 \<le> racer_left g"
  by (cases g) simp_all

lemma stores_made_update:
  "i < length gs \<Longrightarrow> stores_made N (gs[i := g]) = stores_made N gs + racer_left (gs ! i) - racer_left g"
  by (simp add: stores_made_def sum_list_update)

lemma racer_ok_later: "racer_ok N c d g \<Longrightarrow> 1 \<le> c' \<Longrightarrow> d \<le> d' \<Longrightarrow> racer_ok N c' d' g"
  by (cases g) auto

lemma stores_made_less:
  assumes "i < length gs" "gs ! i = Loaded n v" "0 < n"
  shows "stores_made N gs + 1 \<le> int N * int (length gs)"
proof -
  have "0 \<le> sum_list (map racer_left (gs[i := Before 0]))"
    by (rule sum_list_nonneg) (auto simp: racer_left_nonneg)
  then show ?thesis using assms by (simp add: sum_list_update stores_made_def)
qed

interpretation racers: staged_invariant racer_program racer_move racer_final "race_inv N" for N
proof unfold_locales
  show "racer_final g = Some a \<Longrightarrow> racer_program g = Done a" for g a
    by (cases g rule: racer_final.cases) simp_all
  show "racer_final g = None \<Longrightarrow> racer_program g = Step (\<lambda>s. map_option (map_prod racer_program id) (racer_move g s))" for g
    by (cases g rule: racer_final.cases)
      (simp_all add: increment_def load_def save_def atomically_def andthen_assoc fun_eq_iff)
next
  fix gs s i g s'
  assume inv: "race_inv N gs s" and i: "i < length gs" "racer_final (gs ! i) = None"
    and move: "racer_move (gs ! i) s = Some (g, s')"
  have ok: "racer_ok N (counter s) (stores_made N gs) (gs ! i)" using inv i by (simp add: race_inv_def)
  show "race_inv N (gs[i := g]) s'"
  proof (cases "gs ! i")
    case (Before n)
    then have n: "0 < n" and g: "g = Loaded n (counter s)" "s' = s" using i(2) move by (cases n; simp)+
    have same: "stores_made N (gs[i := g]) = stores_made N gs"
      using i(1) Before g by (simp add: stores_made_update)
    have "racer_ok N (counter s) (stores_made N gs) h" if "h \<in> set (gs[i := g])" for h
      using update_cases [OF that] inv ok Before n g by (auto simp: race_inv_def)
    moreover have "\<not> (\<forall>h \<in> set (gs[i := g]). h = Before 0)"
      using i(1) g(1) set_update_memI [of i gs g] by auto
    ultimately show ?thesis using inv g(2) same unfolding race_inv_def by auto
  next
    case (Loaded n v)
    then have v: "g = Before (n - 1)" "s' = s\<lparr>counter := v + 1\<rparr>" using move by (simp_all split: if_splits)
    have more: "stores_made N (gs[i := g]) = stores_made N gs + 1"
      using i(1) Loaded v(1) ok by (simp add: stores_made_update of_nat_diff)
    have "racer_ok N (v + 1) (stores_made N gs + 1) h" if "h \<in> set (gs[i := g])" for h
      using update_cases [OF that] inv ok Loaded v(1) racer_ok_later [of N "counter s" "stores_made N gs" h "v + 1" "stores_made N gs + 1"]
      by (auto simp: race_inv_def)
    moreover have "2 \<le> v + 1" if "\<forall>h \<in> set (gs[i := g]). h = Before 0"
    proof -
      have "g = Before 0" using that set_update_memI [OF i(1), of g] by blast
      then show ?thesis using v(1) ok Loaded inv by (simp add: race_inv_def)
    qed
    ultimately show ?thesis using inv ok Loaded v(2) more by (simp add: race_inv_def)
  qed
next
  fix gs s g
  assume inv: "race_inv N gs s" and g: "g \<in> set gs" "racer_final g = None"
  then obtain i where i: "i < length gs" "gs ! i = g" by (auto simp: in_set_conv_nth)
  have "racer_move g s \<noteq> None"
  proof (cases g)
    case (Loaded n v)
    then have "v + 1 \<le> stores_made N gs + 1" "0 < n" using inv g(1) by (auto simp: race_inv_def)
    then have "v + 1 \<le> i32_max"
      using stores_made_less [of i gs n v N] i Loaded inv by (simp add: race_inv_def)
    then show ?thesis using Loaded by simp
  qed simp
  then show "\<exists>i < length gs. racer_final (gs ! i) = None \<and> racer_move (gs ! i) s \<noteq> None"
    using i g(2) by blast
qed

lemma race_start: "2 \<le> N \<Longrightarrow> 0 < k \<Longrightarrow> int N * int k \<le> i32_max \<Longrightarrow>
    race_inv N (replicate k (Before N)) fresh_cell"
  by (auto simp: race_inv_def stores_made_def fresh_cell_def sum_list_replicate)

lemma racer_finals:
  assumes "joined_with (map racer_program gs)" "race_inv N gs s"
  shows "\<forall>g \<in> set gs. g = Before 0"
proof
  fix g assume g: "g \<in> set gs"
  then have "racer_program g = Done ()" using assms(1) by (simp add: joined_with_def list_all_iff)
  then show "g = Before 0"
    by (cases g rule: racer_final.cases)
      (simp_all add: increment_def load_def save_def atomically_def)
qed

text \<open>What the comment on the first demonstration does not say is how far the count can be off: when
  \<open>k\<close> threads have incremented the counter \<open>n\<close> times each without a lock, it holds at least 2 and at most
  \<open>n * k\<close>, and no increment has overflowed.\<close>

theorem race_result_bounds:
  assumes "2 \<le> n" "0 < k" "int n * int k \<le> i32_max"
    and "interleave\<^sup>*\<^sup>* (replicate k (racing n), fresh_cell) (ts, s)" "joined_with ts"
  shows "2 \<le> counter s \<and> counter s \<le> int n * int k"
proof -
  have "replicate k (racing n) = map racer_program (replicate k (Before n))" by simp
  then obtain gs where gs: "ts = map racer_program gs" "race_inv n gs s" "length gs = k"
    using racers.stage_invariant [OF _ race_start [OF assms(1-3)]] assms(4) by fastforce
  have all: "\<forall>g \<in> set gs. g = Before 0" using racer_finals gs(1,2) assms(5) by simp
  then have "map racer_left gs = replicate k 0" using gs(3) by (intro replicate_eqI) auto
  then have "stores_made n gs = int n * int k" using gs(3) by (simp add: stores_made_def sum_list_replicate)
  then show ?thesis using gs(2) all by (simp add: race_inv_def)
qed

theorem race_result_bounds_witness:
  "\<exists>ts s. interleave\<^sup>*\<^sup>* (replicate 2 (racing 2), fresh_cell) (ts, s) \<and> joined_with ts \<and> 2 \<le> counter s \<and> counter s \<le> 4"
proof -
  let ?s = "fresh_cell\<lparr>counter := 2\<rparr>" and ?ts = "[Done (), Done ()] :: unit demo list"
  have "run_schedule [0, 1, 0, 1, 0, 1, 0, 1] (replicate 2 (racing 2), fresh_cell) = Some (?ts, ?s)"
    by (simp add: numeral_2_eq_2 increment_def load_def save_def atomically_def fresh_cell_def i32_max_def)
  then have run: "interleave\<^sup>*\<^sup>* (replicate 2 (racing 2), fresh_cell) (?ts, ?s)" by (rule run_schedule_interleaves)
  have joined: "joined_with ?ts" by (simp add: joined_with_def)
  have "2 \<le> counter ?s \<and> counter ?s \<le> int 2 * int 2"
    by (rule race_result_bounds [OF _ _ _ run joined]) (simp_all add: i32_max_def)
  then have "2 \<le> counter ?s \<and> counter ?s \<le> 4" by (simp only: of_nat_numeral) simp
  with run joined show ?thesis by blast
qed

lemma racer_iterations:
  assumes "i < length gs" "gs ! i = Before (m + j)" "0 \<le> counter s" "counter s + int m \<le> i32_max"
  shows "interleave\<^sup>*\<^sup>* (map racer_program gs, s)
    (map racer_program (gs[i := Before j]), s\<lparr>counter := counter s + int m\<rparr>)"
  using assms
proof (induction m arbitrary: gs s)
  case 0
  then show ?case by (metis add_0 list_update_id of_nat_0 add.right_neutral cell.surjective
        cell.update_convs(1) rtranclp.rtrancl_refl)
next
  case (Suc m)
  let ?g1 = "Loaded (Suc (m + j)) (counter s)" and ?s2 = "s\<lparr>counter := counter s + 1\<rparr>"
  have "interleave (map racer_program gs, s) (map racer_program (gs[i := ?g1]), s)"
    using racers.move_interleaves [OF Suc.prems(1), of s ?g1 s] Suc.prems(2) by simp
  moreover have "interleave (map racer_program (gs[i := ?g1]), s)
      (map racer_program (gs[i := ?g1, i := Before (m + j)]), ?s2)"
    using racers.move_interleaves [of i "gs[i := ?g1]" s "Before (m + j)" ?s2] Suc.prems by simp
  moreover have "interleave\<^sup>*\<^sup>* (map racer_program (gs[i := Before (m + j)]), ?s2)
      (map racer_program (gs[i := Before (m + j), i := Before j]), ?s2\<lparr>counter := counter ?s2 + int m\<rparr>)"
    by (rule Suc.IH) (use Suc.prems in simp_all)
  ultimately show ?case by (simp add: converse_rtranclp_into_rtranclp add.assoc)
qed

lemma racer_final_pos [simp]: "0 < n \<Longrightarrow> racer_final (Before n) = None"
  by (cases n) simp_all

text \<open>The lower bound is reached: with the 100000 iterations of the source, all but two of the 200000
  increments can be lost.\<close>

theorem race_loses_all_but_two:
  "\<exists>ts s. interleave\<^sup>*\<^sup>* demo_race_condition (ts, s) \<and> joined_with ts \<and> counter s = 2"
proof -
  let ?P = "map racer_program" and ?c = "\<lambda>n. fresh_cell\<lparr>counter := n\<rparr>" and ?N = ITERATIONS
  let ?n = "?N - 1"
  have n: "Suc ?n = ?N" "1 + int ?n \<le> i32_max" "0 < ?n" "0 < ?N" by (simp_all add: ITERATIONS_def i32_max_def)
  have c: "?c 0 = fresh_cell" by (simp add: fresh_cell_def)
  have "interleave (?P [Before ?N, Before ?N], ?c 0) (?P [Loaded ?N 0, Before ?N], ?c 0)"
    using racers.move_interleaves [of 0 "[Before ?N, Before ?N]" "?c 0" "Loaded ?N 0" "?c 0"] n(4) by simp
  also have "interleave\<^sup>*\<^sup>* (?P [Loaded ?N 0, Before ?N], ?c 0) (?P [Loaded ?N 0, Before 1], ?c (int ?n))"
    using racer_iterations [of 1 "[Loaded ?N 0, Before ?N]" ?n 1 "?c 0"] n(1,2) by simp
  also have "interleave (?P [Loaded ?N 0, Before 1], ?c (int ?n)) (?P [Before ?n, Before 1], ?c 1)"
    using racers.move_interleaves [of 0 "[Loaded ?N 0, Before 1]" "?c (int ?n)" "Before ?n" "?c 1"]
    by (simp add: i32_max_def)
  also have "interleave (?P [Before ?n, Before 1], ?c 1) (?P [Before ?n, Loaded 1 1], ?c 1)"
    using racers.move_interleaves [of 1 "[Before ?n, Before 1]" "?c 1" "Loaded 1 1" "?c 1"] by simp
  also have "interleave\<^sup>*\<^sup>* (?P [Before ?n, Loaded 1 1], ?c 1) (?P [Before 0, Loaded 1 1], ?c (1 + int ?n))"
    using racer_iterations [of 0 "[Before ?n, Loaded 1 1]" ?n 0 "?c 1"] n(2) by simp
  also have "interleave (?P [Before 0, Loaded 1 1], ?c (1 + int ?n)) (?P [Before 0, Before 0], ?c 2)"
    using racers.move_interleaves [of 1 "[Before 0, Loaded 1 1]" "?c (1 + int ?n)" "Before 0" "?c 2"]
    by (simp add: i32_max_def)
  finally have "interleave\<^sup>*\<^sup>* (?P [Before ?N, Before ?N], ?c 0) (?P [Before 0, Before 0], ?c 2)" .
  then show ?thesis
    unfolding demo_race_condition_def
    by (intro exI [of _ "?P [Before 0, Before 0]"] exI [of _ "?c 2"]) (simp add: joined_with_def c)
qed

section \<open>With a mutex\<close>

datatype guard = Outside nat | Locked nat | Read nat int | Written nat

fun guard_program :: "guard \<Rightarrow> unit demo" where
  "guard_program (Outside n) = guarded n"
| "guard_program (Locked n) = andthen increment (\<lambda>_. andthen release (\<lambda>_. guarded n))"
| "guard_program (Read n v) = andthen (save (v + 1)) (\<lambda>_. andthen release (\<lambda>_. guarded n))"
| "guard_program (Written n) = andthen release (\<lambda>_. guarded n)"

fun guard_move :: "guard \<Rightarrow> cell \<Rightarrow> (guard \<times> cell) option" where
  "guard_move (Outside n) s = (if mtx s then None else Some (Locked (n - 1), s\<lparr>mtx := True\<rparr>))"
| "guard_move (Locked n) s = Some (Read n (counter s), s)"
| "guard_move (Read n v) s = (if v + 1 \<le> i32_max then Some (Written n, s\<lparr>counter := v + 1\<rparr>) else None)"
| "guard_move (Written n) s = Some (Outside n, s\<lparr>mtx := False\<rparr>)"

fun guard_final :: "guard \<Rightarrow> unit option" where
  "guard_final (Outside 0) = Some ()"
| "guard_final g = None"

text \<open>The increments that are still to come, and whether the thread holds the mutex.\<close>

fun guard_left :: "guard \<Rightarrow> int" where
  "guard_left (Outside n) = int n"
| "guard_left (Locked n) = int n + 1"
| "guard_left (Read n v) = int n + 1"
| "guard_left (Written n) = int n"

fun guard_holds :: "guard \<Rightarrow> bool" where
  "guard_holds (Outside n) = False"
| "guard_holds g = True"

definition guard_inv :: "int \<Rightarrow> guard list \<Rightarrow> cell \<Rightarrow> bool" where
  "guard_inv all gs s \<longleftrightarrow> all \<le> i32_max \<and> counter s + sum_list (map guard_left gs) = all \<and>
     count_of guard_holds gs = (if mtx s then 1 else 0) \<and> (\<forall>n v. Read n v \<in> set gs \<longrightarrow> v = counter s)"

lemma guard_left_nonneg: "0 \<le> guard_left g"
  by (cases g) simp_all

lemma in_update_other: "x \<in> set (xs[i := v]) \<Longrightarrow> x \<noteq> v \<Longrightarrow> x \<in> set (xs[i := w])"
proof -
  assume "x \<in> set (xs[i := v])" and new: "x \<noteq> v"
  then obtain j where j: "j < length xs" "xs[i := v] ! j = x" by (auto simp: in_set_conv_nth)
  then have "xs[i := w] ! j = x" using new by (cases "j = i") simp_all
  then show ?thesis using j(1) nth_mem [of j "xs[i := w]"] by simp
qed

lemma guard_only_holder:
  assumes "guard_inv all gs s" "i < length gs" "guard_holds (gs ! i)" "guard_holds g" "g \<in> set (gs[i := h])" "\<not> guard_holds h"
  shows False
proof -
  have "count_of guard_holds (gs[i := h]) + 1 = count_of guard_holds gs"
    using count_of_update [OF assms(2), of guard_holds h] assms(3,6) by simp
  moreover have "0 < count_of guard_holds (gs[i := h])" using assms(4,5) by (auto simp: count_of_pos_iff)
  ultimately show False using assms(1) by (simp add: guard_inv_def split: if_splits)
qed

lemma guard_moved:
  assumes inv: "guard_inv all gs s" and i: "i < length gs" "guard_final (gs ! i) = None"
    and move: "guard_move (gs ! i) s = Some (g, s')"
  shows "guard_inv all (gs[i := g]) s'"
proof -
  have sum: "sum_list (map guard_left (gs[i := g])) = sum_list (map guard_left gs) - guard_left (gs ! i) + guard_left g"
    using i(1) by (rule sum_list_update)
  have cnt: "count_of guard_holds (gs[i := g]) + (if guard_holds (gs ! i) then 1 else 0) =
      count_of guard_holds gs + (if guard_holds g then 1 else 0)"
    using i(1) by (rule count_of_update)
  have reads: "v = counter s" if "Read n v \<in> set (gs[i := g])" "g \<noteq> Read n v" for n v
    using update_cases [OF that(1)] that(2) inv by (auto simp: guard_inv_def)
  show ?thesis
  proof (cases "gs ! i")
    case (Outside n)
    then have "0 < n" using i(2) by (cases n) simp_all
    then show ?thesis using Outside inv sum cnt reads move by (auto simp: guard_inv_def of_nat_diff split: if_splits)
  next
    case (Locked n)
    then show ?thesis using inv sum cnt reads move by (fastforce simp: guard_inv_def split: if_splits)
  next
    case (Read n v)
    have other: "False" if "Read m w \<in> set (gs[i := g])" for m w
    proof -
      have "Read m w \<in> set (gs[i := Outside 0])"
        by (rule in_update_other [OF that]) (use move Read in \<open>auto split: if_splits\<close>)
      then show ?thesis using guard_only_holder [OF inv i(1), of "Read m w" "Outside 0"] Read by simp
    qed
    have "v = counter s" using inv i(1) Read nth_mem [OF i(1)] by (auto simp: guard_inv_def)
    then show ?thesis using inv sum cnt other move Read by (auto simp: guard_inv_def split: if_splits)
  next
    case (Written n)
    then show ?thesis using inv sum cnt reads move by (auto simp: guard_inv_def split: if_splits)
  qed
qed

lemma guard_progress:
  assumes inv: "guard_inv all gs s" and g: "g \<in> set gs" "guard_final g = None"
  shows "\<exists>i < length gs. guard_final (gs ! i) = None \<and> guard_move (gs ! i) s \<noteq> None"
proof -
  have holder: "guard_final h = None \<and> guard_move h s \<noteq> None" if h: "h \<in> set gs" "guard_holds h" for h
  proof (cases h)
    case (Read n v)
    have "0 \<le> sum_list (map guard_left (remove1 h gs))"
      by (rule sum_list_nonneg) (auto simp: guard_left_nonneg)
    moreover have "sum_list (map guard_left gs) = guard_left h + sum_list (map guard_left (remove1 h gs))"
      using h(1) by (simp add: sum_list_map_remove1)
    ultimately have "counter s + 1 \<le> all" using inv Read by (simp add: guard_inv_def)
    then show ?thesis using inv Read h(1) by (auto simp: guard_inv_def)
  qed (use h in auto)
  show ?thesis
  proof (cases "mtx s")
    case True
    then have "0 < count_of guard_holds gs" using inv by (simp add: guard_inv_def)
    then obtain h where h: "h \<in> set gs" "guard_holds h" by (auto simp: count_of_pos_iff)
    then obtain i where "i < length gs" "gs ! i = h" by (auto simp: in_set_conv_nth)
    then show ?thesis using holder [OF h] by blast
  next
    case False
    obtain i where i: "i < length gs" "gs ! i = g" using g(1) by (auto simp: in_set_conv_nth)
    have "guard_move g s \<noteq> None"
      using holder [OF g(1)] False by (cases g) auto
    then show ?thesis using i g(2) by blast
  qed
qed

interpretation guards: staged_invariant guard_program guard_move guard_final "guard_inv all" for all
proof unfold_locales
  show "guard_final g = Some a \<Longrightarrow> guard_program g = Done a" for g a
    by (cases g rule: guard_final.cases) simp_all
  show "guard_final g = None \<Longrightarrow> guard_program g = Step (\<lambda>s. map_option (map_prod guard_program id) (guard_move g s))" for g
    by (cases g rule: guard_final.cases)
      (simp_all add: increment_def load_def save_def acquire_def release_def atomically_def andthen_assoc fun_eq_iff)
qed (fact guard_moved, fact guard_progress)

lemma guard_joined: "joined_with (map guard_program gs) \<Longrightarrow> \<forall>g \<in> set gs. g = Outside 0"
proof
  fix g assume "joined_with (map guard_program gs)" "g \<in> set gs"
  then have "guard_program g = Done ()" by (simp add: joined_with_def list_all_iff)
  then show "g = Outside 0"
    by (cases g rule: guard_final.cases)
      (simp_all add: increment_def load_def save_def acquire_def release_def atomically_def)
qed

text \<open>With the mutex no increment is lost: whenever both threads are joined the counter is 200000, and
  from every state that can be reached they can be run to that end, so the mutex is never left locked.\<close>

theorem mutex_counts_exactly:
  assumes "interleave\<^sup>*\<^sup>* demo_mutex_fix (ts, s)"
  shows "(joined_with ts \<longrightarrow> counter s = 200000) \<and>
    (\<exists>ts' s'. interleave\<^sup>*\<^sup>* (ts, s) (ts', s') \<and> joined_with ts')"
proof -
  let ?gs = "[Outside ITERATIONS, Outside ITERATIONS]"
  have start: "demo_mutex_fix = (map guard_program ?gs, fresh_cell)" by (simp add: demo_mutex_fix_def)
  have inv: "guard_inv 200000 ?gs fresh_cell"
    by (simp add: guard_inv_def fresh_cell_def ITERATIONS_def i32_max_def)
  obtain gs where gs: "ts = map guard_program gs" "guard_inv 200000 gs s"
    using guards.stage_invariant [OF assms [unfolded start] inv] by blast
  have "counter s = 200000" if "joined_with ts"
  proof -
    have "\<forall>g \<in> set gs. guard_left g = 0" using guard_joined that gs(1) by fastforce
    then have "sum_list (map guard_left gs) = 0" by (rule sum_list_zeros)
    then show ?thesis using gs(2) by (simp add: guard_inv_def)
  qed
  moreover have "\<exists>ts' s'. interleave\<^sup>*\<^sup>* (ts, s) (ts', s') \<and> joined_with ts'"
  proof -
    obtain gs' s' where end': "interleave\<^sup>*\<^sup>* (ts, s) (map guard_program gs', s')" "\<forall>g \<in> set gs'. guard_final g \<noteq> None"
      using guards.runs_to_the_end [OF inv] assms [unfolded start] by blast
    have "guard_program g = Done ()" if "guard_final g \<noteq> None" for g
      using that by (cases g rule: guard_final.cases) simp_all
    then have "joined_with (map guard_program gs')" using end'(2) by (simp add: joined_with_def list_all_iff)
    then show ?thesis using end'(1) by blast
  qed
  ultimately show ?thesis by blast
qed

theorem mutex_counts_exactly_witness:
  "\<exists>ts s. interleave\<^sup>*\<^sup>* demo_mutex_fix (ts, s) \<and> joined_with ts \<and> counter s = 200000"
proof -
  obtain ts s where run: "interleave\<^sup>*\<^sup>* demo_mutex_fix (ts, s)" "joined_with ts"
    using mutex_counts_exactly [of "fst demo_mutex_fix" "snd demo_mutex_fix"] by auto
  then show ?thesis using mutex_counts_exactly [OF run(1)] by blast
qed

section \<open>Atomically\<close>

fun adder_move :: "nat \<Rightarrow> cell \<Rightarrow> (nat \<times> cell) option" where
  "adder_move n s = Some (n - 1, s\<lparr>counter := to_i32 (counter s + 1)\<rparr>)"

definition adder_final :: "nat \<Rightarrow> unit option" where
  "adder_final n = (if n = 0 then Some () else None)"

definition adder_inv :: "int \<Rightarrow> nat list \<Rightarrow> cell \<Rightarrow> bool" where
  "adder_inv all gs s \<longleftrightarrow> all \<le> i32_max \<and> 0 \<le> counter s \<and> counter s + sum_list (map int gs) = all"

lemma adder_moved:
  assumes inv: "adder_inv all gs s" and i: "i < length gs" "adder_final (gs ! i) = None"
    and move: "adder_move (gs ! i) s = Some (g, s')"
  shows "adder_inv all (gs[i := g]) s'"
proof -
  have "0 < gs ! i" using i(2) by (simp add: adder_final_def split: if_splits)
  moreover have "int (gs ! i) \<le> sum_list (map int gs)" using member_le_sum [OF i(1), of int] by simp
  ultimately have "to_i32 (counter s + 1) = counter s + 1"
    using inv by (intro to_i32_id) (auto simp: adder_inv_def)
  then show ?thesis
    using inv move \<open>0 < gs ! i\<close> sum_list_update [OF i(1), of int g] by (auto simp: adder_inv_def of_nat_diff)
qed

interpretation adders: staged_invariant adding adder_move adder_final "adder_inv all" for all
proof unfold_locales
  show "adder_final n = Some a \<Longrightarrow> adding n = Done a" for n a
    by (simp add: adder_final_def split: if_splits)
  show "adder_final n = None \<Longrightarrow> adding n = Step (\<lambda>s. map_option (map_prod adding id) (adder_move n s))" for n
    by (cases n) (simp_all add: adder_final_def fetch_add_def atomically_def)
  show "\<exists>i < length gs. adder_final (gs ! i) = None \<and> adder_move (gs ! i) s \<noteq> None"
    if "n \<in> set gs" "adder_final n = None" for gs n and s :: cell
    using that by (metis adder_move.simps in_set_conv_nth option.distinct(1))
qed (fact adder_moved)

text \<open>With \<open>fetch_add\<close> the counter is 200000 when both threads are joined.\<close>

theorem atomics_count_exactly:
  assumes "interleave\<^sup>*\<^sup>* demo_atomics (ts, s)" and "joined_with ts"
  shows "counter s = 200000"
proof -
  let ?gs = "[ITERATIONS, ITERATIONS]"
  have "demo_atomics = (map adding ?gs, fresh_cell)" by (simp add: demo_atomics_def)
  moreover have "adder_inv 200000 ?gs fresh_cell"
    by (simp add: adder_inv_def fresh_cell_def ITERATIONS_def i32_max_def)
  ultimately obtain gs where gs: "ts = map adding gs" "adder_inv 200000 gs s"
    using adders.stage_invariant assms(1) by (metis prod.inject)
  have "n = 0" if "n \<in> set gs" for n
  proof (rule ccontr)
    assume "n \<noteq> 0"
    then have "adding n \<noteq> Done ()" by (cases n) (simp_all add: fetch_add_def atomically_def)
    then show False using assms(2) gs(1) that by (auto simp: joined_with_def list_all_iff)
  qed
  then have "sum_list (map int gs) = 0" by (simp add: sum_list_zeros)
  then show ?thesis using gs(2) by (simp add: adder_inv_def)
qed

end
