(* ===== verification/Shared_Mutex_Demo.thy ===== *)
theory Shared_Mutex_Demo
  imports Mutex_Demo
begin














section \<open>The stages of readers and writers\<close>

datatype rw_stage = R_Out nat | R_In nat | R_Read nat | R_Counted nat
  | W_Out nat | W_In nat | W_Loaded nat int | W_Stored nat | W_Counted nat






text \<open>What is left to be counted and to be added.\<close>

fun reads_left :: "rw_stage \<Rightarrow> int" where
  "reads_left (R_Out n) = int n" | "reads_left (R_In n) = int n + 1" | "reads_left (R_Read n) = int n + 1"
| "reads_left (R_Counted n) = int n" | "reads_left g = 0"

fun writes_left :: "rw_stage \<Rightarrow> int" where
  "writes_left (W_Out n) = int n" | "writes_left (W_In n) = int n + 1" | "writes_left (W_Loaded n v) = int n + 1"
| "writes_left (W_Stored n) = int n + 1" | "writes_left (W_Counted n) = int n" | "writes_left g = 0"

fun data_left :: "rw_stage \<Rightarrow> int" where
  "data_left (W_Out n) = int n" | "data_left (W_In n) = int n + 1" | "data_left (W_Loaded n v) = int n + 1"
| "data_left (W_Stored n) = int n" | "data_left (W_Counted n) = int n" | "data_left g = 0"




lemma left_nonneg [simp]: "0 \<le> reads_left g" "0 \<le> writes_left g" "0 \<le> data_left g"
  by (cases g; simp)+










end
