(* ===== verification/Logger.thy ===== *)
theory Logger
  imports Thread_Programs "HOL-Library.Multiset" "HOL-Library.Sublist"
begin

text \<open>
  \<^verbatim>\<open>backend/include/utils/Logger.hpp\<close>: levels, the format of a line, and the sink all threads share.
  What the standard library does with the environment is a parameter: \<open>put_time\<close> renders a second in
  the local time zone, and a thread is given by the text of its id. \<open>log\<close> reads the minimal level without a
  lock and writes the finished line inside the critical section, so it is two steps of a thread.
\<close>

section \<open>Levels\<close>

datatype LogLevel = DEBUG | INFO | WARNING | ERROR

fun level_value :: "LogLevel \<Rightarrow> nat" where
  "level_value DEBUG = 0"
| "level_value INFO = 1"
| "level_value WARNING = 2"
| "level_value ERROR = 3"

lemma level_value_inj: "level_value a = level_value b \<Longrightarrow> a = b"
  by (cases a; cases b) simp_all

instantiation LogLevel :: linorder
begin

definition less_eq_LogLevel :: "LogLevel \<Rightarrow> LogLevel \<Rightarrow> bool" where
  "a \<le> b \<longleftrightarrow> level_value a \<le> level_value b"

definition less_LogLevel :: "LogLevel \<Rightarrow> LogLevel \<Rightarrow> bool" where
  "a < b \<longleftrightarrow> level_value a < level_value b"

instance
  by standard (auto simp: less_eq_LogLevel_def less_LogLevel_def dest: level_value_inj)

end

fun level_string :: "LogLevel \<Rightarrow> string" where
  "level_string DEBUG = ''DEBUG  ''"
| "level_string INFO = ''INFO   ''"
| "level_string WARNING = ''WARNING''"
| "level_string ERROR = ''ERROR  ''"

section \<open>The format of a line\<close>

definition find_last_of :: "string \<Rightarrow> string \<Rightarrow> nat option" where
  "find_last_of cs s = (case filter (\<lambda>i. s ! i \<in> set cs) [0..<length s] of
     [] \<Rightarrow> None | is \<Rightarrow> Some (last is))"

definition file_name :: "string \<Rightarrow> string" where
  "file_name path = (case find_last_of [CHR ''/'', CHR 0x5C] path of
     None \<Rightarrow> path | Some pos \<Rightarrow> drop (pos + 1) path)"

text \<open>\<open>setfill('0') << setw(3)\<close>.\<close>

definition padded :: "nat \<Rightarrow> string \<Rightarrow> string" where
  "padded w s = replicate (w - length s) (CHR ''0'') @ s"

text \<open>The arguments of a call of \<open>log\<close>, with the instant (in milliseconds) and the thread it runs in.\<close>

record entry =
  e_level :: LogLevel
  e_message :: string
  e_file :: string
  e_line :: int
  e_now :: int
  e_thread :: string

definition format_entry :: "(int \<Rightarrow> string) \<Rightarrow> entry \<Rightarrow> string" where
  "format_entry put_time e = put_time (e_now e div 1000) @ ''.'' @ padded 3 (to_string (e_now e mod 1000)) @
     '' ['' @ level_string (e_level e) @ ''] [thread:'' @ e_thread e @ ''] '' @
     (if e_file e = [] then [] else file_name (e_file e) @ '':'' @ to_string (e_line e) @ '' '') @
     e_message e @ [CHR 0x0A]"

lemma sorted_le_last: "sorted xs \<Longrightarrow> x \<in> set xs \<Longrightarrow> x \<le> last xs"
  by (induction xs) (auto split: if_splits)

lemma find_last_of_None:
  assumes "find_last_of cs s = None"
  shows "set cs \<inter> set s = {}"
proof -
  have "filter (\<lambda>i. s ! i \<in> set cs) [0..<length s] = []"
    using assms by (simp add: find_last_of_def split: list.splits)
  then have "s ! i \<notin> set cs" if "i < length s" for i using that by (simp add: filter_empty_conv)
  moreover have "\<exists>i < length s. s ! i = x" if "x \<in> set s" for x using that by (simp add: in_set_conv_nth)
  ultimately show ?thesis by blast
qed

lemma find_last_of_Some:
  assumes "find_last_of cs s = Some p"
  shows "p < length s" "s ! p \<in> set cs" "set cs \<inter> set (drop (p + 1) s) = {}"
proof -
  let ?is = "filter (\<lambda>i. s ! i \<in> set cs) [0..<length s]"
  have p: "?is \<noteq> []" "last ?is = p" using assms by (auto simp: find_last_of_def split: list.splits)
  then have "p \<in> set ?is" using last_in_set [OF p(1)] by simp
  then show "p < length s" "s ! p \<in> set cs" by simp_all
  have "s ! (p + 1 + j) \<notin> set cs" if "p + 1 + j < length s" for j
  proof
    assume "s ! (p + 1 + j) \<in> set cs"
    then have "p + 1 + j \<in> set ?is" using that by simp
    then have "p + 1 + j \<le> p" using sorted_le_last [of ?is "p + 1 + j"] p(2) by (simp add: sorted_wrt_filter)
    then show False by simp
  qed
  then have "drop (p + 1) s ! j \<notin> set cs" if "j < length (drop (p + 1) s)" for j using that by simp
  moreover have "\<exists>j < length (drop (p + 1) s). drop (p + 1) s ! j = x" if "x \<in> set (drop (p + 1) s)" for x
    using that by (simp only: in_set_conv_nth)
  ultimately show "set cs \<inter> set (drop (p + 1) s) = {}" by blast
qed

text \<open>The file of a log line is the part of the path behind the last slash or backslash, which has
  neither.\<close>

theorem file_name_of_path:
  "\<exists>dir. path = dir @ file_name path \<and> CHR ''/'' \<notin> set (file_name path) \<and>
    CHR 0x5C \<notin> set (file_name path) \<and> (dir = [] \<or> last dir = CHR ''/'' \<or> last dir = CHR 0x5C)"
proof (cases "find_last_of [CHR ''/'', CHR 0x5C] path")
  case None
  then have "path = [] @ file_name path" "{CHR ''/'', CHR 0x5C} \<inter> set (file_name path) = {}"
    using find_last_of_None [OF None] by (simp_all add: file_name_def)
  then show ?thesis by blast
next
  case (Some p)
  note f = find_last_of_Some [OF Some]
  let ?dir = "take (p + 1) path"
  have "path = ?dir @ file_name path" "{CHR ''/'', CHR 0x5C} \<inter> set (file_name path) = {}"
    using f(3) Some by (simp_all add: file_name_def)
  moreover have "last ?dir = path ! p" using f(1) by (simp add: take_Suc_conv_app_nth)
  then have "last ?dir = CHR ''/'' \<or> last ?dir = CHR 0x5C" using f(2) by auto
  ultimately show ?thesis by blast
qed

section \<open>The logger\<close>

text \<open>\<open>written\<close> has the contents of the files, \<open>can_open\<close> says which paths the system lets it open.\<close>

record logger =
  min_level :: LogLevel
  log_path :: "string option"
  written :: "string \<Rightarrow> string"
  std_out :: string
  can_open :: "string \<Rightarrow> bool"

definition set_level :: "LogLevel \<Rightarrow> logger \<Rightarrow> logger" where
  "set_level level l = l\<lparr>min_level := level\<rparr>"

text \<open>\<open>std::ios::app\<close> keeps what the file has; a file that cannot be opened is not written to.\<close>

definition set_file :: "string \<Rightarrow> logger \<Rightarrow> logger" where
  "set_file path l = l\<lparr>log_path := (if can_open l path then Some path else None)\<rparr>"

definition emit :: "string \<Rightarrow> logger \<Rightarrow> logger" where
  "emit s l = (let l1 = l\<lparr>std_out := std_out l @ s\<rparr> in case log_path l1 of
       None \<Rightarrow> l1
     | Some p \<Rightarrow> l1\<lparr>written := (written l1)(p := written l1 p @ s)\<rparr>)"

definition log_call :: "(int \<Rightarrow> string) \<Rightarrow> entry \<Rightarrow> (logger, unit) prog" where
  "log_call put_time e = andthen (atomically (\<lambda>l. Some (e_level e < min_level l, l))) (\<lambda>skip.
     if skip then Done () else atomically (\<lambda>l. Some ((), emit (format_entry put_time e) l)))"

text \<open>A call that is not interrupted.\<close>

definition log_line :: "(int \<Rightarrow> string) \<Rightarrow> entry \<Rightarrow> logger \<Rightarrow> logger" where
  "log_line put_time e l = (if e_level e < min_level l then l else emit (format_entry put_time e) l)"

lemma log_call_alone: "run (log_call put_time e) l = Some ((), log_line put_time e l)"
  by (simp add: log_call_def log_line_def atomically_def)


section \<open>Lines of different threads\<close>



















end
