(* ===== verification/Server_Start.thy ===== *)
theory Server_Start
  imports Seed_Data Logger C_Strings
begin

text \<open>
  \<^verbatim>\<open>backend/src/main.cpp\<close> from its first line to its exit code, with the constructor and destructor of
  \<open>Database\<close> and the lines they log. What the process finds is a parameter, the record \<open>env\<close>: the
  environment variables, the errors the engine and the web framework may report, clock, time zone and
  thread id, the compiler's \<open>__FILE__\<close> prefix, the requests that Crow delivers until a signal stops it,
  and the number of that signal. A database file that does not exist is one without rows. The banner on
  the terminal is left out.
\<close>

section \<open>The process\<close>

record env =
  getenv :: "string \<Rightarrow> string option"
  open_error :: "string \<Rightarrow> string option"
  pragma_error :: "string \<Rightarrow> string option"
  schema_error :: "string option"
  seed_error :: string
  txn_refused :: "txn_cmd \<Rightarrow> string option"
  run_error :: "exn option"
  datetime :: "int \<Rightarrow> string"
  started_at :: int
  put_time :: "int \<Rightarrow> string"
  now_at :: "nat \<Rightarrow> int"
  thread_id :: string
  source_dir :: string
  requests :: "event list"
  stop_signal :: int

record process =
  files :: "string \<Rightarrow> tables"
  sink :: logger
  ticks :: nat

text \<open>\<open>LOG_INFO(msg)\<close> and \<open>LOG_ERROR(msg)\<close>; \<open>ticks\<close> counts the readings of the clock.\<close>

definition LOG :: "env \<Rightarrow> LogLevel \<Rightarrow> string \<Rightarrow> string \<Rightarrow> int \<Rightarrow> process \<Rightarrow> process" where
  "LOG env level msg file line w = w\<lparr>sink := log_line (put_time env)
       \<lparr>e_level = level, e_message = msg, e_file = source_dir env @ file, e_line = line,
        e_now = now_at env (ticks w), e_thread = thread_id env\<rparr> (sink w),
     ticks := ticks w + 1\<rparr>"

definition main_note :: "env \<Rightarrow> string \<Rightarrow> int \<Rightarrow> process \<Rightarrow> process" where
  "main_note env msg line = LOG env INFO msg ''src/main.cpp'' line"

definition db_note :: "env \<Rightarrow> string \<Rightarrow> int \<Rightarrow> process \<Rightarrow> process" where
  "db_note env msg line = LOG env INFO msg ''src/database/Database.cpp'' line"

section \<open>The database\<close>

text \<open>An empty connection to a file: the engine's part of \<open>sqlite3_open\<close>.\<close>

definition connect :: "env \<Rightarrow> tables \<Rightarrow> conn" where
  "connect env t = \<lparr>db_tabs = t, db_txn = None, db_changes = 0, db_last_id = 0, db_clock = started_at env,
     db_datetime = datetime env, db_refuse = txn_refused env\<rparr>"






section \<open>main\<close>


definition text_setting :: "env \<Rightarrow> string \<Rightarrow> string \<Rightarrow> string" where
  "text_setting env name d = (case getenv env name of None \<Rightarrow> d | Some s \<Rightarrow> s)"

definition db_path_of :: "env \<Rightarrow> string" where
  "db_path_of env = text_setting env ''ACADEMIA_DB_PATH'' ''academia.db''"





definition start_logging :: "env \<Rightarrow> int \<Rightarrow> int \<Rightarrow> process \<Rightarrow> process" where
  "start_logging env port num_threads w =
     (let w1 = w\<lparr>sink := set_level INFO (set_file (text_setting env ''ACADEMIA_LOG_FILE'' ''academia_server.log'') (sink w))\<rparr>;
          w2 = main_note env ''=== Academia Course Registration Server ==='' 62 w1;
          w3 = main_note env (''Database: '' @ db_path_of env) 63 w2;
          w4 = main_note env (''Port: '' @ to_string port) 64 w3
      in main_note env (''Threads: '' @ to_string num_threads) 65 w4)"


section \<open>What a run leaves\<close>

text \<open>What a run may find in the file, and what one leaves.\<close>

definition account_rows :: "tables \<Rightarrow> user_row list \<times> int" where
  "account_rows t = (t_users t, t_user_seq t)"

definition in_use :: "tables \<Rightarrow> bool" where
  "in_use t \<longleftrightarrow> db_ok t \<and> passwords_hashed (account_rows t) \<and> has_admin (account_rows t)"

definition startable :: "tables \<Rightarrow> bool" where
  "startable t \<longleftrightarrow> t = initialize_schema \<or> in_use t \<and> int (length (t_users t)) \<le> i32_max"


lemma LOG_files [simp]: "files (LOG env l msg f n w) = files w"
  by (simp add: LOG_def)

lemma note_files [simp]: "files (main_note env msg n w) = files w" "files (db_note env msg n w) = files w"
    "files (start_logging env p n w) = files w"
  by (simp_all add: main_note_def db_note_def start_logging_def Let_def)

lemma connect_simps [simp]: "db_tabs (connect env t) = t" "idle (connect env t)"
    "txn_refused env = (\<lambda>_. None) \<Longrightarrow> engine_ok (connect env t)"
  by (simp_all add: connect_def idle_def engine_ok_def)

lemma seeded_in_use: "in_use (seeded_tables now)"
  using seeded_tables_ok [of now] seeded_passwords [of now]
  by (simp add: in_use_def account_rows_def passwords_hashed_def has_admin_def)
    (simp add: seeded_tables_def seed_users_def seeded_user_def Let_def)



text \<open>The tables the requests of a run find.\<close>

definition start_tables :: "env \<Rightarrow> process \<Rightarrow> tables" where
  "start_tables env w = (let t = files w (db_path_of env)
     in if t = initialize_schema then seeded_tables (datetime env (started_at env)) else t)"

lemma start_tables_in_use: "startable (files w (db_path_of env)) \<Longrightarrow> in_use (start_tables env w)"
  by (auto simp: start_tables_def Let_def startable_def seeded_in_use)







end
