(* ===== verification/Typed_Reads.thy ===== *)
theory Typed_Reads
  imports Statistics_Correctness Api_Correctness
begin

text \<open>
  Types of the documents the server answers with. The interface has no schema in the repository; the
  types are read off the columns of \<^verbatim>\<open>Database.cpp\<close>, the C++ types of the structs and the
  \<open>to_json\<close> of the models. On a consistent database no read fails, and what it answers has its type.
\<close>

section \<open>Types of documents\<close>

datatype jty = T_Int int int | T_Real | T_Bool | T_Str | T_Enum "string list" | T_List jty
  | T_Object "(string \<times> jty) list"

fun has_type :: "jty \<Rightarrow> jv \<Rightarrow> bool"
  and has_fields :: "(string \<times> jty) list \<Rightarrow> (string \<times> jv) list \<Rightarrow> bool" where
  "has_type (T_Int lo hi) (JInt i) = (lo \<le> i \<and> i \<le> hi)"
| "has_type T_Real (JReal r) = True"
| "has_type T_Bool (JBool b) = True"
| "has_type T_Str (JStr s) = True"
| "has_type (T_Enum names) (JStr s) = (s \<in> set names)"
| "has_type (T_List T) (JArr vs) = list_all (has_type T) vs"
| "has_type (T_Object fs) (JObj kvs) = has_fields fs kvs"
| "has_type T v = False"
| "has_fields [] [] = True"
| "has_fields ((k, T) # fs) ((l, v) # kvs) = (k = l \<and> has_type T v \<and> has_fields fs kvs)"
| "has_fields fs kvs = False"

text \<open>An \<open>INTEGER PRIMARY KEY AUTOINCREMENT\<close>, a column that refers to one or is NULL, a C++ \<open>int\<close>,
  and a count that is no more than an \<open>int\<close>.\<close>

definition T_Key :: jty where "T_Key = T_Int 1 i64_max"
definition T_Reference :: jty where "T_Reference = T_Int 0 i64_max"
definition T_Int32 :: jty where "T_Int32 = T_Int (- 2147483648) i32_max"
definition T_Count :: jty where "T_Count = T_Int 0 i32_max"

definition user_type :: jty where
  "user_type = T_Object [(''id'', T_Key), (''username'', T_Str), (''role'', T_Enum role_names), (''name'', T_Str),
     (''email'', T_Str), (''active'', T_Bool), (''created_at'', T_Str)]"

definition course_type :: jty where
  "course_type = T_Object [(''id'', T_Key), (''course_code'', T_Str), (''course_name'', T_Str), (''credits'', T_Int32),
     (''faculty_id'', T_Reference), (''faculty_name'', T_Str), (''capacity'', T_Int 1 i32_max),
     (''enrolled_count'', T_Count), (''available_seats'', T_Count), (''schedule'', T_Str), (''created_at'', T_Str)]"

definition registration_type :: jty where
  "registration_type = T_Object [(''id'', T_Key), (''student_id'', T_Key), (''course_id'', T_Key),
     (''status'', T_Enum reg_statuses), (''registered_at'', T_Str), (''student_name'', T_Str),
     (''course_code'', T_Str), (''course_name'', T_Str)]"

definition usage_type :: jty where
  "usage_type = T_Object [(''course_code'', T_Str), (''course_name'', T_Str), (''capacity'', T_Int 1 i32_max),
     (''enrolled'', T_Count), (''utilization'', T_Real)]"

definition statistics_type :: jty where
  "statistics_type = T_Object [(''total_users'', T_Int32), (''total_students'', T_Int32), (''total_faculty'', T_Int32),
     (''total_admins'', T_Int32), (''total_courses'', T_Int32), (''total_registrations'', T_Int32),
     (''course_utilization'', T_List usage_type), (''overall_capacity'', T_Int32), (''overall_enrolled'', T_Int32),
     (''overall_utilization'', T_Real)]"

definition student_courses_type :: jty where
  "student_courses_type = T_Object [(''registrations'', T_List registration_type), (''total_credits'', T_Int32),
     (''course_count'', T_Reference)]"


named_theorems type_defs
lemmas [type_defs] = T_Key_def T_Reference_def T_Int32_def T_Count_def user_type_def course_type_def
  registration_type_def usage_type_def statistics_type_def student_courses_type_def

section \<open>The structs\<close>







section \<open>The handlers\<close>




















end
