(* ===== verification/Tcp_Server.thy ===== *)
theory Tcp_Server
  imports Message_Framing Thread_Programs
begin

text \<open>
  \<open>main\<close> of \<^verbatim>\<open>systems/tcp/TcpServer.cpp\<close>: one thread for every connection, and the signal handler that
  clears \<open>g_running\<close>, as programs over this flag. A step of a client's thread is a test of the flag and,
  when it is set, the message received after it and its echo. The calls of the operating system that may
  fail are given by their outcomes.
\<close>

section \<open>The threads\<close>

function client_thread :: "segments \<Rightarrow> string \<Rightarrow> (bool, string option) prog" where
  "client_thread segs sent = Step (\<lambda>g_running. Some (
     if \<not> g_running then Done (Some sent)
     else case receive_message segs of
       None \<Rightarrow> Done None
     | Some (msg, segs') \<Rightarrow>
         if msg = [] \<or> msg = ''quit'' then Done (Some sent)
         else client_thread segs' (sent @ send_message (echo msg)), g_running))"
  by pat_completeness auto
termination
  by (relation "measure (\<lambda>(segs, s). length (concat segs))") (auto dest: receive_message_shrinks)

declare client_thread.simps [simp del]





section \<open>Shutdown\<close>

text \<open>A thread alone is \<open>handle_client\<close>: \<open>running k\<close> is what its \<open>k\<close>-th test reads.\<close>

lemma client_thread_alone:
  "run (client_thread segs sent) r = Some (serve_loop (\<lambda>_. r) k segs sent, r)"
proof (induction segs sent arbitrary: k rule: client_thread.induct)
  case (1 segs sent)
  show ?case
  proof (cases "receive_message segs")
    case (Some ms)
    obtain msg segs' where ms: "ms = (msg, segs')" by (cases ms)
    show ?thesis
    proof (cases "r \<and> msg \<noteq> [] \<and> msg \<noteq> ''quit''")
      case True
      then have "run (client_thread segs' (sent @ send_message (echo msg))) r =
          Some (serve_loop (\<lambda>_. r) (Suc k) segs' (sent @ send_message (echo msg)), r)"
        by (intro 1 [OF _ Some ms [symmetric]]) simp_all
      then show ?thesis
        using Some ms True by (subst client_thread.simps, subst serve_loop.simps) simp
    next
      case False
      then show ?thesis
        using Some ms by (subst client_thread.simps, subst serve_loop.simps) auto
    qed
  qed (subst client_thread.simps, subst serve_loop.simps, simp)
qed

















end
