(* ===== verification/Pool_Demo.thy ===== *)
theory Pool_Demo
  imports Thread_Pool
begin

text \<open>
  \<^verbatim>\<open>systems/threadpool/ThreadPoolDemo.cpp\<close>: the pool is written out a second time; its workers and its
  destructor are those of \<open>ThreadPool\<close>, but \<open>submit\<close> accepts tasks whatever \<open>stop_\<close> says. The main thread
  submits twenty tasks, takes their results from the futures in turn and destroys the pool. A task is its
  number, and its future is ready when the task has returned.
\<close>

definition TASKS :: nat where
  "TASKS = 20"

definition submit :: "'t \<Rightarrow> 't pool \<Rightarrow> 't pool" where
  "submit task p = p\<lparr>tasks := tasks p @ [task], notify_ones := notify_ones p + 1, accepted := accepted p @ [task]\<rparr>"

text \<open>The main thread: submitting task \<open>i\<close>, waiting for future \<open>i\<close> with the results so far, or joining.\<close>

datatype main_point = Submitting nat | Getting nat "int list" | Joining "int list"

definition demo_pool :: "nat pool" where
  "demo_pool = new_pool 4"

inductive demo_step :: "main_point \<times> nat pool \<Rightarrow> main_point \<times> nat pool \<Rightarrow> bool" where
  worker: "work_step p p' \<Longrightarrow> demo_step (m, p) (m, p')"
| spurious: "i < length (workers p) \<Longrightarrow> workers p ! i = Waiting \<Longrightarrow>
    demo_step (m, p) (m, p\<lparr>workers := (workers p)[i := Ready]\<rparr>)"
| submits: "i < TASKS \<Longrightarrow> demo_step (Submitting i, p) (Submitting (Suc i), submit i p)"
| submitted: "demo_step (Submitting TASKS, p) (Getting 0 [], p)"
| gets: "i < TASKS \<Longrightarrow> i \<in> set (finished p) \<Longrightarrow> demo_step (Getting i rs, p) (Getting (Suc i) (rs @ [int i * int i]), p)"
| destroys: "demo_step (Getting TASKS rs, p) (Joining rs, shut_down p)"

definition demo_init :: "main_point \<times> nat pool \<Rightarrow> bool" where
  "demo_init c \<longleftrightarrow> c = (Submitting 0, demo_pool)"

text \<open>The pool of the demonstration is a pool, and the main thread knows what it has accepted.\<close>

fun demo_inv :: "main_point \<times> nat pool \<Rightarrow> bool" where
  "demo_inv (Submitting i, p) = (reachable pool_init pool_step p \<and> \<not> stop p \<and> i \<le> TASKS \<and> accepted p = [0..<i])"
| "demo_inv (Getting i rs, p) = (reachable pool_init pool_step p \<and> \<not> stop p \<and> i \<le> TASKS \<and> accepted p = [0..<TASKS] \<and>
     rs = map (\<lambda>k. int k * int k) [0..<i])"
| "demo_inv (Joining rs, p) = (reachable pool_init pool_step p \<and> stop p \<and> accepted p = [0..<TASKS] \<and>
     rs = map (\<lambda>k. int k * int k) [0..<TASKS])"

lemma submit_is_enqueue: "\<not> stop p \<Longrightarrow> submit task p = snd (enqueue task p)"
  by (simp add: submit_def enqueue_def)

lemma demo_work_keeps: "work_step p p' \<Longrightarrow> stop p' = stop p \<and> accepted p' = accepted p"
  by (induction rule: work_step.induct) (simp_all add: worker_section_def)

lemma demo_inv_quiet:
  assumes "demo_inv (m, p)" "pool_step p p'" "stop p' = stop p" "accepted p' = accepted p"
  shows "demo_inv (m, p')"
  using assms reachable.further [of pool_init pool_step p p'] by (cases m) auto

lemma demo_step_inv: "demo_step c c' \<Longrightarrow> demo_inv c \<Longrightarrow> demo_inv c'"
proof (induction rule: demo_step.induct)
  case (worker p p' m)
  then show ?case using demo_inv_quiet [OF worker(2) pool_step.work [OF worker(1)]] demo_work_keeps [OF worker(1)] by simp
next
  case (spurious i p m)
  then show ?case using demo_inv_quiet [OF spurious(3) pool_step.spurious_wakeup [OF spurious(1,2)]] by simp
next
  case (submits i p)
  then show ?case
    using reachable.further [of pool_init pool_step p "snd (enqueue i p)"] pool_step.enqueue [of p i]
    by (simp add: submit_is_enqueue) (simp add: enqueue_def)
next
  case (destroys rs p)
  then show ?case
    using reachable.further [of pool_init pool_step p "shut_down p"] pool_step.destructor [of p]
    by (simp add: shut_down_def)
qed (simp_all add: TASKS_def)

interpretation demo: step_invariant demo_init demo_step demo_inv
proof unfold_locales
  show "demo_inv c" if "demo_init c" for c
    using that reachable.start [of pool_init "new_pool 4"]
    by (auto simp: demo_init_def demo_pool_def pool_init_def) (auto simp: new_pool_def)
qed (rule demo_step_inv)

section \<open>A run of the demonstration\<close>

text \<open>The steps from one state to another.\<close>

abbreviation demo_steps :: "main_point \<times> nat pool \<Rightarrow> main_point \<times> nat pool \<Rightarrow> bool" where
  "demo_steps \<equiv> demo_step\<^sup>*\<^sup>*"

lemma reachable_steps: "reachable demo_init demo_step c \<Longrightarrow> demo_steps c c' \<Longrightarrow> reachable demo_init demo_step c'"
  by (rotate_tac) (induction rule: rtranclp_induct, auto intro: reachable.further)

lemma all_submitted: "k \<le> TASKS \<Longrightarrow> demo_steps (Submitting 0, demo_pool)
    (Submitting k, demo_pool\<lparr>tasks := [0..<k], notify_ones := k, accepted := [0..<k]\<rparr>)"
proof (induction k)
  case 0
  then show ?case by (simp add: demo_pool_def new_pool_def)
next
  case (Suc k)
  then have "demo_step (Submitting k, demo_pool\<lparr>tasks := [0..<k], notify_ones := k, accepted := [0..<k]\<rparr>)
      (Submitting (Suc k), submit k (demo_pool\<lparr>tasks := [0..<k], notify_ones := k, accepted := [0..<k]\<rparr>))"
    by (intro demo_step.submits) simp
  then show ?case using Suc by (simp add: submit_def rtranclp.rtrancl_into_rtrancl)
qed

lemma worker_runs:
  assumes "workers p = Ready # ws" "tasks p = ts"
  shows "demo_steps (m, p) (m, p\<lparr>tasks := [], dispatched := dispatched p @ ts, finished := finished p @ ts\<rparr>)"
  using assms
proof (induction ts arbitrary: p)
  case Nil
  then show ?case by (cases p) simp
next
  case (Cons t ts)
  let ?p1 = "worker_section 0 p"
  let ?p2 = "?p1\<lparr>workers := (workers ?p1)[0 := Ready], finished := finished ?p1 @ [t]\<rparr>"
  have 1: "demo_step (m, p) (m, ?p1)"
    using Cons.prems(1) by (intro demo_step.worker work_step.worker_section) simp_all
  have p1: "?p1 = p\<lparr>tasks := ts, workers := Running t # ws, dispatched := dispatched p @ [t]\<rparr>"
    using Cons.prems by (simp add: worker_section_def)
  have 2: "demo_step (m, ?p1) (m, ?p2)"
    by (rule demo_step.worker, rule work_step.task_returns) (simp_all add: p1)
  have p2: "?p2 = p\<lparr>tasks := ts, dispatched := dispatched p @ [t], finished := finished p @ [t]\<rparr>"
    using Cons.prems(1) by (simp add: p1)
  have "demo_steps (m, ?p2) (m, ?p2\<lparr>tasks := [], dispatched := dispatched ?p2 @ ts, finished := finished ?p2 @ ts\<rparr>)"
    by (rule Cons.IH) (simp_all add: p2 Cons.prems(1))
  then show ?case using 1 2 by (simp add: p2 converse_rtranclp_into_rtranclp)
qed

lemma all_gotten:
  "[0..<TASKS] = finished p \<Longrightarrow> k \<le> TASKS \<Longrightarrow> demo_steps (Getting 0 [], p) (Getting k (map (\<lambda>i. int i * int i) [0..<k]), p)"
proof (induction k)
  case (Suc k)
  have "k \<in> set (finished p)" using Suc.prems by (simp flip: Suc.prems(1))
  then have "demo_step (Getting k (map (\<lambda>i. int i * int i) [0..<k]), p)
      (Getting (Suc k) (map (\<lambda>i. int i * int i) [0..<k] @ [int k * int k]), p)"
    using Suc.prems(2) by (intro demo_step.gets) simp_all
  then show ?case using Suc by (simp add: rtranclp.rtrancl_into_rtrancl)
qed simp

lemma workers_leave:
  assumes "stop p" "tasks p = []"
  shows "workers p = replicate k Exited @ replicate n Ready \<Longrightarrow>
    demo_steps (m, p) (m, p\<lparr>workers := replicate (k + n) Exited\<rparr>)"
  using assms
proof (induction n arbitrary: k p)
  case (Suc n)
  let ?p1 = "worker_section k p"
  have w: "workers p = replicate k Exited @ Ready # replicate n Ready" using Suc.prems(1) by simp
  have 1: "demo_step (m, p) (m, ?p1)"
    by (intro demo_step.worker work_step.worker_section) (simp_all add: w nth_append)
  have "?p1 = p\<lparr>workers := replicate (Suc k) Exited @ replicate n Ready\<rparr>"
    using Suc.prems(2,3) by (simp add: worker_section_def w list_update_append replicate_app_Cons_same)
  moreover from this have "demo_steps (m, ?p1) (m, ?p1\<lparr>workers := replicate (Suc k + n) Exited\<rparr>)"
    by (intro Suc.IH) (simp_all add: Suc.prems)
  ultimately show ?case using 1 by (simp add: converse_rtranclp_into_rtranclp)
next
  case 0
  then show ?case by (cases p) simp
qed

lemma demo_finishes: "\<exists>rs p. reachable demo_init demo_step (Joining rs, p) \<and> joined p"
proof -
  let ?ts = "[0..<TASKS]"
  let ?p1 = "demo_pool\<lparr>tasks := ?ts, notify_ones := TASKS, accepted := ?ts\<rparr>"
  let ?p2 = "?p1\<lparr>tasks := [], dispatched := dispatched ?p1 @ ?ts, finished := finished ?p1 @ ?ts\<rparr>"
  let ?rs = "map (\<lambda>i. int i * int i) ?ts"
  have pool: "workers demo_pool = replicate 0 Exited @ replicate 4 Ready" "finished demo_pool = []"
    by (simp_all add: demo_pool_def new_pool_def pool_size_def)
  have 1: "demo_steps (Submitting 0, demo_pool) (Submitting TASKS, ?p1)" by (rule all_submitted) simp
  have 2: "demo_step (Submitting TASKS, ?p1) (Getting 0 [], ?p1)" by (rule demo_step.submitted)
  have 3: "demo_steps (Getting 0 [], ?p1) (Getting 0 [], ?p2)"
    by (rule worker_runs [where ws = "replicate 3 Ready"]) (simp_all add: pool numeral_eq_Suc)
  have 4: "demo_steps (Getting 0 [], ?p2) (Getting TASKS ?rs, ?p2)" by (rule all_gotten) (simp_all add: pool)
  have 5: "demo_step (Getting TASKS ?rs, ?p2) (Joining ?rs, shut_down ?p2)" by (rule demo_step.destroys)
  have 6: "demo_steps (Joining ?rs, shut_down ?p2) (Joining ?rs, (shut_down ?p2)\<lparr>workers := replicate (0 + 4) Exited\<rparr>)"
    by (rule workers_leave) (simp_all add: shut_down_def pool)
  note run = rtranclp_trans [OF 1 rtranclp_trans [OF r_into_rtranclp [where r = demo_step, OF 2] rtranclp_trans [OF 3 rtranclp_trans [OF 4
      rtranclp_trans [OF r_into_rtranclp [where r = demo_step, OF 5] 6]]]]]
  have "reachable demo_init demo_step (Submitting 0, demo_pool)" by (rule reachable.start) (simp add: demo_init_def)
  from reachable_steps [OF this run] show ?thesis by (intro exI conjI) (assumption, simp add: joined_def list_all_iff)
qed

section \<open>The results\<close>

text \<open>The demonstration prints what it promises: every state it can reach is one of the thread pool; when
  the main thread joins the workers it has printed the squares of 0 to 19 in order, and when the joins
  have returned the twenty tasks have run once each and none is left.\<close>

theorem demo_prints_the_squares:
  assumes "reachable demo_init demo_step (Joining rs, p)"
  shows "rs = map (\<lambda>i. int i * int i) [0..<20] \<and> reachable pool_init pool_step p \<and>
    (joined p \<longrightarrow> mset (finished p) = mset [0..<20] \<and> tasks p = [])"
proof -
  have inv: "demo_inv (Joining rs, p)" using assms by (rule demo.reachable_inv)
  then have "reachable pool_init pool_step p" by simp
  then have p: "pool_inv p" by (rule pool.reachable_inv)
  have "mset (finished p) = mset (accepted p) \<and> tasks p = []" if "joined p"
    by (rule joined_drained [OF p that])
  then show ?thesis using inv by (simp add: TASKS_def)
qed

theorem demo_prints_the_squares_witness:
  "\<exists>p. reachable demo_init demo_step (Joining (map (\<lambda>i. int i * int i) [0..<20]), p) \<and>
    mset (finished p) = mset [0..<20] \<and> tasks p = []"
proof -
  obtain rs p where run: "reachable demo_init demo_step (Joining rs, p)" "joined p" using demo_finishes by blast
  then show ?thesis using demo_prints_the_squares [OF run(1)] by blast
qed

end
