(* ===== verification/Prepared_Statement.thy ===== *)
theory Prepared_Statement
  imports Acad_Prelude "HOL-Library.Monad_Syntax"
begin

text \<open>
  The class \<open>PreparedStatement\<close> of \<^verbatim>\<open>backend/include/database/Database.hpp\<close> and \<open>Database::prepare\<close>:
  who owns the handle of a prepared statement and when it is given back. An object is a variable, its
  state the pointer \<open>stmt_\<close> (0 is \<open>nullptr\<close>); an operation answers the changed objects and the calls
  of SQLite it makes, in their order. SQLite is outside: what \<open>sqlite3_prepare_v2\<close> answers is given
  with the operation. \<open>None\<close> is a program that does not compile or whose lifetimes are wrong: an
  operation on an object that is not alive, a second construction of one that is. A copy has no
  operation, since both copy operations are deleted.
\<close>

section \<open>The calls and the objects\<close>

datatype bound_value = Bound_Int int | Bound_Int64 int | Bound_Text string | Bound_Null

datatype sqlite_call =
    Prepared nat
  | Bound nat int bound_value
  | Stepped nat
  | Was_reset nat
  | Cleared nat
  | Column_read nat int
  | Columns_counted nat
  | Finalized nat

record objects =
  stmt_of :: "nat \<rightharpoonup> nat"
  sq_calls :: "sqlite_call list"

definition no_objects :: objects where
  "no_objects = \<lparr>stmt_of = Map.empty, sq_calls = []\<rparr>"

definition call_sqlite :: "sqlite_call list \<Rightarrow> objects \<Rightarrow> objects" where
  "call_sqlite cs s = s\<lparr>sq_calls := sq_calls s @ cs\<rparr>"

definition set_stmt :: "nat \<Rightarrow> nat \<Rightarrow> objects \<Rightarrow> objects" where
  "set_stmt v p s = s\<lparr>stmt_of := (stmt_of s)(v \<mapsto> p)\<rparr>"

text \<open>\<open>if (stmt_) sqlite3_finalize(stmt_);\<close>\<close>

definition finalize_stmt :: "nat \<Rightarrow> objects \<Rightarrow> objects" where
  "finalize_stmt p s = (if p \<noteq> 0 then call_sqlite [Finalized p] s else s)"

section \<open>The special members\<close>

definition construct_stmt :: "nat \<Rightarrow> nat \<Rightarrow> objects \<Rightarrow> objects option" where
  "construct_stmt v p s = (if stmt_of s v = None then Some (set_stmt v p s) else None)"

definition destroy_stmt :: "nat \<Rightarrow> objects \<Rightarrow> objects option" where
  "destroy_stmt v s = (case stmt_of s v of
     None \<Rightarrow> None
   | Some p \<Rightarrow> let s1 = finalize_stmt p s in Some (s1\<lparr>stmt_of := (stmt_of s1)(v := None)\<rparr>))"

definition move_construct :: "nat \<Rightarrow> nat \<Rightarrow> objects \<Rightarrow> objects option" where
  "move_construct v other s = (case stmt_of s other of
     None \<Rightarrow> None
   | Some p \<Rightarrow> do { s1 \<leftarrow> construct_stmt v p s; Some (set_stmt other 0 s1) })"

definition move_assign :: "nat \<Rightarrow> nat \<Rightarrow> objects \<Rightarrow> objects option" where
  "move_assign v other s = (case (stmt_of s v, stmt_of s other) of
     (Some p, Some q) \<Rightarrow>
       if v \<noteq> other then Some (set_stmt other 0 (set_stmt v q (finalize_stmt p s))) else Some s
   | _ \<Rightarrow> None)"

text \<open>
  \<open>Database::prepare\<close>, given what SQLite answers: an error message, or a pointer (0 for a text
  without a statement). The result is the message of the exception, if one is thrown.
\<close>

definition prepare :: "nat \<Rightarrow> string \<Rightarrow> string + nat \<Rightarrow> objects \<Rightarrow> (string option \<times> objects) option" where
  "prepare v sql answer s = (case answer of
     Inl err \<Rightarrow> Some (Some (''Failed to prepare statement: '' @ err @ '' SQL: '' @ sql), s)
   | Inr p \<Rightarrow> do { s1 \<leftarrow> construct_stmt v p (call_sqlite [Prepared p] s); Some (None, s1) })"

section \<open>The wrapped calls\<close>

definition on_stmt :: "nat \<Rightarrow> (nat \<Rightarrow> sqlite_call list) \<Rightarrow> objects \<Rightarrow> objects option" where
  "on_stmt v f s = (case stmt_of s v of None \<Rightarrow> None | Some p \<Rightarrow> Some (call_sqlite (f p) s))"

definition bind_int :: "nat \<Rightarrow> int \<Rightarrow> int \<Rightarrow> objects \<Rightarrow> objects option" where
  "bind_int v i n = on_stmt v (\<lambda>p. [Bound p i (Bound_Int n)])"

definition bind_text :: "nat \<Rightarrow> int \<Rightarrow> string \<Rightarrow> objects \<Rightarrow> objects option" where
  "bind_text v i value = on_stmt v (\<lambda>p. [Bound p i (Bound_Text (c_str value))])"

definition bind_int64 :: "nat \<Rightarrow> int \<Rightarrow> int \<Rightarrow> objects \<Rightarrow> objects option" where
  "bind_int64 v i n = on_stmt v (\<lambda>p. [Bound p i (Bound_Int64 n)])"

definition bind_null :: "nat \<Rightarrow> int \<Rightarrow> objects \<Rightarrow> objects option" where
  "bind_null v i = on_stmt v (\<lambda>p. [Bound p i Bound_Null])"

definition step_stmt :: "nat \<Rightarrow> objects \<Rightarrow> objects option" where
  "step_stmt v = on_stmt v (\<lambda>p. [Stepped p])"

definition reset_stmt :: "nat \<Rightarrow> objects \<Rightarrow> objects option" where
  "reset_stmt v = on_stmt v (\<lambda>p. [Was_reset p, Cleared p])"

text \<open>\<open>column_int\<close>, \<open>column_int64\<close> and \<open>column_text\<close> each read one column.\<close>

definition read_column :: "nat \<Rightarrow> int \<Rightarrow> objects \<Rightarrow> objects option" where
  "read_column v col = on_stmt v (\<lambda>p. [Column_read p col])"

definition column_count :: "nat \<Rightarrow> objects \<Rightarrow> objects option" where
  "column_count v = on_stmt v (\<lambda>p. [Columns_counted p])"

text \<open>The value of \<open>column_text\<close>, given what \<open>sqlite3_column_text\<close> answers (\<open>None\<close> is \<open>nullptr\<close>).\<close>

definition column_text :: "string option \<Rightarrow> string" where
  "column_text answer = (case answer of None \<Rightarrow> '''' | Some t \<Rightarrow> c_str t)"

section \<open>Programs over statements\<close>

datatype stmt_op =
    Default_init nat
  | Prepare nat string "string + nat"
  | Move_init nat nat
  | Move_to nat nat
  | Bind_int nat int int
  | Bind_text nat int string
  | Bind_int64 nat int int
  | Bind_null nat int
  | Step_stmt nat
  | Reset_stmt nat
  | Column nat int
  | Column_count nat
  | Destroy nat

fun run_stmt_op :: "stmt_op \<Rightarrow> objects \<Rightarrow> objects option" where
  "run_stmt_op (Default_init v) = construct_stmt v 0"
| "run_stmt_op (Prepare v sql answer) = (\<lambda>s. map_option snd (prepare v sql answer s))"
| "run_stmt_op (Move_init v w) = move_construct v w"
| "run_stmt_op (Move_to v w) = move_assign v w"
| "run_stmt_op (Bind_int v i n) = bind_int v i n"
| "run_stmt_op (Bind_text v i x) = bind_text v i x"
| "run_stmt_op (Bind_int64 v i n) = bind_int64 v i n"
| "run_stmt_op (Bind_null v i) = bind_null v i"
| "run_stmt_op (Step_stmt v) = step_stmt v"
| "run_stmt_op (Reset_stmt v) = reset_stmt v"
| "run_stmt_op (Column v c) = read_column v c"
| "run_stmt_op (Column_count v) = column_count v"
| "run_stmt_op (Destroy v) = destroy_stmt v"

text \<open>
  A prepare that fails throws; the destructors that follow in the sequence are the unwinding.
\<close>

primrec run_stmt_ops :: "stmt_op list \<Rightarrow> objects \<Rightarrow> objects option" where
  "run_stmt_ops [] s = Some s"
| "run_stmt_ops (c # cs) s = do { s1 \<leftarrow> run_stmt_op c s; run_stmt_ops cs s1 }"

section \<open>What SQLite asks of its caller\<close>

text \<open>
  The handles that are prepared and not yet finalized. SQLite never answers one of them again; a
  caller may finalize only these, and use only these or the null pointer.
\<close>

fun call_live :: "sqlite_call \<Rightarrow> nat set \<Rightarrow> nat set" where
  "call_live (Prepared p) L = (if p = 0 then L else insert p L)"
| "call_live (Finalized p) L = L - {p}"
| "call_live c L = L"

fun call_fresh :: "sqlite_call \<Rightarrow> nat set \<Rightarrow> bool" where
  "call_fresh (Prepared p) L \<longleftrightarrow> p \<notin> L"
| "call_fresh c L \<longleftrightarrow> True"

fun call_ok :: "sqlite_call \<Rightarrow> nat set \<Rightarrow> bool" where
  "call_ok (Prepared p) L \<longleftrightarrow> True"
| "call_ok (Finalized p) L \<longleftrightarrow> p \<in> L"
| "call_ok (Bound p i x) L \<longleftrightarrow> p = 0 \<or> p \<in> L"
| "call_ok (Stepped p) L \<longleftrightarrow> p = 0 \<or> p \<in> L"
| "call_ok (Was_reset p) L \<longleftrightarrow> p = 0 \<or> p \<in> L"
| "call_ok (Cleared p) L \<longleftrightarrow> p = 0 \<or> p \<in> L"
| "call_ok (Column_read p c) L \<longleftrightarrow> p = 0 \<or> p \<in> L"
| "call_ok (Columns_counted p) L \<longleftrightarrow> p = 0 \<or> p \<in> L"

primrec live_handles :: "nat set \<Rightarrow> sqlite_call list \<Rightarrow> nat set" where
  "live_handles L [] = L"
| "live_handles L (c # cs) = live_handles (call_live c L) cs"

primrec answers_fresh :: "nat set \<Rightarrow> sqlite_call list \<Rightarrow> bool" where
  "answers_fresh L [] \<longleftrightarrow> True"
| "answers_fresh L (c # cs) \<longleftrightarrow> call_fresh c L \<and> answers_fresh (call_live c L) cs"

primrec handles_used_well :: "nat set \<Rightarrow> sqlite_call list \<Rightarrow> bool" where
  "handles_used_well L [] \<longleftrightarrow> True"
| "handles_used_well L (c # cs) \<longleftrightarrow> call_ok c L \<and> handles_used_well (call_live c L) cs"

lemma traces_append [simp]:
  "live_handles L (xs @ ys) = live_handles (live_handles L xs) ys"
  "answers_fresh L (xs @ ys) \<longleftrightarrow> answers_fresh L xs \<and> answers_fresh (live_handles L xs) ys"
  "handles_used_well L (xs @ ys) \<longleftrightarrow> handles_used_well L xs \<and> handles_used_well (live_handles L xs) ys"
  by (induction xs arbitrary: L) auto

section \<open>Every handle has one owner\<close>

definition held_handles :: "objects \<Rightarrow> nat set" where
  "held_handles s = ran (stmt_of s) - {0}"

definition one_owner :: "objects \<Rightarrow> bool" where
  "one_owner s \<longleftrightarrow> (\<forall>v w p. stmt_of s v = Some p \<longrightarrow> stmt_of s w = Some p \<longrightarrow> p \<noteq> 0 \<longrightarrow> v = w)"

definition owned :: "objects \<Rightarrow> bool" where
  "owned s \<longleftrightarrow> handles_used_well {} (sq_calls s) \<and> live_handles {} (sq_calls s) = held_handles s \<and> one_owner s"

lemma held_iff: "p \<in> held_handles s \<longleftrightarrow> p \<noteq> 0 \<and> (\<exists>v. stmt_of s v = Some p)"
  by (auto simp: held_handles_def ran_def)

lemma not_held_null: "0 \<notin> held_handles s"
  by (simp add: held_handles_def)

lemma one_ownerD: "one_owner s \<Longrightarrow> stmt_of s v = Some p \<Longrightarrow> stmt_of s w = Some p \<Longrightarrow> p \<noteq> 0 \<Longrightarrow> v = w"
  unfolding one_owner_def by blast

lemma call_sqlite_simps [simp]:
  "stmt_of (call_sqlite cs s) = stmt_of s" "sq_calls (call_sqlite cs s) = sq_calls s @ cs"
  "stmt_of (set_stmt v p s) = (stmt_of s)(v \<mapsto> p)" "sq_calls (set_stmt v p s) = sq_calls s"
  "stmt_of (finalize_stmt p s) = stmt_of s"
  "sq_calls (finalize_stmt p s) = sq_calls s @ (if p = 0 then [] else [Finalized p])"
  by (simp_all add: call_sqlite_def set_stmt_def finalize_stmt_def)

text \<open>A wrapped call uses the pointer of a live object.\<close>

lemma on_stmt_owned:
  assumes "owned s" "on_stmt v f s = Some s'"
    and "\<And>p L. p = 0 \<or> p \<in> L \<Longrightarrow> handles_used_well L (f p) \<and> live_handles L (f p) = L"
  shows "owned s'"
proof -
  obtain p where p: "stmt_of s v = Some p" and s': "s' = call_sqlite (f p) s"
    using assms(2) by (auto simp: on_stmt_def split: option.splits)
  have "p = 0 \<or> p \<in> held_handles s" using p by (auto simp: held_iff)
  from assms(3) [OF this] show ?thesis
    using assms(1) by (simp add: owned_def s' held_handles_def one_owner_def)
qed

lemma construct_owned:
  assumes "owned s" "stmt_of s v = None" "p \<notin> held_handles s"
  shows "owned (set_stmt v p (call_sqlite [Prepared p] s))"
proof -
  have "held_handles (set_stmt v p (call_sqlite [Prepared p] s)) = call_live (Prepared p) (held_handles s)"
    using assms(2) not_held_null [of s] by (auto simp: held_handles_def ran_map_upd)
  moreover have "one_owner (set_stmt v p (call_sqlite [Prepared p] s))"
    using assms by (auto simp: one_owner_def owned_def held_iff)
  ultimately show ?thesis using assms(1) by (simp add: owned_def)
qed

lemma default_owned:
  assumes "owned s" "stmt_of s v = None"
  shows "owned (set_stmt v 0 s)"
proof -
  have "held_handles (set_stmt v 0 s) = held_handles s" using assms(2) by (auto simp: held_handles_def ran_map_upd)
  then show ?thesis using assms by (auto simp: owned_def one_owner_def)
qed

lemma release_owned:
  assumes "owned s" "stmt_of s v = Some p"
  shows "held_handles (finalize_stmt p s\<lparr>stmt_of := (stmt_of s)(v := None)\<rparr>) = held_handles s - {p}"
    and "handles_used_well {} (sq_calls (finalize_stmt p s))"
    and "live_handles {} (sq_calls (finalize_stmt p s)) = held_handles s - {p}"
proof -
  have "p \<noteq> 0 \<Longrightarrow> p \<in> held_handles s" using assms(2) by (auto simp: held_iff)
  then show "handles_used_well {} (sq_calls (finalize_stmt p s))"
    "live_handles {} (sq_calls (finalize_stmt p s)) = held_handles s - {p}"
    using assms(1) not_held_null [of s] by (auto simp: owned_def)
  show "held_handles (finalize_stmt p s\<lparr>stmt_of := (stmt_of s)(v := None)\<rparr>) = held_handles s - {p}"
  proof (rule set_eqI)
    fix x
    have "x \<noteq> 0 \<Longrightarrow> stmt_of s a = Some x \<Longrightarrow> a \<noteq> v \<longleftrightarrow> x \<noteq> p" for a
      using assms(2) one_ownerD [of s a x v] assms(1) by (auto simp: owned_def)
    then show "x \<in> held_handles (finalize_stmt p s\<lparr>stmt_of := (stmt_of s)(v := None)\<rparr>) \<longleftrightarrow> x \<in> held_handles s - {p}"
      unfolding held_iff Diff_iff singleton_iff by (simp split: if_splits) metis
  qed
qed

lemma destroy_owned:
  assumes "owned s" "destroy_stmt v s = Some s'"
  shows "owned s'"
proof -
  obtain p where p: "stmt_of s v = Some p"
    and s': "s' = finalize_stmt p s\<lparr>stmt_of := (stmt_of s)(v := None)\<rparr>"
    using assms(2) by (auto simp: destroy_stmt_def Let_def split: option.splits)
  have "one_owner s'" using assms(1) by (auto simp: s' owned_def one_owner_def split: if_splits)
  then show ?thesis using release_owned [OF assms(1) p] by (simp add: owned_def s')
qed

text \<open>A moved pointer changes its owner.\<close>

lemma moved_owned:
  assumes "handles_used_well {} (sq_calls s)" "live_handles {} (sq_calls s) = held_handles (s\<lparr>stmt_of := (stmt_of s)(v := None)\<rparr>)"
    and "one_owner (s\<lparr>stmt_of := (stmt_of s)(v := None)\<rparr>)" "stmt_of s w = Some q" "v \<noteq> w"
  shows "owned (set_stmt w 0 (set_stmt v q s))"
proof -
  have "held_handles (set_stmt w 0 (set_stmt v q s)) = held_handles (s\<lparr>stmt_of := (stmt_of s)(v := None)\<rparr>)"
  proof (rule set_eqI, rule iffI)
    fix x
    assume "x \<in> held_handles (set_stmt w 0 (set_stmt v q s))"
    then obtain a where "x \<noteq> 0" "a \<noteq> w" "if a = v then x = q else stmt_of s a = Some x"
      by (auto simp: held_iff split: if_splits)
    then show "x \<in> held_handles (s\<lparr>stmt_of := (stmt_of s)(v := None)\<rparr>)"
      using assms(4,5) by (cases "a = v") (auto simp: held_iff)
  next
    fix x
    assume "x \<in> held_handles (s\<lparr>stmt_of := (stmt_of s)(v := None)\<rparr>)"
    then obtain a where "x \<noteq> 0" "a \<noteq> v" "stmt_of s a = Some x" by (auto simp: held_iff split: if_splits)
    then show "x \<in> held_handles (set_stmt w 0 (set_stmt v q s))"
      using assms(4,5) by (cases "a = w") (auto simp: held_iff intro: exI [of _ v] exI [of _ a])
  qed
  moreover have "one_owner (set_stmt w 0 (set_stmt v q s))"
  proof -
    have a_to_b: "a = b" if x: "x \<noteq> 0"
      and a: "((stmt_of s)(v \<mapsto> q, w \<mapsto> 0)) a = Some x" and b: "((stmt_of s)(v \<mapsto> q, w \<mapsto> 0)) b = Some x" for a b x
    proof -
      let ?old = "\<lambda>a. if a = v then w else a"
      have "((stmt_of s)(v := None)) (?old a) = Some x" "((stmt_of s)(v := None)) (?old b) = Some x"
        using x a b assms(4,5) by (simp_all split: if_splits)
      from one_ownerD [OF assms(3), of "?old a" x "?old b"] this x have "?old a = ?old b" by simp
      then show ?thesis using x a b by (simp split: if_splits)
    qed
    show ?thesis unfolding one_owner_def call_sqlite_simps by (intro allI impI) (rule a_to_b)
  qed
  ultimately show ?thesis using assms(1,2) by (simp add: owned_def)
qed

lemma move_construct_owned:
  assumes "owned s" "move_construct v w s = Some s'"
  shows "owned s'"
proof -
  obtain q where q: "stmt_of s w = Some q" "stmt_of s v = None" and s': "s' = set_stmt w 0 (set_stmt v q s)"
    using assms(2) by (auto simp: move_construct_def construct_stmt_def split: option.splits if_splits)
  have same: "s\<lparr>stmt_of := (stmt_of s)(v := None)\<rparr> = s" using q(2) by (cases s) (auto simp: fun_upd_idem)
  have "v \<noteq> w" using q by auto
  then show ?thesis using moved_owned [of s v w q, unfolded same] assms(1) q(1) by (simp add: s' owned_def)
qed

lemma move_assign_owned:
  assumes "owned s" "move_assign v w s = Some s'"
  shows "owned s'"
proof (cases "v = w")
  case True
  then show ?thesis using assms by (auto simp: move_assign_def split: option.splits)
next
  case False
  then obtain p q where p: "stmt_of s v = Some p" and q: "stmt_of s w = Some q"
    and s': "s' = set_stmt w 0 (set_stmt v q (finalize_stmt p s))"
    using assms(2) by (auto simp: move_assign_def split: option.splits)
  have "one_owner (finalize_stmt p s\<lparr>stmt_of := (stmt_of s)(v := None)\<rparr>)"
    using assms(1) by (auto simp: owned_def one_owner_def split: if_splits)
  then show ?thesis using moved_owned [of "finalize_stmt p s" v w q] release_owned [OF assms(1) p] q False
    by (simp add: s')
qed

lemma run_stmt_op_owned:
  assumes "owned s" "run_stmt_op c s = Some s'" "answers_fresh {} (sq_calls s')"
  shows "owned s'"
proof (cases c)
  case (Default_init v)
  then show ?thesis using assms default_owned by (auto simp: construct_stmt_def split: if_splits)
next
  case (Prepare v sql answer)
  show ?thesis
  proof (cases answer)
    case (Inl err)
    then show ?thesis using assms Prepare by (simp add: prepare_def)
  next
    case (Inr p)
    then have "stmt_of s v = None" "s' = set_stmt v p (call_sqlite [Prepared p] s)"
      using assms(2) Prepare by (auto simp: prepare_def construct_stmt_def split: if_splits)
    moreover have "p \<notin> held_handles s" using assms(1,3) calculation by (simp add: owned_def)
    ultimately show ?thesis using construct_owned [OF assms(1)] by simp
  qed
next
  case (Move_init v w)
  then show ?thesis using assms(2) move_construct_owned [OF assms(1)] by simp
next
  case (Move_to v w)
  then show ?thesis using assms(2) move_assign_owned [OF assms(1)] by simp
next
  case (Bind_int v i n)
  then show ?thesis using assms(2) on_stmt_owned [OF assms(1), of v "\<lambda>p. [Bound p i (Bound_Int n)]"] by (simp add: bind_int_def)
next
  case (Bind_text v i x)
  then show ?thesis using assms(2) on_stmt_owned [OF assms(1), of v "\<lambda>p. [Bound p i (Bound_Text (c_str x))]"] by (simp add: bind_text_def)
next
  case (Bind_null v i)
  then show ?thesis using assms(2) on_stmt_owned [OF assms(1), of v "\<lambda>p. [Bound p i Bound_Null]"] by (simp add: bind_null_def)
next
  case (Step_stmt v)
  then show ?thesis using assms(2) on_stmt_owned [OF assms(1), of v "\<lambda>p. [Stepped p]"] by (simp add: step_stmt_def)
next
  case (Reset_stmt v)
  then show ?thesis using assms(2) on_stmt_owned [OF assms(1), of v "\<lambda>p. [Was_reset p, Cleared p]"] by (simp add: reset_stmt_def)
next
  case (Column v i)
  then show ?thesis using assms(2) on_stmt_owned [OF assms(1), of v "\<lambda>p. [Column_read p i]"] by (simp add: read_column_def)
next
  case (Bind_int64 v i n)
  then show ?thesis using assms(2) on_stmt_owned [OF assms(1), of v "\<lambda>p. [Bound p i (Bound_Int64 n)]"] by (simp add: bind_int64_def)
next
  case (Column_count v)
  then show ?thesis using assms(2) on_stmt_owned [OF assms(1), of v "\<lambda>p. [Columns_counted p]"] by (simp add: column_count_def)
next
  case (Destroy v)
  then show ?thesis using assms(2) destroy_owned [OF assms(1)] by simp
qed

lemma call_order: "run_stmt_op c s = Some s' \<Longrightarrow> \<exists>more. sq_calls s' = sq_calls s @ more"
  by (cases c) (auto simp: construct_stmt_def prepare_def move_construct_def move_assign_def on_stmt_def bind_int_def
      bind_text_def bind_int64_def bind_null_def step_stmt_def reset_stmt_def read_column_def column_count_def
      destroy_stmt_def split: if_splits option.splits sum.splits)

lemma calls_grow: "run_stmt_ops cs s = Some s' \<Longrightarrow> \<exists>more. sq_calls s' = sq_calls s @ more"
proof (induction cs arbitrary: s)
  case (Cons c cs)
  then obtain s1 where "run_stmt_op c s = Some s1" "run_stmt_ops cs s1 = Some s'" by (auto simp: bind_eq_Some_conv)
  then show ?case using call_order [of c s s1] Cons.IH [of s1] by auto
qed simp

lemma run_stmt_ops_owned:
  assumes "owned s" "run_stmt_ops cs s = Some s'" "answers_fresh {} (sq_calls s')"
  shows "owned s'"
  using assms
proof (induction cs arbitrary: s)
  case (Cons c cs)
  then obtain s1 where c: "run_stmt_op c s = Some s1" and cs: "run_stmt_ops cs s1 = Some s'"
    by (auto simp: bind_eq_Some_conv)
  have "answers_fresh {} (sq_calls s1)" using calls_grow [OF cs] Cons.prems(3) by auto
  then show ?case using Cons.IH [OF run_stmt_op_owned [OF Cons.prems(1) c] cs] Cons.prems(3) by blast
qed simp

text \<open>C40: 
  C40: a program that only goes through \<open>PreparedStatement\<close> gives every handle back exactly once and
  never uses one it has given back, whatever it moves where and wherever a \<open>prepare\<close> throws: at every
  moment the handles SQLite has out are those of the objects alive, so that none is left when the last
  object is gone. SQLite must not answer a handle that is still out.
\<close>

theorem statements_are_finalized_once:
  assumes "run_stmt_ops cs no_objects = Some s" "answers_fresh {} (sq_calls s)"
  shows "handles_used_well {} (sq_calls s) \<and> live_handles {} (sq_calls s) = ran (stmt_of s) - {0}"
proof -
  have "owned no_objects" by (simp add: owned_def no_objects_def held_handles_def one_owner_def)
  from run_stmt_ops_owned [OF this assms] show ?thesis by (simp add: owned_def held_handles_def)
qed

text \<open>
  Two statements, the second moved over the first, a third that SQLite refuses, and a handle SQLite
  answers again after it was finalized.
\<close>

definition some_ops :: "stmt_op list" where
  "some_ops = [Default_init 0, Prepare 1 ''SELECT 1'' (Inr 7), Bind_int 1 1 5, Step_stmt 1,
     Prepare 2 ''SELECT 2'' (Inr 9), Move_to 1 2, Reset_stmt 1, Prepare 3 ''SELEC'' (Inl ''syntax error''),
     Prepare 3 ''SELECT 3'' (Inr 7), Move_init 4 3, Move_to 0 4, Bind_text 0 1 ''x'', Step_stmt 0, Column 0 0,
     Destroy 4, Destroy 3, Destroy 2, Destroy 1, Destroy 0]"

theorem statements_are_finalized_once_witness:
  "\<exists>s. run_stmt_ops some_ops no_objects = Some s \<and> handles_used_well {} (sq_calls s) \<and>
     live_handles {} (sq_calls s) = {} \<and> Finalized 9 \<in> set (sq_calls s)"
proof -
  obtain s where s: "run_stmt_ops some_ops no_objects = Some s" "stmt_of s = Map.empty"
      "answers_fresh {} (sq_calls s)" "Finalized 9 \<in> set (sq_calls s)"
    by (simp add: some_ops_def no_objects_def construct_stmt_def prepare_def move_construct_def move_assign_def
        on_stmt_def bind_int_def bind_text_def step_stmt_def reset_stmt_def read_column_def destroy_stmt_def
        Let_def call_sqlite_def set_stmt_def finalize_stmt_def)
  show ?thesis using statements_are_finalized_once [OF s(1,3)] s by auto
qed

end
