(* ===== verification/Spec2Isabelle.thy ===== *)
theory Spec2Isabelle
  imports Registration_Correctness Auth_Correctness Course_Correctness Api_Correctness
    Statistics_Correctness Seed_Data Thread_Pool Bounded_Buffer
    Legacy_Listings Legacy_Main Master_Worker Connection_Races
    Shared_Mutex_Demo Server_Start Typed_Reads Tcp_Server Pool_Demo
    Prepared_Statement
begin

text \<open>
  Academia, a course registration system: a C++20 server (src/backend) that keeps users, courses
  and registrations in SQLite and offers them over a REST interface, a set of demonstrations of
  operating system concepts (src/systems), and the older C program it grew out of (src/academia,
  src/server, src/client, src/basic_requirements).

  The parts of the server and how they interact.  A request reaches a controller
  (src/backend/include/controllers), which asks the middleware for the user of the bearer token,
  checks the role, parses the JSON body and calls a service.  The services
  (src/backend/include/services) hold the rules: credentials and sessions, who may change a
  course, when a student gets a seat.  They call the repositories
  (src/backend/include/repositories), one per table, which run SQL statements on the one
  connection that Database (database/Database.hpp, src/database/Database.cpp) owns.

  Which theory models what.

  \<^item> Acad_Prelude: the error and result types, association and list lemmas, text conversions
    and the collections of simplification rules that the components share.
  \<^item> Models: the structs User, Course and Registration, the roles, and their conversions to and
    from JSON.  The JSON library is not part of the repository, so a value of type json_api
    carries its operations; jv_api is an instance used by witnesses.
  \<^item> Database: the rows of the tables, the schema's constraints and cascading deletes, what a
    statement returns (execute, begin, commit, rollback) and the state \<open>conn\<close> of the one
    connection: tables, snapshot of an open transaction, identifiers, clock and random source.
    Schema_Invariants proves that every statement keeps the schema.
  \<^item> Prepared_Statement: the RAII class around a statement handle.  The repositories are written over
    the meaning of their statements; here are the objects, the moves between them and the calls of
    SQLite in their order, and that every handle is finalized once and not used afterwards.
  \<^item> User_Repository, Course_Repository, Registration_Repository: one definition per member
    function, with the C++ conversions of rows.
  \<^item> Registration_Service: register_student and drop_student inside a transaction, the abstract
    seat specification they refine, and the theorems in Registration_Correctness.
  \<^item> Shared_Connection: the same two calls, and update_course, as programs of statements that run in
    threads on the one connection, with the map of the per-course mutexes (Thread_Programs has the
    programs and their interleavings).  Registration_Threads holds the invariant of any number of
    registrations and drops, Connection_Correctness that they are serializable, never oversell and
    always return, Connection_Races the interleavings that go wrong.
  \<^item> Sha256 and Auth_Service: the hash with its loops on 32 bit words and a reference definition
    in the style of the standard; login, logout, tokens and the middleware.  Theorems in
    Auth_Correctness.
  \<^item> Course_Service with Course_Correctness: creation, update, deletion and statistics.
  \<^item> Http_Api and Admin_Api: one definition per route handler, and \<open>handle\<close>, the dispatch.
    Request_Invariants states what a service promises as a locale and interprets it on the
    handlers, so that an invariant of the connection is proved for all routes at once;
    Api_Correctness and Statistics_Correctness hold the properties.
  \<^item> Seed_Data: the scripted rows that Database::seed_data inserts.
  \<^item> Server_Start: src/main.cpp from the environment variables to the exit code, with the
    constructor and destructor of Database; what a run leaves in the database file.
  \<^item> Transition_Systems, Thread_Pool, Bounded_Buffer: step relations with reachability.  The
    first is the shared interface; the second is concurrency/ThreadPool.hpp, the third the
    producer-consumer program of src/systems.
  \<^item> C_Strings, Thread_Programs, Legacy_Store, Legacy_Views: the older program's file store
    (src/academia).  A C function is a program whose atomic sections are what the source does
    between \<open>sem_wait\<close> and \<open>sem_post\<close>; undefined behaviour is \<open>None\<close>.  Legacy_Invariant,
    Legacy_Correctness and Legacy_Listings hold the invariant of the files, the specification
    of enrolling and dropping, and what the listings print.
  \<^item> Message_Framing and Tcp_Server: messages with a length prefix over TCP, the echo demonstration
    (src/systems/tcp), its threads and its shutdown.
  \<^item> Pool_Demo: src/systems/threadpool, as steps of the pool of Thread_Pool.
  \<^item> Legacy_Server, Legacy_Protocol, Legacy_Client, Legacy_Login: one client's thread of
    src/server/server.c, the login loop and the menus of src/client/client.c, and the way from what is
    typed to what happens to the files.  Legacy_Main: the start and the accept loop of server.c, and
    that all clients together never lead to undefined behaviour.
  \<^item> Typed_Reads: types of the JSON documents, and that every GET route answers with a document of
    its type.
  \<^item> Logger: levels, the format of a line and the shared sink of utils/Logger.hpp; the lines of
    different threads are never mixed.
  \<^item> Mutex_Demo and Shared_Mutex_Demo: the four demonstrations of
    src/systems/synchronization/MutexDemo.cpp. What a thread still has to do is a stage; the locales
    of Thread_Programs turn an invariant of the stages into one of all interleavings.
  \<^item> Master_Worker: the master-worker pool of src/basic_requirements and its skeleton.

  What is assumed.  SQLite, the JSON library, Crow and the random device are not in the
  repository.  SQLite is modelled by the documented behaviour of the statements the program
  runs on its schema; engine failures (a full disk, a lock held by another process) are a field
  of the connection that says whether the engine accepts a write, and the theorems that need
  them to be absent say so (\<open>engine_ok\<close>).  Integers of the C++ program are kept at their width
  where a value can reach the limit.

  Not modelled.  The calls of the logger that the handlers and services make, printing to the
  terminal, opening of files and sockets, signals, and the React frontend.
\<close>

end
